(* ===== verification/HSE_Prelude.thy ===== *)
theory HSE_Prelude
  imports Main "HOL-Library.Word" "HOL-Library.Monad_Syntax"
begin

text \<open>
  Shared vocabulary of the development: the machine types of the C++ sources, byte buffers with
  checked loads and stores, the little-endian layout of machine words, and the generic facts on
  lists, options and words that the component theories use.

  A raw buffer (\<open>int8_t*\<close> with the allocation behind it) is the list of its bytes. An access is
  an \<open>option\<close>: \<open>None\<close> stands for an execution that has no defined return, that is an access out
  of the allocation, a dereference of a null pointer, or a \<open>std::out_of_range\<close> of \<open>vector::at\<close>.
  Words are stored in little-endian order, as on the x86-64 and AArch64 targets of the build.
\<close>

unbundle bit_operations_syntax

named_theorems mem_simps \<open>facts on loads and stores of byte buffers\<close>
named_theorems len_simps \<open>facts on the length of buffers and lists after an operation\<close>

subsection \<open>Machine types\<close>

type_synonym byte = "8 word"
type_synonym u8 = "8 word"
type_synonym u16 = "16 word"
type_synonym u32 = "32 word"
type_synonym u64 = "64 word"
type_synonym i16 = "16 word"
type_synonym i32 = "32 word"
type_synonym i64 = "64 word"
type_synonym buffer = "byte list"

text \<open>The limits of \<open><cstdint>\<close>.\<close>

abbreviation (input) UINT8_MAX :: u32 where "UINT8_MAX \<equiv> 0xFF"
abbreviation (input) UINT16_MAX :: u32 where "UINT16_MAX \<equiv> 0xFFFF"
abbreviation (input) UINT32_MAX :: u32 where "UINT32_MAX \<equiv> 0xFFFFFFFF"
abbreviation (input) UINT64_MAX :: u64 where "UINT64_MAX \<equiv> 0xFFFFFFFFFFFFFFFF"

subsection \<open>Byte buffers\<close>

definition load_bytes :: "buffer \<Rightarrow> nat \<Rightarrow> nat \<Rightarrow> byte list option" where
  "load_bytes m a n = (if a + n \<le> length m then Some (take n (drop a m)) else None)"

definition store_bytes :: "buffer \<Rightarrow> nat \<Rightarrow> byte list \<Rightarrow> buffer option" where
  "store_bytes m a bs =
     (if a + length bs \<le> length m
      then Some (take a m @ bs @ drop (a + length bs) m) else None)"

primrec le_word :: "byte list \<Rightarrow> 'a::len word" where
  "le_word [] = 0"
| "le_word (b # bs) = ucast b OR push_bit 8 (le_word bs)"

definition le_bytes :: "nat \<Rightarrow> 'a::len word \<Rightarrow> byte list" where
  "le_bytes n w = map (\<lambda>i. ucast (drop_bit (8 * i) w)) [0..<n]"

text \<open>A typed access through a \<open>reinterpret_cast\<close>: \<open>n\<close> is the \<open>sizeof\<close> of the type.\<close>

definition load_word :: "buffer \<Rightarrow> nat \<Rightarrow> nat \<Rightarrow> 'a::len word option" where
  "load_word m a n = map_option le_word (load_bytes m a n)"

definition store_word :: "buffer \<Rightarrow> nat \<Rightarrow> nat \<Rightarrow> 'a::len word \<Rightarrow> buffer option" where
  "store_word m a n w = store_bytes m a (le_bytes n w)"

text \<open>The \<open>vector\<close> accesses: \<open>operator[]\<close> and \<open>at\<close> have a defined result in range only.\<close>

definition vec_at :: "'a list \<Rightarrow> nat \<Rightarrow> 'a option" where
  "vec_at xs i = (if i < length xs then Some (xs ! i) else None)"

lemma vec_at_Some [simp]: "i < length xs \<Longrightarrow> vec_at xs i = Some (xs ! i)"
  by (simp add: vec_at_def)

lemma vec_at_None_iff [simp]: "vec_at xs i = None \<longleftrightarrow> length xs \<le> i"
  by (auto simp: vec_at_def)

lemma vec_at_eq_Some: "vec_at xs i = Some x \<longleftrightarrow> i < length xs \<and> xs ! i = x"
  by (auto simp: vec_at_def)

subsection \<open>Strings\<close>

text \<open>A \<open>std::string\<close> is the list of its bytes; \<open>bytes_of\<close> is a literal of the source.\<close>

definition bytes_of :: "string \<Rightarrow> byte list" where
  "bytes_of s = map of_char s"

text \<open>\<open>std::to_string\<close> of an integer.\<close>

fun dec_nat :: "nat \<Rightarrow> byte list" where
  "dec_nat n = (if n < 10 then [48 + of_nat n] else dec_nat (n div 10) @ [48 + of_nat (n mod 10)])"

declare dec_nat.simps [simp del]

definition to_string_int :: "int \<Rightarrow> byte list" where
  "to_string_int i = (if i < 0 then bytes_of ''-'' @ dec_nat (nat (- i)) else dec_nat (nat i))"

text \<open>The conversions \<open>%.2d\<close> and \<open>%4d\<close> of \<open>printf\<close> for a number that is not negative.\<close>

definition fmt_prec2 :: "nat \<Rightarrow> byte list" where
  "fmt_prec2 n = (if n < 10 then bytes_of ''0'' @ dec_nat n else dec_nat n)"

definition fmt_width4 :: "nat \<Rightarrow> byte list" where
  "fmt_width4 n = replicate (4 - length (dec_nat n)) 32 @ dec_nat n"

subsection \<open>Loads and stores\<close>

lemma length_le_bytes [simp, len_simps]: "length (le_bytes n w) = n"
  by (simp add: le_bytes_def)

lemma store_bytes_length [len_simps]: "store_bytes m a bs = Some m' \<Longrightarrow> length m' = length m"
  by (auto simp: store_bytes_def split: if_splits)

lemma store_bytes_Some_iff: "(\<exists>m'. store_bytes m a bs = Some m') \<longleftrightarrow> a + length bs \<le> length m"
  by (auto simp: store_bytes_def)

lemma store_bytes_in_range:
  assumes "a + length bs \<le> length m"
  obtains m' where "store_bytes m a bs = Some m'"
  using assms by (auto simp: store_bytes_def)

lemma load_store_same [mem_simps]:
  "store_bytes m a bs = Some m' \<Longrightarrow> n = length bs \<Longrightarrow> load_bytes m' a n = Some bs"
  by (auto simp: store_bytes_def load_bytes_def split: if_splits)

lemma store_bytes_nth:
  assumes "store_bytes m a bs = Some m'" and "i < a \<or> a + length bs \<le> i" and "i < length m"
  shows "m' ! i = m ! i"
  using assms by (auto simp: store_bytes_def nth_append split: if_splits)

lemma load_store_other [mem_simps]:
  assumes "store_bytes m a bs = Some m'" and "b + n \<le> a \<or> a + length bs \<le> b"
  shows "load_bytes m' b n = load_bytes m b n"
proof -
  have "m' ! i = m ! i" if "b \<le> i" "i < b + n" "i < length m" for i
    using store_bytes_nth [OF assms(1)] assms(2) that by auto
  then show ?thesis
    using store_bytes_length [OF assms(1)] by (auto simp: load_bytes_def intro!: nth_equalityI)
qed

lemma load_bytes_length: "load_bytes m a n = Some bs \<Longrightarrow> length bs = n"
  by (auto simp: load_bytes_def split: if_splits)

lemma load_bytes_empty [simp]: "a \<le> length m \<Longrightarrow> load_bytes m a 0 = Some []"
  by (simp add: load_bytes_def)

lemma load_bytes_one: "i < length m \<Longrightarrow> load_bytes m i 1 = Some [m ! i]"
  by (simp add: load_bytes_def take_Suc_conv_app_nth hd_drop_conv_nth take_Suc)

subsection \<open>Little-endian words\<close>

lemma bit_le_word:
  "bit (le_word bs :: 'a::len word) i \<longleftrightarrow>
     i < LENGTH('a) \<and> i div 8 < length bs \<and> bit (bs ! (i div 8)) (i mod 8)"
proof (induction bs arbitrary: i)
  case Nil
  then show ?case by simp
next
  case (Cons b bs)
  show ?case
  proof (cases "i < 8")
    case True
    then show ?thesis by (auto simp: bit_simps)
  next
    case False
    then obtain j where j: "i = 8 + j" using le_Suc_ex not_less by blast
    have "\<not> bit b i" using False bit_imp_le_length [of b i] by auto
    then show ?thesis using Cons.IH [of j] j by (auto simp: bit_simps nth_Cons' div_add_self1)
  qed
qed

lemma le_word_le_bytes:
  assumes "LENGTH('a::len) \<le> 8 * n"
  shows "le_word (le_bytes n w) = (w :: 'a word)"
proof (rule bit_word_eqI)
  fix i assume i: "i < LENGTH('a)"
  then have "i div 8 < n" using assms by (auto simp: less_mult_imp_div_less mult.commute)
  then show "bit (le_word (le_bytes n w) :: 'a word) i = bit w i"
    using i by (auto simp: bit_le_word le_bytes_def bit_simps)
qed

lemma load_word_bytes:
  "load_bytes m a n = Some (le_bytes n w) \<Longrightarrow> LENGTH('a::len) \<le> 8 * n \<Longrightarrow>
   load_word m a n = Some (w :: 'a word)"
  by (simp add: load_word_def le_word_le_bytes)

lemma load_store_word:
  "store_word m a n w = Some m' \<Longrightarrow> LENGTH('a::len) \<le> 8 * n \<Longrightarrow>
   load_word m' a n = Some (w :: 'a word)"
  by (auto simp: store_word_def intro!: load_word_bytes load_store_same)

subsection \<open>Word arithmetic without wrap-around\<close>

lemma unat_plus_less:
  fixes a b :: "'a::len word"
  shows "unat a + unat b < 2 ^ LENGTH('a) \<Longrightarrow> unat (a + b) = unat a + unat b"
  by (simp add: unat_word_ariths)

lemma unat_mult_less:
  fixes a b :: "'a::len word"
  shows "unat a * unat b < 2 ^ LENGTH('a) \<Longrightarrow> unat (a * b) = unat a * unat b"
  by (simp add: unat_word_ariths)

lemma unat_of_nat_less:
  "n < 2 ^ LENGTH('a) \<Longrightarrow> unat (of_nat n :: 'a::len word) = n"
  by (simp add: unat_of_nat take_bit_nat_eq_self)

end
