(* ===== verification/Slice_Refs.thy ===== *)
theory Slice_Refs
  imports HSE_Prelude
begin

text \<open>
  The reference counts of \<open>base::RefCountedSlice\<close> (\<open>fe_slice.h\<close>, \<open>fe_slice.cc\<close>) over an explicit
  heap: the buffers that are allocated and the counters. A program is a sequence of the class's
  constructors, assignments and destructors on named slices.
\<close>

subsection \<open>The heap and the operations\<close>

record RcSlice =
  rc_data :: "nat option"
  rc_size :: u32
  rc_cnt :: "nat option"

record RcHeap =
  rc_bufs :: "nat set"
  rc_cnts :: "nat \<Rightarrow> int option"

text \<open>\<open>Release\<close>: a counter or buffer that is no longer allocated has no defined access.\<close>

definition Release :: "RcSlice \<Rightarrow> RcHeap \<Rightarrow> RcHeap option" where
  "Release s h =
     (case rc_cnt s of None \<Rightarrow> Some h
      | Some c \<Rightarrow> do {
          cnt \<leftarrow> rc_cnts h c;
          if cnt - 1 = 0 then
            (case rc_data s of None \<Rightarrow> Some (h\<lparr>rc_cnts := (rc_cnts h)(c := None)\<rparr>)
             | Some a \<Rightarrow>
                 if a \<in> rc_bufs h
                 then Some (h\<lparr>rc_bufs := rc_bufs h - {a}, rc_cnts := (rc_cnts h)(c := None)\<rparr>)
                 else None)
          else Some (h\<lparr>rc_cnts := (rc_cnts h)(c := Some (cnt - 1))\<rparr>)
        })"

text \<open>\<open>Update\<close>: the slice becomes a copy of its argument; the \<open>int32_t\<close> counter must not overflow.\<close>

definition Update :: "RcSlice \<Rightarrow> RcHeap \<Rightarrow> (RcSlice \<times> RcHeap) option" where
  "Update s h =
     (case rc_cnt s of None \<Rightarrow> Some (s, h)
      | Some c \<Rightarrow> do {
          cnt \<leftarrow> rc_cnts h c;
          if cnt \<ge> 2 ^ 31 - 1 then None
          else Some (s, h\<lparr>rc_cnts := (rc_cnts h)(c := Some (cnt + 1))\<rparr>)
        })"

text \<open>\<open>CreateManaged\<close> with \<open>c\<close> the address \<open>new int(1)\<close> returns, and \<open>Create\<close>.\<close>

definition CreateManaged :: "nat option \<Rightarrow> u32 \<Rightarrow> nat \<Rightarrow> RcHeap \<Rightarrow> RcSlice \<times> RcHeap" where
  "CreateManaged buf sz c h =
     (\<lparr>rc_data = buf, rc_size = sz, rc_cnt = Some c\<rparr>, h\<lparr>rc_cnts := (rc_cnts h)(c := Some 1)\<rparr>)"

definition Create :: "nat option \<Rightarrow> u32 \<Rightarrow> RcSlice" where
  "Create buf sz = \<lparr>rc_data = buf, rc_size = sz, rc_cnt = None\<rparr>"

subsection \<open>Programs over named slices\<close>

record RcState =
  rc_heap :: RcHeap
  rc_vars :: "nat \<Rightarrow> RcSlice option"

datatype rc_op =
  New_managed nat "nat option" u32 nat
| New_plain nat "nat option" u32
| Copy_construct nat nat
| Assign nat nat
| Destroy nat

definition rc_step :: "rc_op \<Rightarrow> RcState \<Rightarrow> RcState option" where
  "rc_step op st =
     (case op of
        New_managed v buf sz c \<Rightarrow>
          (case CreateManaged buf sz c (rc_heap st) of
             (s, h) \<Rightarrow> Some \<lparr>rc_heap = h, rc_vars = (rc_vars st)(v := Some s)\<rparr>)
      | New_plain v buf sz \<Rightarrow> Some (st\<lparr>rc_vars := (rc_vars st)(v := Some (Create buf sz))\<rparr>)
      | Copy_construct v w \<Rightarrow> do {
          slice \<leftarrow> rc_vars st w;
          (s, h) \<leftarrow> Update slice (rc_heap st);
          Some \<lparr>rc_heap = h, rc_vars = (rc_vars st)(v := Some s)\<rparr>
        }
      | Assign v w \<Rightarrow>
          if v = w then Some st
          else do {
            this \<leftarrow> rc_vars st v;
            slice \<leftarrow> rc_vars st w;
            h1 \<leftarrow> Release this (rc_heap st);
            (s, h2) \<leftarrow> Update slice h1;
            Some \<lparr>rc_heap = h2, rc_vars = (rc_vars st)(v := Some s)\<rparr>
          }
      | Destroy v \<Rightarrow> do {
          this \<leftarrow> rc_vars st v;
          h \<leftarrow> Release this (rc_heap st);
          Some \<lparr>rc_heap = h, rc_vars = (rc_vars st)(v := None)\<rparr>
        })"

text \<open>The handles of a counter, and the use of the class by its clients: a managed slice takes over an
  allocated buffer that no other managed slice owns, new slices get new names, and only live slices
  are copied, assigned and destroyed.\<close>

definition handles :: "RcState \<Rightarrow> nat \<Rightarrow> nat set" where
  "handles st c = {v. \<exists>s. rc_vars st v = Some s \<and> rc_cnt s = Some c}"

definition owned :: "RcState \<Rightarrow> nat \<Rightarrow> bool" where
  "owned st a \<longleftrightarrow> (\<exists>v s c. rc_vars st v = Some s \<and> rc_cnt s = Some c \<and> rc_data s = Some a)"

fun rc_legal :: "rc_op \<Rightarrow> RcState \<Rightarrow> bool" where
  "rc_legal (New_managed v buf sz c) st =
     (rc_vars st v = None \<and> rc_cnts (rc_heap st) c = None \<and>
      (case buf of None \<Rightarrow> True | Some a \<Rightarrow> a \<in> rc_bufs (rc_heap st) \<and> \<not> owned st a))"
| "rc_legal (New_plain v buf sz) st = (rc_vars st v = None)"
| "rc_legal (Copy_construct v w) st = (rc_vars st v = None \<and> rc_vars st w \<noteq> None)"
| "rc_legal (Assign v w) st = (rc_vars st v \<noteq> None \<and> rc_vars st w \<noteq> None)"
| "rc_legal (Destroy v) st = (rc_vars st v \<noteq> None)"

text \<open>A slice that owns: its counter and its buffer.\<close>

definition owns :: "RcState \<Rightarrow> nat \<Rightarrow> nat \<Rightarrow> nat option \<Rightarrow> bool" where
  "owns st v c d \<longleftrightarrow> (\<exists>s. rc_vars st v = Some s \<and> rc_cnt s = Some c \<and> rc_data s = d)"

definition rc_inv :: "RcState \<Rightarrow> bool" where
  "rc_inv st \<longleftrightarrow>
     finite (dom (rc_vars st)) \<and>
     (\<forall>c. rc_cnts (rc_heap st) c =
        (if handles st c = {} then None else Some (int (card (handles st c))))) \<and>
     (\<forall>v c a. owns st v c (Some a) \<longrightarrow> a \<in> rc_bufs (rc_heap st)) \<and>
     (\<forall>v v' c d d'. owns st v c d \<longrightarrow> owns st v' c d' \<longrightarrow> d = d') \<and>
     (\<forall>v v' c c' a. owns st v c (Some a) \<longrightarrow> owns st v' c' (Some a) \<longrightarrow> c = c')"

subsection \<open>The invariant\<close>

lemma handles_finite: "rc_inv st \<Longrightarrow> finite (handles st c)"
  by (rule finite_subset [of _ "dom (rc_vars st)"]) (auto simp: handles_def rc_inv_def)

lemma handles_upd:
  "handles \<lparr>rc_heap = h, rc_vars = (rc_vars st)(v := x)\<rparr> c =
     (case x of None \<Rightarrow> handles st c - {v}
      | Some s \<Rightarrow> if rc_cnt s = Some c then insert v (handles st c) else handles st c - {v})"
  by (auto simp: handles_def split: option.splits)

lemma owns_upd:
  "owns \<lparr>rc_heap = h, rc_vars = (rc_vars st)(v := x)\<rparr> u c d =
     (if u = v then (\<exists>s. x = Some s \<and> rc_cnt s = Some c \<and> rc_data s = d) else owns st u c d)"
  by (auto simp: owns_def)

lemma handles_owns: "v \<in> handles st c \<longleftrightarrow> (\<exists>d. owns st v c d)"
  by (auto simp: handles_def owns_def)

lemma card_insert_int: "finite A \<Longrightarrow> v \<notin> A \<Longrightarrow> int (card (insert v A)) = int (card A) + 1"
  by simp

text \<open>Releasing a live slice is defined and drops its name.\<close>

lemma Release_inv:
  assumes inv: "rc_inv st" and v: "rc_vars st v = Some s"
  shows "\<exists>h. Release s (rc_heap st) = Some h \<and> rc_inv \<lparr>rc_heap = h, rc_vars = (rc_vars st)(v := None)\<rparr>"
proof (cases "rc_cnt s")
  case None
  then have "v \<notin> handles st c" for c using v by (auto simp: handles_def)
  then show ?thesis using None inv
    by (auto simp: Release_def rc_inv_def handles_upd owns_upd)
next
  case (Some c)
  let ?H = "handles st c" and ?d = "rc_data s"
  have own: "owns st v c ?d" and vH: "v \<in> ?H" using v Some by (auto simp: owns_def handles_def)
  then have cnt: "rc_cnts (rc_heap st) c = Some (int (card ?H))" using inv by (auto simp: rc_inv_def)
  have fin: "finite ?H" by (rule handles_finite [OF inv])
  have other: "handles st c' - {v} = handles st c'" "v \<notin> handles st c'" if "c' \<noteq> c" for c'
    using that v Some by (auto simp: handles_def)
  show ?thesis
  proof (cases "?H = {v}")
    case True
    define B where "B = (case ?d of None \<Rightarrow> rc_bufs (rc_heap st) | Some a \<Rightarrow> rc_bufs (rc_heap st) - {a})"
    let ?h = "(rc_heap st)\<lparr>rc_bufs := B, rc_cnts := (rc_cnts (rc_heap st))(c := None)\<rparr>"
    have "Release s (rc_heap st) = Some ?h"
      using Some cnt True own inv by (auto simp: Release_def rc_inv_def B_def split: option.splits)
    moreover have "rc_inv \<lparr>rc_heap = ?h, rc_vars = (rc_vars st)(v := None)\<rparr>"
      unfolding rc_inv_def
    proof (intro conjI allI impI)
      fix u c' a assume o: "owns \<lparr>rc_heap = ?h, rc_vars = (rc_vars st)(v := None)\<rparr> u c' (Some a)"
      then have u: "u \<noteq> v" "owns st u c' (Some a)" by (auto simp: owns_upd split: if_splits)
      then have "c' \<noteq> c" using True by (auto simp: handles_owns [symmetric] dest: handles_owns [THEN iffD2, OF exI])
      then have "?d \<noteq> Some a" using u own inv by (auto simp: rc_inv_def)
      then show "a \<in> rc_bufs (rc_heap \<lparr>rc_heap = ?h, rc_vars = (rc_vars st)(v := None)\<rparr>)"
        using u inv by (auto simp: rc_inv_def B_def split: option.splits)
    qed (use inv True other in \<open>auto simp: rc_inv_def handles_upd owns_upd split: if_splits\<close>)
    ultimately show ?thesis by blast
  next
    case False
    let ?h = "(rc_heap st)\<lparr>rc_cnts := (rc_cnts (rc_heap st))(c := Some (int (card ?H) - 1))\<rparr>"
    have ne: "?H - {v} \<noteq> {}" using False vH by auto
    have "card ?H = Suc (card (?H - {v}))" using card.remove [OF fin vH] .
    moreover have "0 < card (?H - {v})" using fin ne by (simp add: card_gt_0_iff)
    ultimately have card: "int (card (?H - {v})) = int (card ?H) - 1" "int (card ?H) \<noteq> 1" by simp_all
    have "Release s (rc_heap st) = Some ?h"
      using Some cnt card by (simp add: Release_def)
    moreover have "rc_inv \<lparr>rc_heap = ?h, rc_vars = (rc_vars st)(v := None)\<rparr>"
      using inv ne card other by (auto simp: rc_inv_def handles_upd owns_upd split: if_splits)
    ultimately show ?thesis by blast
  qed
qed

text \<open>Copying a live slice to a new name is defined and adds a handle.\<close>

lemma Update_inv:
  assumes inv: "rc_inv st" and v: "rc_vars st v = None" and w: "rc_vars st w = Some s"
    and few: "card (dom (rc_vars st)) < 2 ^ 31 - 1"
  shows "\<exists>h. Update s (rc_heap st) = Some (s, h) \<and> rc_inv \<lparr>rc_heap = h, rc_vars = (rc_vars st)(v := Some s)\<rparr>"
proof (cases "rc_cnt s")
  case None
  have "v \<notin> handles st c" for c using v by (auto simp: handles_def)
  then show ?thesis using None inv by (auto simp: Update_def rc_inv_def handles_upd owns_upd)
next
  case (Some c)
  let ?H = "handles st c"
  have fin: "finite ?H" by (rule handles_finite [OF inv])
  have vH: "v \<notin> handles st c'" for c' using v by (auto simp: handles_def)
  have wH: "w \<in> ?H" "owns st w c (rc_data s)" using w Some by (auto simp: handles_def owns_def)
  have "card ?H \<le> card (dom (rc_vars st))"
    using inv by (intro card_mono) (auto simp: rc_inv_def handles_def)
  then have le: "int (card ?H) < 2 ^ 31 - 1" using few by simp
  have "rc_cnts (rc_heap st) c = Some (int (card ?H))" using inv wH by (auto simp: rc_inv_def)
  then have "Update s (rc_heap st) =
      Some (s, (rc_heap st)\<lparr>rc_cnts := (rc_cnts (rc_heap st))(c := Some (int (card ?H) + 1))\<rparr>)"
    using Some le by (simp add: Update_def)
  moreover have "owns st u c d \<longrightarrow> d = rc_data s" for u d using inv wH by (auto simp: rc_inv_def)
  ultimately show ?thesis
    using inv Some fin vH wH by (auto simp: rc_inv_def handles_upd owns_upd card_insert_int)
qed

lemma New_inv:
  assumes inv: "rc_inv st" and "rc_legal (New_managed v buf sz c) st"
  shows "\<exists>st'. rc_step (New_managed v buf sz c) st = Some st' \<and> rc_inv st'"
proof -
  have v: "v \<notin> handles st c'" for c' using assms(2) by (auto simp: handles_def)
  have c: "handles st c = {}" using assms by (auto simp: rc_inv_def split: if_splits)
  have o: "\<not> owns st u c' (Some a)" if "buf = Some a" for u c' a
    using assms(2) that by (auto simp: owned_def owns_def) (metis option.distinct(1))
  have o': "\<not> owns st u c d" for u d using c handles_owns [of u st c] by auto
  show ?thesis
    using assms v c o o'
    by (auto simp: rc_step_def CreateManaged_def rc_inv_def handles_upd owns_upd)
qed

lemma rc_step_inv:
  assumes inv: "rc_inv st" and legal: "rc_legal op st" and few: "card (dom (rc_vars st)) < 2 ^ 31 - 1"
  shows "\<exists>st'. rc_step op st = Some st' \<and> rc_inv st'"
proof (cases op)
  case (New_managed v buf sz c)
  then show ?thesis using New_inv inv legal by blast
next
  case (New_plain v buf sz)
  then have "v \<notin> handles st c" for c using legal by (auto simp: handles_def)
  then show ?thesis using New_plain inv legal
    using handles_upd [of "rc_heap st" st v "Some (Create buf sz)"] owns_upd [of "rc_heap st" st v "Some (Create buf sz)"]
    by (cases st) (auto simp: rc_step_def Create_def rc_inv_def)
next
  case (Copy_construct v w)
  then show ?thesis using Update_inv [OF inv _ _ few, of v w] legal by (auto simp: rc_step_def)
next
  case (Assign v w)
  show ?thesis
  proof (cases "v = w")
    case False
    obtain s s' where s: "rc_vars st v = Some s" "rc_vars st w = Some s'" using legal Assign by auto
    obtain h where h: "Release s (rc_heap st) = Some h" "rc_inv \<lparr>rc_heap = h, rc_vars = (rc_vars st)(v := None)\<rparr>"
      using Release_inv [OF inv s(1)] by blast
    have "card (dom ((rc_vars st)(v := None))) \<le> card (dom (rc_vars st))"
      using inv by (intro card_mono) (auto simp: rc_inv_def)
    then obtain h' where "Update s' h = Some (s', h')"
      "rc_inv \<lparr>rc_heap = h', rc_vars = ((rc_vars st)(v := None))(v := Some s')\<rparr>"
      using Update_inv [OF h(2), of v w s'] s(2) False few by auto
    then show ?thesis using Assign False s h by (auto simp: rc_step_def)
  qed (use Assign inv in \<open>auto simp: rc_step_def\<close>)
next
  case (Destroy v)
  then show ?thesis using Release_inv [OF inv, of v] legal by (auto simp: rc_step_def)
qed

subsection \<open>Reachable states\<close>

text \<open>A program starts with the allocated buffers \<open>B\<close>, no slice and no counter.\<close>

inductive rc_reach :: "nat set \<Rightarrow> RcState \<Rightarrow> bool" for B where
  rc_init: "rc_reach B \<lparr>rc_heap = \<lparr>rc_bufs = B, rc_cnts = (\<lambda>_. None)\<rparr>, rc_vars = (\<lambda>_. None)\<rparr>"
| rc_next: "rc_reach B st \<Longrightarrow> rc_legal op st \<Longrightarrow> card (dom (rc_vars st)) < 2 ^ 31 - 1 \<Longrightarrow>
    rc_step op st = Some st' \<Longrightarrow> rc_reach B st'"

lemma rc_reach_inv: "rc_reach B st \<Longrightarrow> rc_inv st"
proof (induction rule: rc_reach.induct)
  case rc_init
  then show ?case by (auto simp: rc_inv_def handles_def owns_def)
next
  case (rc_next st op st')
  then show ?case using rc_step_inv [of st op] by auto
qed

text \<open>C6. No use after free: in every reachable state every legal operation on slices is defined, that is
  no counter or buffer is accessed or freed after it was freed, and the counter of every live managed
  slice is the number of live slices that share it.\<close>

theorem refcount_safe:
  assumes "rc_reach B st" and "rc_legal op st" and "card (dom (rc_vars st)) < 2 ^ 31 - 1"
  shows "(\<exists>st'. rc_step op st = Some st') \<and>
    (\<forall>v s c. rc_vars st v = Some s \<longrightarrow> rc_cnt s = Some c \<longrightarrow>
       rc_cnts (rc_heap st) c = Some (int (card (handles st c))))"
proof -
  note inv = rc_reach_inv [OF assms(1)]
  have "handles st c \<noteq> {}" if "rc_vars st v = Some s" "rc_cnt s = Some c" for v s c
    using that by (auto simp: handles_def)
  then show ?thesis using rc_step_inv [OF inv assms(2,3)] inv by (auto simp: rc_inv_def)
qed

text \<open>A program with one managed buffer shared by two slices.\<close>

definition sample_rc :: RcState where
  "sample_rc = \<lparr>rc_heap = \<lparr>rc_bufs = {5}, rc_cnts = [7 \<mapsto> 2]\<rparr>,
     rc_vars = [0 \<mapsto> \<lparr>rc_data = Some 5, rc_size = 3, rc_cnt = Some 7\<rparr>,
                1 \<mapsto> \<lparr>rc_data = Some 5, rc_size = 3, rc_cnt = Some 7\<rparr>]\<rparr>"

lemma sample_rc_reach: "rc_reach {5} sample_rc" and sample_rc_dom: "card (dom (rc_vars sample_rc)) = 2"
proof -
  let ?st1 = "\<lparr>rc_heap = \<lparr>rc_bufs = {5}, rc_cnts = [7 \<mapsto> 1]\<rparr>,
     rc_vars = [0 \<mapsto> \<lparr>rc_data = Some 5, rc_size = 3, rc_cnt = Some 7\<rparr>]\<rparr>"
  have "rc_reach {5} ?st1"
    by (rule rc_next [OF rc_init, where op = "New_managed 0 (Some 5) 3 7"])
       (auto simp: owned_def rc_step_def CreateManaged_def)
  then show "rc_reach {5} sample_rc"
    by (rule rc_next [where op = "Copy_construct 1 0"])
       (auto simp: rc_step_def Update_def sample_rc_def fun_upd_twist)
  show "card (dom (rc_vars sample_rc)) = 2" by (simp add: sample_rc_def)
qed

theorem refcount_safe_witness: "\<exists>st'. rc_step (Destroy 0) sample_rc = Some st'"
  using refcount_safe [OF sample_rc_reach, of "Destroy 0"] sample_rc_dom by (simp add: sample_rc_def)

text \<open>C7. A managed buffer is freed exactly when its last slice goes away: destroying a slice frees the
  buffer it owns if and only if no other live slice owns that buffer.\<close>

theorem refcount_last_handle_frees:
  assumes "rc_reach B st" and "rc_vars st v = Some s" and "rc_cnt s = Some c" and "rc_data s = Some a"
  shows "\<exists>st'. rc_step (Destroy v) st = Some st' \<and>
    (a \<in> rc_bufs (rc_heap st') \<longleftrightarrow> (\<exists>u s'. u \<noteq> v \<and> rc_vars st u = Some s' \<and> rc_cnt s' = Some c))"
proof -
  note inv = rc_reach_inv [OF assms(1)]
  have v: "v \<in> handles st c" and "owns st v c (Some a)" using assms by (auto simp: handles_def owns_def)
  then have cnt: "rc_cnts (rc_heap st) c = Some (int (card (handles st c)))" and a: "a \<in> rc_bufs (rc_heap st)"
    using inv by (auto simp: rc_inv_def)
  have "card (handles st c) = 1 \<longleftrightarrow> handles st c = {v}"
    using v by (auto simp: card_1_singleton_iff)
  also have "\<dots> \<longleftrightarrow> \<not> (\<exists>u s'. u \<noteq> v \<and> rc_vars st u = Some s' \<and> rc_cnt s' = Some c)"
    using v by (auto simp: handles_def)
  finally have "int (card (handles st c)) - 1 = 0 \<longleftrightarrow>
      \<not> (\<exists>u s'. u \<noteq> v \<and> rc_vars st u = Some s' \<and> rc_cnt s' = Some c)" by simp
  then show ?thesis using assms cnt a by (auto simp: rc_step_def Release_def)
qed

theorem refcount_last_handle_frees_witness:
  "\<exists>st'. rc_step (Destroy 0) sample_rc = Some st' \<and> 5 \<in> rc_bufs (rc_heap st')"
proof -
  let ?s = "\<lparr>rc_data = Some 5, rc_size = 3, rc_cnt = Some 7\<rparr>"
  have "rc_vars sample_rc 0 = Some ?s" "rc_vars sample_rc 1 = Some ?s" by (simp_all add: sample_rc_def)
  moreover from this obtain st' where "rc_step (Destroy 0) sample_rc = Some st'"
    "5 \<in> rc_bufs (rc_heap st') \<longleftrightarrow> (\<exists>u s'. u \<noteq> 0 \<and> rc_vars sample_rc u = Some s' \<and> rc_cnt s' = Some 7)"
    using refcount_last_handle_frees [OF sample_rc_reach, of 0 ?s 7 5] by auto
  ultimately show ?thesis by (metis One_nat_def RcSlice.select_convs(3) nat.distinct(1))
qed

end
