(* ===== verification/Type_Codec.thy ===== *)
theory Type_Codec
  imports HSE_Prelude
begin

text \<open>
  The value types and the field-level codec of \<open>include/codec/type_codec.h\<close> and
  \<open>src/codec/type_codec.cc\<close>: strings, timestamps and dates with their comparison operators, and
  the \<open>v1\<close> functions that append a field to a row buffer or read it back. Out-parameters of the
  C++ functions are results of the model, so the null checks on them have no counterpart, except
  where a property is about such a check. \<open>spark\<close> is the flag
  \<open>FLAGS_enable_spark_unsaferow_format\<close>, read by the functions that depend on it.
\<close>

subsection \<open>Column types\<close>

datatype fe_type =
  kBool | kInt16 | kInt32 | kInt64 | kFloat | kDouble | kVarchar | kDate | kTimestamp | kBlob | kNull

record ColumnDef =
  col_name :: string
  col_type :: fe_type

type_synonym Schema = "ColumnDef list"

abbreviation (input) VERSION_LENGTH :: "'a::numeral" where "VERSION_LENGTH \<equiv> 2"
abbreviation (input) HEADER_LENGTH :: "'a::numeral" where "HEADER_LENGTH \<equiv> 6"
abbreviation (input) UINT24_MAX :: u32 where "UINT24_MAX \<equiv> 0xFFFFFF"

subsection \<open>Strings\<close>

record StringRef =
  str_size :: u32
  str_data :: "byte list option"

definition StringRef_IsNull :: "StringRef \<Rightarrow> bool" where
  "StringRef_IsNull s = (str_data s = None)"

text \<open>The C library's \<open>memcmp\<close> on its first \<open>n\<close> bytes; only the sign of its result is specified.\<close>

fun memcmp :: "byte list \<Rightarrow> byte list \<Rightarrow> nat \<Rightarrow> int" where
  "memcmp (x # xs) (y # ys) (Suc n) =
     (if x < y then -1 else if y < x then 1 else memcmp xs ys n)"
| "memcmp _ _ _ = 0"

definition str_bytes :: "StringRef \<Rightarrow> byte list" where
  "str_bytes s = (case str_data s of None \<Rightarrow> [] | Some d \<Rightarrow> take (unat (str_size s)) d)"

definition StringRef_ToString :: "StringRef \<Rightarrow> byte list" where
  "StringRef_ToString s = (if str_size s = 0 then [] else str_bytes s)"

definition StringRef_compare :: "StringRef \<Rightarrow> StringRef \<Rightarrow> int" where
  "StringRef_compare a b =
     (let min_len = (if str_size a < str_size b then str_size a else str_size b);
          r = memcmp (str_bytes a) (str_bytes b) (unat min_len)
      in if r = 0
         then if str_size a < str_size b then -1 else if str_size b < str_size a then 1 else r
         else r)"

text \<open>\<open>operator+\<close> allocates \<open>size + 1\<close> bytes, computed in 32 bits: where that wraps, the copies leave
  the allocation.\<close>

definition StringRef_plus :: "StringRef \<Rightarrow> StringRef \<Rightarrow> StringRef option" where
  "StringRef_plus a b =
     (if unat (str_size a) + unat (str_size b) \<ge> unat UINT32_MAX then None
      else Some \<lparr>str_size = str_size a + str_size b,
                 str_data = Some ((if str_size a > 0 then str_bytes a else []) @
                                  (if str_size b > 0 then str_bytes b else []) @ [0])\<rparr>)"

definition StringRef_eq :: "StringRef \<Rightarrow> StringRef \<Rightarrow> bool" where
  "StringRef_eq a b = (0 = StringRef_compare a b)"
definition StringRef_ne :: "StringRef \<Rightarrow> StringRef \<Rightarrow> bool" where
  "StringRef_ne a b = (0 \<noteq> StringRef_compare a b)"
definition StringRef_ge :: "StringRef \<Rightarrow> StringRef \<Rightarrow> bool" where
  "StringRef_ge a b = (StringRef_compare a b \<ge> 0)"
definition StringRef_gt :: "StringRef \<Rightarrow> StringRef \<Rightarrow> bool" where
  "StringRef_gt a b = (StringRef_compare a b > 0)"
definition StringRef_le :: "StringRef \<Rightarrow> StringRef \<Rightarrow> bool" where
  "StringRef_le a b = (StringRef_compare a b \<le> 0)"
definition StringRef_lt :: "StringRef \<Rightarrow> StringRef \<Rightarrow> bool" where
  "StringRef_lt a b = (StringRef_compare a b < 0)"

subsection \<open>Timestamps\<close>

record Timestamp =
  ts_val :: i64

definition Timestamp_new :: "i64 \<Rightarrow> Timestamp" where
  "Timestamp_new ts = \<lparr>ts_val = (if sint ts < 0 then 0 else ts)\<rparr>"

definition Timestamp_plus :: "Timestamp \<Rightarrow> Timestamp \<Rightarrow> Timestamp" where
  "Timestamp_plus a b = Timestamp_new (ts_val a + ts_val b)"

definition Timestamp_minus :: "Timestamp \<Rightarrow> Timestamp \<Rightarrow> Timestamp" where
  "Timestamp_minus a b = Timestamp_new (ts_val a - ts_val b)"

definition Timestamp_lt :: "Timestamp \<Rightarrow> Timestamp \<Rightarrow> bool" where
  "Timestamp_lt a b = (sint (ts_val a) < sint (ts_val b))"

definition Timestamp_le :: "Timestamp \<Rightarrow> Timestamp \<Rightarrow> bool" where
  "Timestamp_le a b = (sint (ts_val a) \<le> sint (ts_val b))"

subsection \<open>Dates\<close>

record Date =
  date_val :: i32

definition Date_of :: "i32 \<Rightarrow> Date" where
  "Date_of d = \<lparr>date_val = (if sint d < 0 then 0 else d)\<rparr>"

text \<open>The packed date: year since 1900 in the upper half, then the month less one, then the day.\<close>

definition date_data :: "i32 \<Rightarrow> i32 \<Rightarrow> i32 \<Rightarrow> i32" where
  "date_data year month day = (push_bit 16 (year - 1900) OR push_bit 8 (month - 1)) OR day"

definition Date_ymd :: "i32 \<Rightarrow> i32 \<Rightarrow> i32 \<Rightarrow> Date" where
  "Date_ymd year month day =
     (if sint year < 1900 \<or> sint year > 9999 then \<lparr>date_val = 0\<rparr>
      else if sint month < 1 \<or> sint month > 12 then \<lparr>date_val = 0\<rparr>
      else if sint day < 1 \<or> sint day > 31 then \<lparr>date_val = 0\<rparr>
      else \<lparr>date_val = date_data year month day\<rparr>)"

text \<open>\<open>Date::Decode\<close>: year, month and day, or \<open>None\<close> where it returns false and writes nothing.\<close>

definition Date_Decode :: "i32 \<Rightarrow> (i32 \<times> i32 \<times> i32) option" where
  "Date_Decode date =
     (if sint date < 0 then None
      else let day = date AND 0xFF;
               date' = signed_drop_bit 8 date
           in Some (1900 + signed_drop_bit 8 date', 1 + (date' AND 0xFF), day))"

definition Date_lt :: "Date \<Rightarrow> Date \<Rightarrow> bool" where
  "Date_lt a b = (sint (date_val a) < sint (date_val b))"

definition Date_eq :: "Date \<Rightarrow> Date \<Rightarrow> bool" where
  "Date_eq a b = (date_val a = date_val b)"

subsection \<open>Appending fields\<close>

definition GetAddrLength :: "u32 \<Rightarrow> u8" where
  "GetAddrLength sz =
     (if sz \<le> UINT8_MAX then 1 else if sz \<le> UINT16_MAX then 2
      else if sz \<le> UINT24_MAX then 3 else 4)"

definition GetAddrSpace :: "u32 \<Rightarrow> u8" where
  "GetAddrSpace sz =
     (if sz \<le> UINT8_MAX then 1 else if sz \<le> UINT16_MAX then 2
      else if sz \<le> 0x1000000 then 3 else 4)"

definition CalcTotalLength :: "bool \<Rightarrow> u32 \<Rightarrow> u32 \<Rightarrow> u32 \<Rightarrow> u32 \<times> u32" where
  \<comment> \<open>the total length and \<open>*str_addr_space\<close>\<close>
  "CalcTotalLength spark primary_size str_field_cnt str_len =
     (let total_size = primary_size + str_len in
      if spark then (total_size + str_field_cnt * 8, 8)
      else if total_size + str_field_cnt \<le> UINT8_MAX then (total_size + str_field_cnt, 1)
      else if total_size + str_field_cnt * 2 \<le> UINT16_MAX then (total_size + str_field_cnt * 2, 2)
      else if total_size + str_field_cnt * 3 \<le> 0x1000000 then (total_size + str_field_cnt * 3, 3)
      else (total_size + str_field_cnt * 4, 4))"

definition AppendNullBit :: "buffer \<Rightarrow> u32 \<Rightarrow> bool \<Rightarrow> buffer option" where
  "AppendNullBit buf col_idx is_null =
     (let a = HEADER_LENGTH + unat (drop_bit 3 col_idx);
          mask = push_bit (unat (col_idx AND 7)) (1 :: u8)
      in do {
        b \<leftarrow> (load_word buf a 1 :: u8 option);
        store_word buf a 1 (if is_null then b OR mask else b AND NOT mask)
      })"

text \<open>
  The fixed-width appends return the number the C++ function returns and the buffer after the
  call; the offset check is 32-bit arithmetic.
\<close>

definition append_fixed_at :: "buffer \<Rightarrow> u32 \<Rightarrow> byte list \<Rightarrow> u32 \<Rightarrow> int \<Rightarrow> (int \<times> buffer) option" where
  "append_fixed_at buf buf_size bs field_offset ret =
     (if field_offset + of_nat (length bs) > buf_size then Some (-1, buf)
      else do { buf' \<leftarrow> store_bytes buf (unat field_offset) bs; Some (ret, buf') })"

definition AppendInt16 :: "buffer \<Rightarrow> u32 \<Rightarrow> i16 \<Rightarrow> u32 \<Rightarrow> (int \<times> buffer) option" where
  "AppendInt16 buf buf_size val field_offset = append_fixed_at buf buf_size (le_bytes 2 val) field_offset 4"

definition AppendFloat :: "buffer \<Rightarrow> u32 \<Rightarrow> u32 \<Rightarrow> u32 \<Rightarrow> (int \<times> buffer) option" where
  "AppendFloat buf buf_size val field_offset = append_fixed_at buf buf_size (le_bytes 4 val) field_offset 4"

definition AppendInt32 :: "buffer \<Rightarrow> u32 \<Rightarrow> i32 \<Rightarrow> u32 \<Rightarrow> (int \<times> buffer) option" where
  "AppendInt32 buf buf_size val field_offset = append_fixed_at buf buf_size (le_bytes 4 val) field_offset 4"

definition AppendInt64 :: "buffer \<Rightarrow> u32 \<Rightarrow> i64 \<Rightarrow> u32 \<Rightarrow> (int \<times> buffer) option" where
  "AppendInt64 buf buf_size val field_offset = append_fixed_at buf buf_size (le_bytes 8 val) field_offset 8"

definition AppendDouble :: "buffer \<Rightarrow> u32 \<Rightarrow> u64 \<Rightarrow> u32 \<Rightarrow> (int \<times> buffer) option" where
  "AppendDouble buf buf_size val field_offset = append_fixed_at buf buf_size (le_bytes 8 val) field_offset 8"

text \<open>
  The bytes of a string address: one, two and four byte addresses are native words, a three byte
  address is stored most significant byte first.
\<close>

definition addr_bytes :: "u32 \<Rightarrow> u32 \<Rightarrow> byte list" where
  "addr_bytes addr_length str_offset =
     (if addr_length = 1 then le_bytes 1 (ucast str_offset :: u8)
      else if addr_length = 2 then le_bytes 2 (ucast str_offset :: u16)
      else if addr_length = 3
      then [ucast (drop_bit 16 str_offset), ucast (drop_bit 8 (str_offset AND 0xFF00)),
            ucast (str_offset AND 0x00FF)]
      else le_bytes 4 str_offset)"

definition FillNullStringOffset :: "buffer \<Rightarrow> u32 \<Rightarrow> u32 \<Rightarrow> u32 \<Rightarrow> u32 \<Rightarrow> buffer option" where
  "FillNullStringOffset buf start addr_length str_idx str_offset =
     store_bytes buf (unat start + unat (addr_length * str_idx)) (addr_bytes addr_length str_offset)"

definition v1_AppendString ::
  "bool \<Rightarrow> buffer \<Rightarrow> u32 \<Rightarrow> u32 \<Rightarrow> byte list \<Rightarrow> u32 \<Rightarrow> bool \<Rightarrow> u32 \<Rightarrow> u32 \<Rightarrow> u32 \<Rightarrow> u32
   \<Rightarrow> (i32 \<times> buffer) option" where
  "v1_AppendString spark buf buf_size col_idx val sz is_null
       str_start_offset str_field_offset str_addr_space str_body_offset =
     (if spark then
        let str_col_offset = HEADER_LENGTH + str_start_offset + col_idx * 8 in do {
          buf1 \<leftarrow> store_word buf (unat str_col_offset) 4 sz;
          buf2 \<leftarrow> store_word buf1 (unat str_col_offset + 4) 4 (str_body_offset - HEADER_LENGTH);
          bs \<leftarrow> load_bytes val 0 (unat sz);
          buf3 \<leftarrow> (if sz \<noteq> 0 then store_bytes buf2 (unat str_body_offset) bs else Some buf2);
          Some (str_body_offset + sz, buf3)
        }
      else if is_null then do {
          buf1 \<leftarrow> AppendNullBit buf col_idx True;
          buf2 \<leftarrow> FillNullStringOffset buf1 str_start_offset (ucast (GetAddrLength buf_size))
                    str_field_offset str_body_offset;
          Some (str_body_offset, buf2)
        }
      else
        let str_offset = str_start_offset + str_field_offset * str_addr_space in
        if str_offset + sz > buf_size then Some (-1, buf)
        else do {
          buf1 \<leftarrow> store_bytes buf (unat str_offset) (addr_bytes str_addr_space str_body_offset);
          bs \<leftarrow> load_bytes val 0 (unat sz);
          buf2 \<leftarrow> (if sz \<noteq> 0 then store_bytes buf1 (unat str_body_offset) bs else Some buf1);
          Some (str_body_offset + sz, buf2)
        })"

subsection \<open>Reading fields\<close>

definition IsNullAt :: "buffer option \<Rightarrow> u32 \<Rightarrow> bool option" where
  "IsNullAt row idx =
     (case row of None \<Rightarrow> Some True
      | Some m \<Rightarrow> do {
          b \<leftarrow> (load_word m (HEADER_LENGTH + unat (drop_bit 3 idx)) 1 :: u8 option);
          Some (b AND push_bit (unat (idx AND 7)) 1 \<noteq> 0)
        })"

definition GetBoolFieldUnsafe :: "buffer \<Rightarrow> u32 \<Rightarrow> u8 option" where
  "GetBoolFieldUnsafe row offset = load_word row (unat offset) 1"
definition GetInt16FieldUnsafe :: "buffer \<Rightarrow> u32 \<Rightarrow> i16 option" where
  "GetInt16FieldUnsafe row offset = load_word row (unat offset) 2"
definition GetInt32FieldUnsafe :: "buffer \<Rightarrow> u32 \<Rightarrow> i32 option" where
  "GetInt32FieldUnsafe row offset = load_word row (unat offset) 4"
definition GetInt64FieldUnsafe :: "buffer \<Rightarrow> u32 \<Rightarrow> i64 option" where
  "GetInt64FieldUnsafe row offset = load_word row (unat offset) 8"
definition GetFloatFieldUnsafe :: "buffer \<Rightarrow> u32 \<Rightarrow> u32 option" where
  "GetFloatFieldUnsafe row offset = load_word row (unat offset) 4"
definition GetDoubleFieldUnsafe :: "buffer \<Rightarrow> u32 \<Rightarrow> u64 option" where
  "GetDoubleFieldUnsafe row offset = load_word row (unat offset) 8"
definition GetTimestampFieldUnsafe :: "buffer \<Rightarrow> u32 \<Rightarrow> Timestamp option" where
  "GetTimestampFieldUnsafe row offset =
     map_option Timestamp_new (load_word row (unat offset) 8)"

text \<open>The null-aware readers: the value and \<open>*is_null\<close>.\<close>

definition get_field :: "(buffer \<Rightarrow> 'v option) \<Rightarrow> 'v \<Rightarrow> buffer option \<Rightarrow> u32 \<Rightarrow> ('v \<times> bool) option" where
  "get_field rd dflt row idx =
     (case row of None \<Rightarrow> Some (dflt, True)
      | Some m \<Rightarrow> do {
          null \<leftarrow> IsNullAt row idx;
          if null then Some (dflt, True) else do { v \<leftarrow> rd m; Some (v, False) }
        })"

definition GetBoolField :: "buffer option \<Rightarrow> u32 \<Rightarrow> u32 \<Rightarrow> (u8 \<times> bool) option" where
  "GetBoolField row idx offset = get_field (\<lambda>m. GetBoolFieldUnsafe m offset) 0 row idx"
definition GetInt16Field :: "buffer option \<Rightarrow> u32 \<Rightarrow> u32 \<Rightarrow> (i16 \<times> bool) option" where
  "GetInt16Field row idx offset = get_field (\<lambda>m. GetInt16FieldUnsafe m offset) 0 row idx"
definition GetInt32Field :: "buffer option \<Rightarrow> u32 \<Rightarrow> u32 \<Rightarrow> (i32 \<times> bool) option" where
  "GetInt32Field row idx offset = get_field (\<lambda>m. GetInt32FieldUnsafe m offset) 0 row idx"
definition GetInt64Field :: "buffer option \<Rightarrow> u32 \<Rightarrow> u32 \<Rightarrow> (i64 \<times> bool) option" where
  "GetInt64Field row idx offset = get_field (\<lambda>m. GetInt64FieldUnsafe m offset) 0 row idx"
definition GetFloatField :: "buffer option \<Rightarrow> u32 \<Rightarrow> u32 \<Rightarrow> (u32 \<times> bool) option" where
  "GetFloatField row idx offset = get_field (\<lambda>m. GetFloatFieldUnsafe m offset) 0 row idx"
definition GetTimestampField :: "buffer option \<Rightarrow> u32 \<Rightarrow> u32 \<Rightarrow> (Timestamp \<times> bool) option" where
  "GetTimestampField row idx offset =
     get_field (\<lambda>m. GetTimestampFieldUnsafe m offset) \<lparr>ts_val = 0\<rparr> row idx"
definition GetDoubleField :: "buffer option \<Rightarrow> u32 \<Rightarrow> u32 \<Rightarrow> (u64 \<times> bool) option" where
  "GetDoubleField row idx offset = get_field (\<lambda>m. GetDoubleFieldUnsafe m offset) 0 row idx"

text \<open>One string address of a row, read the way the \<open>switch\<close> of \<open>GetStrFieldUnsafe\<close> reads it.\<close>

definition load_str_offset :: "buffer \<Rightarrow> u32 \<Rightarrow> u32 \<Rightarrow> u32 \<Rightarrow> u32 option" where
  "load_str_offset row str_start_offset addr_space field_offset =
     (let base = unat str_start_offset; a = base + unat (field_offset * addr_space) in
      if addr_space = 1
      then map_option ucast (load_word row (base + unat field_offset) 1 :: u8 option)
      else if addr_space = 2 then map_option ucast (load_word row a 2 :: u16 option)
      else if addr_space = 3 then do {
        b0 \<leftarrow> (load_word row a 1 :: u8 option);
        b1 \<leftarrow> (load_word row (a + 1) 1 :: u8 option);
        b2 \<leftarrow> (load_word row (a + 2) 1 :: u8 option);
        Some (push_bit 8 (push_bit 8 (ucast b0) + ucast b1) + ucast b2)
      }
      else load_word row a 4)"

text \<open>
  \<open>GetStrFieldUnsafe\<close> returns its code and, where it writes them, \<open>*data\<close> as an offset into the
  row and \<open>*size\<close>.
\<close>

definition GetStrFieldUnsafe ::
  "bool \<Rightarrow> buffer option \<Rightarrow> u32 \<Rightarrow> u32 \<Rightarrow> u32 \<Rightarrow> u32 \<Rightarrow> u32 \<Rightarrow> (int \<times> (nat \<times> u32) option) option" where
  "GetStrFieldUnsafe spark row col_idx field_offset next_str_field_offset str_start_offset addr_space =
     (case row of None \<Rightarrow> Some (-1, None)
      | Some m \<Rightarrow>
        if spark then
          let a = HEADER_LENGTH + unat str_start_offset + unat (col_idx * 8) in do {
            sz \<leftarrow> load_word m a 4;
            off \<leftarrow> load_word m (a + 4) 4;
            Some (0, Some (unat (off + HEADER_LENGTH :: u32), sz))
          }
        else if addr_space \<notin> {1, 2, 3, 4} then Some (-2, None)
        else do {
          str_offset \<leftarrow> load_str_offset m str_start_offset addr_space field_offset;
          if next_str_field_offset = 0 then do {
            total_length \<leftarrow> load_word m VERSION_LENGTH 4;
            Some (if total_length < str_offset then (-3, Some (unat str_offset, 0))
                  else (0, Some (unat str_offset, total_length - str_offset)))
          }
          else do {
            next_str_offset \<leftarrow> load_str_offset m str_start_offset addr_space next_str_field_offset;
            Some (if next_str_offset < str_offset then (-3, Some (unat str_offset, 0))
                  else (0, Some (unat str_offset, next_str_offset - str_offset)))
          }
        })"

text \<open>\<open>GetStrField\<close>: a null field reads as the empty string (\<open>Inl\<close>), any other as the unsafe reader.\<close>

definition GetStrField ::
  "bool \<Rightarrow> buffer option \<Rightarrow> u32 \<Rightarrow> u32 \<Rightarrow> u32 \<Rightarrow> u32 \<Rightarrow> u32
   \<Rightarrow> (unit + int \<times> (nat \<times> u32) option) option" where
  "GetStrField spark row idx str_field_offset next_str_field_offset str_start_offset addr_space =
     do {
       null \<leftarrow> IsNullAt row idx;
       if row = None \<or> null then Some (Inl ())
       else map_option Inr (GetStrFieldUnsafe spark row idx str_field_offset next_str_field_offset
                              str_start_offset addr_space)
     }"

end
