(* ===== verification/Type_Facts.thy ===== *)
theory Type_Facts
  imports Type_Codec "HOL-Library.List_Lexorder"
begin

text \<open>
  Facts of the value types of \<open>type_codec.h\<close>: the packed \<open>Date\<close> and the order of \<open>StringRef\<close>.
  The locale \<open>byte_compare\<close> is the contract of the byte-wise comparisons of the engine.
\<close>

subsection \<open>Signed and unsigned readings of 32 bits\<close>

lemma sint_small: "unat (w :: u32) < 2 ^ 31 \<Longrightarrow> sint w = int (unat w)"
proof -
  assume "unat w < 2 ^ 31"
  then have "uint w < 2 ^ 31" by (metis of_nat_less_iff of_nat_numeral of_nat_power uint_nat)
  then have "signed_take_bit (LENGTH(32) - Suc 0) (uint w) = uint w"
    by (intro signed_take_bit_int_eq_self order_trans [OF _ uint_nonnegative]) simp_all
  then have "sint w = uint w" by (simp only: sint_uint)
  then show ?thesis by simp
qed

lemma sint_nonneg:
  assumes "0 \<le> sint (w :: u32)"
  shows "unat w = nat (sint w)" and "unat w < 2 ^ 31"
proof -
  have "sint w < 2 ^ 31" using sint_less [of w] by simp
  then have "take_bit LENGTH(32) (sint w) = sint w"
    using assms by (intro take_bit_int_eq_self) simp_all
  then have "uint w = sint w" by (simp only: uint_sint)
  then show "unat w = nat (sint w)" by (simp only: unat_eq_nat_uint)
  with \<open>sint w < 2 ^ 31\<close> show "unat w < 2 ^ 31" by simp
qed

lemma unat_and_255: "unat ((w :: u32) AND 255) = unat w mod 256"
proof -
  have "w AND 255 = take_bit 8 w" unfolding take_bit_eq_mask by (simp add: mask_eq_exp_minus_1)
  then have "unat (w AND 255) = take_bit 8 (unat w)" by (simp only: unsigned_take_bit_eq)
  then show ?thesis by (simp add: take_bit_eq_mod)
qed

lemma signed_drop_bit_nonneg:
  assumes "unat (w :: u32) < 2 ^ 31"
  shows "unat (signed_drop_bit n w) = unat w div 2 ^ n"
proof -
  have "int (unat w div 2 ^ n) = drop_bit n (sint w)"
    unfolding sint_small [OF assms] by (simp only: drop_bit_int_def zdiv_int) simp
  also have "\<dots> = sint (signed_drop_bit n w)" by (simp add: sint_signed_drop_bit_eq)
  finally have s: "sint (signed_drop_bit n w) = int (unat w div 2 ^ n)" ..
  then show ?thesis using sint_nonneg(1) [of "signed_drop_bit n w"] by simp
qed

subsection \<open>Packed dates\<close>

lemma take_bit_small: "unat (b :: u32) < 2 ^ k \<Longrightarrow> take_bit k b = b"
  by (simp only: word_unat_eq_iff unsigned_take_bit_eq take_bit_nat_eq_self)

lemma or_push_bit:
  assumes "unat (b :: u32) < 2 ^ k"
  shows "push_bit k a OR b = push_bit k a + b"
proof -
  have "push_bit k a AND take_bit k b = 0"
    by (rule bit_eqI) (auto simp: bit_simps)
  then have "push_bit k a AND b = 0" by (simp only: take_bit_small [OF assms])
  then show ?thesis by (rule disjunctive_add_eq_or [symmetric])
qed

lemma unat_push_bit_small:
  assumes "unat (w :: u32) * 2 ^ k < 2 ^ 32"
  shows "unat (push_bit k w) = unat w * 2 ^ k"
  unfolding unsigned_push_bit_eq using assms by (simp add: push_bit_eq_mult take_bit_nat_eq_self)

lemma unat_or_push_bit:
  assumes "unat (b :: u32) < 2 ^ k" and "unat a * 2 ^ k + unat b < 2 ^ 32"
  shows "unat (push_bit k a OR b) = unat a * 2 ^ k + unat b"
  unfolding or_push_bit [OF assms(1)]
  using assms(2) unat_push_bit_small [of a k] unat_plus_less [of "push_bit k a" b] by simp

text \<open>A valid date as its three numbers.\<close>

definition date_ok :: "i32 \<Rightarrow> i32 \<Rightarrow> i32 \<Rightarrow> bool" where
  "date_ok y m d \<longleftrightarrow> 1900 \<le> sint y \<and> sint y \<le> 9999 \<and> 1 \<le> sint m \<and> sint m \<le> 12
     \<and> 1 \<le> sint d \<and> sint d \<le> 31"

lemma date_data_number:
  assumes "date_ok y m d"
  shows "unat (date_data y m d) = (unat y - 1900) * 65536 + (unat m - 1) * 256 + unat d"
    and "1900 \<le> unat y" "unat y \<le> 9999" "1 \<le> unat m" "unat m \<le> 12" "1 \<le> unat d" "unat d \<le> 31"
proof -
  show b: "1900 \<le> unat y" "unat y \<le> 9999" "1 \<le> unat m" "unat m \<le> 12" "1 \<le> unat d" "unat d \<le> 31"
    using assms by (auto simp: date_ok_def sint_nonneg(1))
  have u: "unat (y - 1900) = unat y - 1900" "unat (m - 1) = unat m - 1"
    using b by (simp_all add: unat_sub word_le_nat_alt)
  have md: "unat (push_bit 8 (m - 1) OR d :: u32) = (unat m - 1) * 256 + unat d"
    using b u unat_or_push_bit [of d 8 "m - 1"] by simp
  have "(unat m - 1) * 256 + unat d < 65536" "(unat y - 1900) * 65536 \<le> 8099 * 65536" using b by auto
  then show "unat (date_data y m d) = (unat y - 1900) * 65536 + (unat m - 1) * 256 + unat d"
    using u md unat_or_push_bit [of "push_bit 8 (m - 1) OR d" 16 "y - 1900"]
    unfolding date_data_def or.assoc by simp
qed

lemma pack_byte: "(d :: nat) < 256 \<Longrightarrow> (n * 256 + d) mod 256 = d \<and> (n * 256 + d) div 256 = n"
  by (simp add: div_mult_self3)

text \<open>Reading a packed date gives the date it was packed from.\<close>

lemma Date_Decode_date_data:
  assumes "date_ok y m d"
  shows "Date_Decode (date_data y m d) = Some (y, m, d)"
proof -
  let ?x = "date_data y m d"
  note b = date_data_number [OF assms]
  define Y M D where "Y = unat y - 1900" and "M = unat m - 1" and "D = unat d"
  have r: "unat y = 1900 + Y" "unat m = 1 + M" "unat d = D" "Y \<le> 8099" "M < 256" "D < 256"
    using b(2-) by (auto simp: Y_def M_def D_def)
  have "unat ?x = (Y * 256 + M) * 256 + D" using b(1) by (simp add: Y_def M_def D_def)
  then have lt: "unat ?x < 2 ^ 31" and D: "unat ?x mod 256 = D" and q: "unat ?x div 256 = Y * 256 + M"
    using r pack_byte [of D "Y * 256 + M"] by simp_all
  have div: "unat (signed_drop_bit 8 ?x) = Y * 256 + M"
    using q by (simp add: signed_drop_bit_nonneg [OF lt])
  then have M: "unat (signed_drop_bit 8 ?x) mod 256 = M" and Y: "unat (signed_drop_bit 8 ?x) div 256 = Y"
    using r pack_byte [of M Y] by simp_all
  have "\<not> sint ?x < 0" using sint_small [OF lt] by simp
  moreover have "?x AND 255 = d"
    using r D by (simp add: word_unat_eq_iff unat_and_255)
  moreover have "1 + (signed_drop_bit 8 ?x AND 255) = m"
    using r M by (simp add: word_unat_eq_iff unat_and_255 unat_plus_less)
  moreover have "unat (signed_drop_bit 8 (signed_drop_bit 8 ?x)) = Y"
    using r div Y by (subst signed_drop_bit_nonneg) simp_all
  then have "1900 + signed_drop_bit 8 (signed_drop_bit 8 ?x) = y"
    using r by (simp add: word_unat_eq_iff unat_plus_less)
  ultimately show ?thesis by (simp add: Date_Decode_def Let_def)
qed

lemma pack_order:
  fixes a b c d M :: nat
  assumes "b < M" and "d < M"
  shows "a * M + b < c * M + d \<longleftrightarrow> a < c \<or> a = c \<and> b < d"
proof (cases a c rule: linorder_cases)
  case less
  then have "Suc a * M \<le> c * M" by (intro mult_le_mono1) simp
  then show ?thesis using less assms by simp
next
  case greater
  then have "Suc c * M \<le> a * M" by (intro mult_le_mono1) simp
  then show ?thesis using greater assms by simp
qed simp

lemma pack_eq: "b < M \<Longrightarrow> d < M \<Longrightarrow> a * M + b = c * M + d \<longleftrightarrow> a = c \<and> b = d" for a b c d M :: nat
  using pack_order [of b M d a c] pack_order [of d M b c a] by (metis nat_neq_iff)

lemma date_data_order:
  assumes "date_ok y m d" and "date_ok y' m' d'"
  shows "sint (date_data y m d) < sint (date_data y' m' d') \<longleftrightarrow>
    sint y < sint y' \<or> sint y = sint y' \<and> (sint m < sint m' \<or> sint m = sint m' \<and> sint d < sint d')"
proof -
  have n: "unat (date_data y m d) = ((unat y - 1900) * 256 + (unat m - 1)) * 256 + unat d \<and>
      unat (date_data y m d) < 2 ^ 31" if "date_ok y m d" for y m d
  proof -
    note b = date_data_number [OF that]
    have "(unat y - 1900) * 65536 \<le> 8099 * 65536" using b by auto
    then show ?thesis using b(1,5,7) by (simp add: add_mult_distrib)
  qed
  have s: "sint y = int (unat y)" "sint m = int (unat m)" "sint d = int (unat d)" if "date_ok y m d" for y m d
    using that sint_nonneg(1) [of y] sint_nonneg(1) [of m] sint_nonneg(1) [of d]
    by (simp_all add: date_ok_def)
  note b = date_data_number [OF assms(1)] and b' = date_data_number [OF assms(2)]
  have "sint (date_data y m d) < sint (date_data y' m' d') \<longleftrightarrow>
      ((unat y - 1900) * 256 + (unat m - 1)) * 256 + unat d < ((unat y' - 1900) * 256 + (unat m' - 1)) * 256 + unat d'"
    using n [OF assms(1)] n [OF assms(2)] sint_small [of "date_data y m d"] sint_small [of "date_data y' m' d'"]
    by (metis of_nat_less_iff)
  also have "\<dots> \<longleftrightarrow> unat y < unat y' \<or> unat y = unat y' \<and>
      (unat m < unat m' \<or> unat m = unat m' \<and> unat d < unat d')"
  proof -
    have M: "unat m - 1 < 256" "unat m' - 1 < 256" and D: "unat d < 256" "unat d' < 256"
      using b(4-7) b'(4-7) by auto
    show ?thesis
      unfolding pack_order [OF D] pack_order [OF M] pack_eq [OF M] using b(2-) b'(2-) by auto
  qed
  finally show ?thesis
    unfolding s [OF assms(1)] s [OF assms(2)] by (simp only: of_nat_less_iff of_nat_eq_iff)
qed

lemma Date_ymd_date_ok: "date_ok y m d \<Longrightarrow> Date_ymd y m d = \<lparr>date_val = date_data y m d\<rparr>"
  by (simp add: Date_ymd_def date_ok_def)

text \<open>C11. The packed date is exact and ordered: decoding the date built from a year of 1900 to 9999, a
  month and a day gives them back, and comparing two such dates compares year, month and day.\<close>

theorem date_pack_exact_ordered:
  assumes "date_ok y m d" and "date_ok y' m' d'"
  shows "Date_Decode (date_val (Date_ymd y m d)) = Some (y, m, d) \<and>
    (Date_lt (Date_ymd y m d) (Date_ymd y' m' d') \<longleftrightarrow>
      sint y < sint y' \<or> sint y = sint y' \<and> (sint m < sint m' \<or> sint m = sint m' \<and> sint d < sint d')) \<and>
    (Date_eq (Date_ymd y m d) (Date_ymd y' m' d') \<longleftrightarrow> y = y' \<and> m = m' \<and> d = d')"
proof (intro conjI)
  have v: "date_val (Date_ymd y m d) = date_data y m d" "date_val (Date_ymd y' m' d') = date_data y' m' d'"
    using assms by (simp_all add: Date_ymd_date_ok)
  show "Date_Decode (date_val (Date_ymd y m d)) = Some (y, m, d)"
    using Date_Decode_date_data [OF assms(1)] v by simp
  show "Date_lt (Date_ymd y m d) (Date_ymd y' m' d') \<longleftrightarrow>
      sint y < sint y' \<or> sint y = sint y' \<and> (sint m < sint m' \<or> sint m = sint m' \<and> sint d < sint d')"
    using date_data_order [OF assms] v by (simp add: Date_lt_def)
  show "Date_eq (Date_ymd y m d) (Date_ymd y' m' d') \<longleftrightarrow> y = y' \<and> m = m' \<and> d = d'"
    using Date_Decode_date_data [OF assms(1)] Date_Decode_date_data [OF assms(2)] v
    unfolding Date_eq_def by (metis option.inject prod.inject)
qed

theorem date_pack_exact_ordered_witness:
  "Date_Decode (date_val (Date_ymd 2020 5 20)) = Some (2020, 5, 20) \<and>
   Date_lt (Date_ymd 2020 5 20) (Date_ymd 2020 12 1)"
proof -
  have d: "date_ok 2020 5 20" "date_ok 2020 12 1" by (simp_all add: date_ok_def)
  show ?thesis using date_pack_exact_ordered [OF d] by simp
qed

subsection \<open>Byte-wise comparison\<close>

text \<open>A three-way comparison that orders its valid arguments as the byte strings they stand for.\<close>

locale byte_compare =
  fixes cmp :: "'a \<Rightarrow> 'a \<Rightarrow> int" and valid :: "'a \<Rightarrow> bool" and key :: "'a \<Rightarrow> 'k::linorder"
  assumes cmp_neg: "valid a \<Longrightarrow> valid b \<Longrightarrow> cmp a b < 0 \<longleftrightarrow> key a < key b"
    and cmp_zero: "valid a \<Longrightarrow> valid b \<Longrightarrow> cmp a b = 0 \<longleftrightarrow> key a = key b"
begin

lemma cmp_pos: "valid a \<Longrightarrow> valid b \<Longrightarrow> cmp a b > 0 \<longleftrightarrow> key b < key a"
  using cmp_neg [of a b] cmp_zero [of a b] by (metis less_linear not_less_iff_gr_or_eq)

lemma cmp_flip: "valid a \<Longrightarrow> valid b \<Longrightarrow> cmp a b > 0 \<longleftrightarrow> cmp b a < 0"
  using cmp_pos cmp_neg by simp

lemma cmp_trans: "valid a \<Longrightarrow> valid b \<Longrightarrow> valid c \<Longrightarrow> cmp a b \<le> 0 \<Longrightarrow> cmp b c \<le> 0 \<Longrightarrow> cmp a c \<le> 0"
  using cmp_pos by (meson leD leI order_trans)

end

lemma nil_less: "[] < (xs :: 'a::linorder list) \<longleftrightarrow> xs \<noteq> []"
  by (cases xs) auto

lemma memcmp_neg:
  "n = min (length xs) (length ys) \<Longrightarrow>
   memcmp xs ys n < 0 \<or> memcmp xs ys n = 0 \<and> length xs < length ys \<longleftrightarrow> xs < ys"
  by (induction xs ys n rule: memcmp.induct) (auto simp: min_def nil_less split: if_splits)

lemma memcmp_zero:
  "n = min (length xs) (length ys) \<Longrightarrow> memcmp xs ys n = 0 \<and> length xs = length ys \<longleftrightarrow> xs = ys"
  by (induction xs ys n rule: memcmp.induct) (auto simp: min_def split: if_splits)

definition str_wf :: "StringRef \<Rightarrow> bool" where
  "str_wf s = (case str_data s of None \<Rightarrow> str_size s = 0 | Some d \<Rightarrow> unat (str_size s) \<le> length d)"

lemma str_bytes_length: "str_wf s \<Longrightarrow> length (str_bytes s) = unat (str_size s)"
  by (auto simp: str_wf_def str_bytes_def split: option.splits)

lemma StringRef_compare_cases:
  assumes "str_wf a" and "str_wf b"
  defines "r \<equiv> memcmp (str_bytes a) (str_bytes b) (min (length (str_bytes a)) (length (str_bytes b)))"
  shows "StringRef_compare a b =
    (if r \<noteq> 0 then r else if length (str_bytes a) < length (str_bytes b) then -1
     else if length (str_bytes b) < length (str_bytes a) then 1 else 0)"
proof -
  have "unat (if str_size a < str_size b then str_size a else str_size b) =
      min (length (str_bytes a)) (length (str_bytes b))"
    using assms(1,2) by (simp add: str_bytes_length min_def word_less_nat_alt)
  then show ?thesis
    using assms(1,2) unfolding StringRef_compare_def Let_def r_def
    by (simp add: str_bytes_length word_less_nat_alt)
qed

interpretation sr: byte_compare StringRef_compare str_wf str_bytes
proof
  fix a b assume "str_wf a" "str_wf b"
  note c = StringRef_compare_cases [OF this]
  show "StringRef_compare a b < 0 \<longleftrightarrow> str_bytes a < str_bytes b"
    unfolding c using memcmp_neg [OF refl, of "str_bytes a" "str_bytes b"] by auto
  show "StringRef_compare a b = 0 \<longleftrightarrow> str_bytes a = str_bytes b"
    unfolding c using memcmp_zero [OF refl, of "str_bytes a" "str_bytes b"] by auto
qed

text \<open>C10. The comparison operators of \<open>StringRef\<close> are the lexicographic order of the bytes the
  references denote.\<close>

theorem StringRef_operators_lexicographic:
  assumes "str_wf a" and "str_wf b"
  shows "(StringRef_lt a b \<longleftrightarrow> str_bytes a < str_bytes b) \<and> (StringRef_le a b \<longleftrightarrow> str_bytes a \<le> str_bytes b)
    \<and> (StringRef_gt a b \<longleftrightarrow> str_bytes b < str_bytes a) \<and> (StringRef_ge a b \<longleftrightarrow> str_bytes b \<le> str_bytes a)
    \<and> (StringRef_eq a b \<longleftrightarrow> str_bytes a = str_bytes b) \<and> (StringRef_ne a b \<longleftrightarrow> str_bytes a \<noteq> str_bytes b)"
  using sr.cmp_neg [OF assms] sr.cmp_zero [OF assms] sr.cmp_pos [OF assms]
  unfolding StringRef_lt_def StringRef_le_def StringRef_gt_def StringRef_ge_def StringRef_eq_def StringRef_ne_def
  by (auto simp: le_less not_less)

theorem StringRef_operators_lexicographic_witness:
  "StringRef_lt \<lparr>str_size = 1, str_data = Some [97]\<rparr> \<lparr>str_size = 2, str_data = Some [97, 98]\<rparr>"
proof -
  have "str_wf \<lparr>str_size = 1, str_data = Some [97]\<rparr>" "str_wf \<lparr>str_size = 2, str_data = Some [97, 98]\<rparr>"
    by (simp_all add: str_wf_def)
  then show ?thesis using StringRef_operators_lexicographic by (simp add: str_bytes_def)
qed

text \<open>Concatenation.\<close>

lemma StringRef_plus_bytes:
  assumes "str_wf a" and "str_wf b" and "StringRef_plus a b = Some c"
  shows "str_wf c \<and> str_bytes c = str_bytes a @ str_bytes b"
proof -
  have "unat (str_size a + str_size b) = unat (str_size a) + unat (str_size b)"
    using assms(3) by (intro unat_plus_less) (auto simp: StringRef_plus_def split: if_splits)
  moreover have "str_size s = 0 \<longrightarrow> str_bytes s = []" for s
    by (auto simp: str_bytes_def split: option.splits)
  ultimately show ?thesis
    using assms str_bytes_length [OF assms(1)] str_bytes_length [OF assms(2)]
    by (auto simp: StringRef_plus_def str_wf_def [of "\<lparr>str_size = _, str_data = _\<rparr>"]
        str_bytes_def [of "\<lparr>str_size = _, str_data = _\<rparr>"] word_neq_0_conv [symmetric] split: if_splits)
qed

end
