(* ===== verification/Slice_Row.thy ===== *)
theory Slice_Row
  imports Type_Facts
begin

text \<open>
  \<open>base::Slice\<close> and \<open>codec::Row\<close> (\<open>fe_slice.h\<close>, \<open>row.h\<close>, \<open>row.cc\<close>): a row is a first slice and the
  slices appended by joins. The bytes a slice refers to never change here; the reference counts of
  \<open>RefCountedSlice\<close> are the subject of the theory \<open>Slice_Refs\<close>.
\<close>

subsection \<open>Slices\<close>

record Slice =
  sl_size :: u32
  sl_data :: "byte list option"

definition null_slice :: Slice where
  "null_slice = \<lparr>sl_size = 0, sl_data = None\<rparr>"

definition slice_of :: "byte list \<Rightarrow> Slice" where
  "slice_of bs = \<lparr>sl_size = of_nat (length bs), sl_data = Some bs\<rparr>"

definition slice_bytes :: "Slice \<Rightarrow> byte list" where
  "slice_bytes s = (case sl_data s of None \<Rightarrow> [] | Some d \<Rightarrow> take (unat (sl_size s)) d)"

definition slice_wf :: "Slice \<Rightarrow> bool" where
  "slice_wf s = (case sl_data s of None \<Rightarrow> sl_size s = 0 | Some d \<Rightarrow> unat (sl_size s) \<le> length d)"

definition Slice_empty :: "Slice \<Rightarrow> bool" where
  "Slice_empty s = (0 = sl_size s)"

definition remove_prefix :: "Slice \<Rightarrow> u32 \<Rightarrow> Slice option" where
  "remove_prefix s n =
     (if n \<le> sl_size s then Some \<lparr>sl_size = sl_size s - n, sl_data = map_option (drop (unat n)) (sl_data s)\<rparr>
      else None)"

definition starts_with :: "Slice \<Rightarrow> Slice \<Rightarrow> bool" where
  "starts_with s x = (sl_size s \<ge> sl_size x \<and> memcmp (slice_bytes s) (slice_bytes x) (unat (sl_size x)) = 0)"

definition Slice_eq :: "Slice \<Rightarrow> Slice \<Rightarrow> bool" where
  "Slice_eq x y = (sl_size x = sl_size y \<and> memcmp (slice_bytes x) (slice_bytes y) (unat (sl_size x)) = 0)"

definition Slice_compare :: "Slice \<Rightarrow> Slice \<Rightarrow> int" where
  "Slice_compare a b =
     (let min_len = (if sl_size a < sl_size b then sl_size a else sl_size b);
          r = memcmp (slice_bytes a) (slice_bytes b) (unat min_len)
      in if r = 0
         then if sl_size a < sl_size b then -1 else if sl_size a > sl_size b then 1 else r
         else r)"

subsection \<open>Rows\<close>

record Row =
  row_slice :: Slice
  row_slices :: "Slice list"

definition Row_default :: Row where
  "Row_default = \<lparr>row_slice = null_slice, row_slices = []\<rparr>"

definition Row_of_slice :: "Slice \<Rightarrow> Row" where
  "Row_of_slice s = \<lparr>row_slice = s, row_slices = []\<rparr>"

text \<open>The joining constructors: a vector of default slices, filled from the two rows where they have
  the slice. A count of 0 makes \<open>major_slices - 1\<close> wrap and a store leave the vector.\<close>

definition slices_upto :: "nat \<Rightarrow> Slice list \<Rightarrow> Slice list" where
  "slices_upto n ss = map (\<lambda>offset. if length ss > offset then ss ! offset else null_slice) [0..<n]"

definition Row_concat :: "nat \<Rightarrow> Row \<Rightarrow> nat \<Rightarrow> Row \<Rightarrow> Row option" where
  "Row_concat major_slices major secondary_slices secondary =
     (if major_slices = 0 \<or> secondary_slices = 0 then None
      else Some \<lparr>row_slice = row_slice major,
                 row_slices = slices_upto (major_slices - 1) (row_slices major) @
                              row_slice secondary #
                              slices_upto (secondary_slices - 1) (row_slices secondary)\<rparr>)"

definition Row_cons :: "Slice \<Rightarrow> nat \<Rightarrow> Row \<Rightarrow> Row option" where
  "Row_cons s secondary_slices secondary =
     (if secondary_slices = 0 then None
      else Some \<lparr>row_slice = s,
                 row_slices = row_slice secondary #
                              slices_upto (secondary_slices - 1) (row_slices secondary)\<rparr>)"

definition Row_Append_slice :: "Row \<Rightarrow> Slice \<Rightarrow> Row" where
  "Row_Append_slice r s = r\<lparr>row_slices := row_slices r @ [s]\<rparr>"

definition Row_Append_slices :: "Row \<Rightarrow> Slice list \<Rightarrow> Row" where
  "Row_Append_slices r ss = (if ss \<noteq> [] then r\<lparr>row_slices := row_slices r @ ss\<rparr> else r)"

definition Row_Append :: "Row \<Rightarrow> Row \<Rightarrow> Row" where
  "Row_Append r b = Row_Append_slices (r\<lparr>row_slices := row_slices r @ [row_slice b]\<rparr>) (row_slices b)"

definition GetRowPtrCnt :: "Row \<Rightarrow> nat" where
  "GetRowPtrCnt r = 1 + length (row_slices r)"

definition GetRowPtrs :: "Row \<Rightarrow> byte list option list" where
  "GetRowPtrs r = (if row_slices r = [] then [sl_data (row_slice r)]
                   else sl_data (row_slice r) # map sl_data (row_slices r))"

definition GetRowSizes :: "Row \<Rightarrow> i32 list" where
  "GetRowSizes r = (if row_slices r = [] then [sl_size (row_slice r)]
                    else sl_size (row_slice r) # map sl_size (row_slices r))"

definition Row_buf :: "Row \<Rightarrow> nat \<Rightarrow> byte list option option" where
  "Row_buf r pos = (if 0 = pos then Some (sl_data (row_slice r))
                    else map_option sl_data (vec_at (row_slices r) (pos - 1)))"

definition Row_size :: "Row \<Rightarrow> nat \<Rightarrow> i32 option" where
  "Row_size r pos = (if 0 = pos then Some (sl_size (row_slice r))
                     else map_option sl_size (vec_at (row_slices r) (pos - 1)))"

definition Row_empty :: "Row \<Rightarrow> bool" where
  "Row_empty r = (Slice_empty (row_slice r) \<and> row_slices r = [])"

definition GetSlice :: "Row \<Rightarrow> nat \<Rightarrow> Slice" where
  "GetSlice r slice_index =
     (if slice_index \<ge> length (row_slices r) + 1 then null_slice
      else if 0 = slice_index then row_slice r else row_slices r ! (slice_index - 1))"

definition Row_ToString :: "Row \<Rightarrow> byte list" where
  "Row_ToString r = slice_bytes (row_slice r)"

text \<open>The loop of \<open>Row::compare\<close> over the common slices, then the numbers of slices.\<close>

fun compare_slices :: "Slice list \<Rightarrow> Slice list \<Rightarrow> int" where
  "compare_slices (x # xs) (y # ys) =
     (let slice_compared = Slice_compare x y in
      if 0 = slice_compared then compare_slices xs ys else slice_compared)"
| "compare_slices xs ys =
     (if length xs < length ys then -1 else if length xs > length ys then 1 else 0)"

definition Row_compare :: "Row \<Rightarrow> Row \<Rightarrow> int" where
  "Row_compare a b =
     (let r = Slice_compare (row_slice a) (row_slice b) in
      if r \<noteq> 0 then r else compare_slices (row_slices a) (row_slices b))"

subsection \<open>Comparison\<close>

lemma slice_bytes_length: "slice_wf s \<Longrightarrow> length (slice_bytes s) = unat (sl_size s)"
  by (auto simp: slice_wf_def slice_bytes_def split: option.splits)

text \<open>A slice compares as the string reference to the same bytes does.\<close>

lemma slice_str:
  "str_bytes \<lparr>str_size = sl_size s, str_data = sl_data s\<rparr> = slice_bytes s"
  "str_wf \<lparr>str_size = sl_size s, str_data = sl_data s\<rparr> = slice_wf s"
  by (auto simp: slice_bytes_def str_bytes_def slice_wf_def str_wf_def split: option.splits)

lemma Slice_compare_StringRef:
  "Slice_compare a b = StringRef_compare \<lparr>str_size = sl_size a, str_data = sl_data a\<rparr>
     \<lparr>str_size = sl_size b, str_data = sl_data b\<rparr>"
  by (simp add: Slice_compare_def StringRef_compare_def Let_def slice_str)

interpretation sl: byte_compare Slice_compare slice_wf slice_bytes
proof
  fix a b assume "slice_wf a" "slice_wf b"
  then have w: "str_wf \<lparr>str_size = sl_size a, str_data = sl_data a\<rparr>" "str_wf \<lparr>str_size = sl_size b, str_data = sl_data b\<rparr>"
    by (simp_all add: slice_str)
  show "Slice_compare a b < 0 \<longleftrightarrow> slice_bytes a < slice_bytes b"
    using sr.cmp_neg [OF w] by (simp add: Slice_compare_StringRef slice_str)
  show "Slice_compare a b = 0 \<longleftrightarrow> slice_bytes a = slice_bytes b"
    using sr.cmp_zero [OF w] by (simp add: Slice_compare_StringRef slice_str)
qed

definition row_wf :: "Row \<Rightarrow> bool" where
  "row_wf r \<longleftrightarrow> slice_wf (row_slice r) \<and> list_all slice_wf (row_slices r)"

definition row_key :: "Row \<Rightarrow> byte list list" where
  "row_key r = slice_bytes (row_slice r) # map slice_bytes (row_slices r)"

lemma compare_slices_key:
  "list_all slice_wf xs \<Longrightarrow> list_all slice_wf ys \<Longrightarrow>
   (compare_slices xs ys < 0 \<longleftrightarrow> map slice_bytes xs < map slice_bytes ys) \<and>
   (compare_slices xs ys = 0 \<longleftrightarrow> map slice_bytes xs = map slice_bytes ys)"
proof (induction xs ys rule: compare_slices.induct)
  case (1 x xs y ys)
  then show ?case using sl.cmp_neg [of x y] sl.cmp_zero [of x y] by (auto simp: Let_def)
qed (auto simp: nil_less)

interpretation rw: byte_compare Row_compare row_wf row_key
proof
  fix a b assume "row_wf a" "row_wf b"
  then show "Row_compare a b < 0 \<longleftrightarrow> row_key a < row_key b" "Row_compare a b = 0 \<longleftrightarrow> row_key a = row_key b"
    using compare_slices_key [of "row_slices a" "row_slices b"] sl.cmp_neg [of "row_slice a" "row_slice b"]
      sl.cmp_zero [of "row_slice a" "row_slice b"]
    by (auto simp: Row_compare_def row_wf_def row_key_def Let_def)
qed

text \<open>C9. \<open>Row::compare\<close> is a total order on rows by content: it is 0 exactly for rows of equal bytes
  slice by slice, flips with its arguments, and is transitive.\<close>

theorem Row_compare_total_order:
  assumes "row_wf a" and "row_wf b" and "row_wf c"
  shows "(Row_compare a b = 0 \<longleftrightarrow> row_key a = row_key b) \<and> (Row_compare a b > 0 \<longleftrightarrow> Row_compare b a < 0)
    \<and> (Row_compare a b \<le> 0 \<and> Row_compare b c \<le> 0 \<longrightarrow> Row_compare a c \<le> 0)"
  using rw.cmp_zero [OF assms(1,2)] rw.cmp_flip [OF assms(1,2)] rw.cmp_trans [OF assms] by blast

theorem Row_compare_total_order_witness:
  "Row_compare (Row_of_slice (slice_of [1])) (Row_of_slice (slice_of [2])) \<le> 0
    \<and> Row_compare (Row_of_slice (slice_of [2])) (Row_of_slice (slice_of [2, 0])) \<le> 0
    \<and> Row_compare (Row_of_slice (slice_of [1])) (Row_of_slice (slice_of [2, 0])) \<le> 0"
  using Row_compare_total_order [of "Row_of_slice (slice_of [1])" "Row_of_slice (slice_of [2])" "Row_of_slice (slice_of [2, 0])"]
  by (simp add: row_wf_def Row_of_slice_def slice_of_def slice_wf_def Row_compare_def Slice_compare_def slice_bytes_def)

subsection \<open>Joined rows\<close>

lemma length_slices_upto [simp]: "length (slices_upto n ss) = n"
  by (simp add: slices_upto_def)

lemma nth_slices_upto: "i < n \<Longrightarrow> slices_upto n ss ! i = (if i < length ss then ss ! i else null_slice)"
  by (simp add: slices_upto_def)

lemma GetSlice_Row_of_slice: "GetSlice (Row_of_slice s) i = (if i = 0 then s else null_slice)"
  by (simp add: GetSlice_def Row_of_slice_def)

text \<open>C8. A joined row gives the slices of the left row below \<open>major_slices\<close> and those of the right row
  after them; slices a side does not have are null slices.\<close>

theorem Row_concat_slices:
  assumes "0 < major_slices" and "0 < secondary_slices"
  shows "\<exists>r. Row_concat major_slices a secondary_slices b = Some r \<and>
    GetRowPtrCnt r = major_slices + secondary_slices \<and>
    (\<forall>i < major_slices. GetSlice r i = GetSlice a i) \<and>
    (\<forall>i < secondary_slices. GetSlice r (major_slices + i) = GetSlice b i)"
  using assms
  by (auto simp: Row_concat_def GetRowPtrCnt_def GetSlice_def nth_append nth_slices_upto nth_Cons' )

theorem Row_concat_slices_witness:
  "\<exists>r. Row_concat 2 (Row_of_slice (slice_of [1])) 1 (Row_of_slice (slice_of [2])) = Some r \<and>
    GetRowPtrCnt r = 3 \<and> GetSlice r 1 = null_slice \<and> GetSlice r 2 = slice_of [2]"
proof -
  obtain r where "Row_concat 2 (Row_of_slice (slice_of [1])) 1 (Row_of_slice (slice_of [2])) = Some r"
    "GetRowPtrCnt r = 3" "\<forall>i < 2. GetSlice r i = GetSlice (Row_of_slice (slice_of [1])) i"
    "\<forall>i < 1. GetSlice r (2 + i) = GetSlice (Row_of_slice (slice_of [2])) i"
    using Row_concat_slices [of 2 1 "Row_of_slice (slice_of [1])" "Row_of_slice (slice_of [2])"] by auto
  then show ?thesis by (intro exI [of _ r]) (simp add: GetSlice_Row_of_slice)
qed

end
