(* ===== verification/Row_Iterators.thy ===== *)
theory Row_Iterators
  imports Slice_Row
begin

text \<open>
  The iterators of \<open>base/iterator.h\<close>, \<open>row_list.h\<close> and \<open>list_iterator_codec.h\<close>. An iterator class is
  its table of virtual functions, a record \<open>iter_ops\<close>; a class that wraps another iterator maps the
  wrapped table to its own. The locale \<open>row_iterator\<close> is the contract of \<open>ConstIterator\<close>: an iterator
  stands for the entries it has still to visit. The traversals of \<open>ListV\<close> are proved once against it.
\<close>

subsection \<open>The interface\<close>

record ('it, 'v) iter_ops =
  op_Valid :: "'it \<Rightarrow> bool"
  op_Next :: "'it \<Rightarrow> 'it option"
  op_GetKey :: "'it \<Rightarrow> u64 option"
  op_GetValue :: "'it \<Rightarrow> 'v option"
  op_Seek :: "u64 \<Rightarrow> 'it \<Rightarrow> 'it option"
  op_SeekToFirst :: "'it \<Rightarrow> 'it option"

text \<open>\<open>ListV::GetCount\<close> and \<open>ListV::At\<close> on the iterator \<open>GetIterator\<close> returns.\<close>

partial_function (option) ListV_GetCount :: "('it, 'v) iter_ops \<Rightarrow> 'it \<Rightarrow> u64 \<Rightarrow> u64 option" where
  "ListV_GetCount ops iter cnt =
     (if op_Valid ops iter then do { iter' \<leftarrow> op_Next ops iter; ListV_GetCount ops iter' (cnt + 1) }
      else Some cnt)"

fun skip_rows :: "('it, 'v) iter_ops \<Rightarrow> nat \<Rightarrow> 'it \<Rightarrow> 'it option" where
  "skip_rows ops 0 iter = Some iter"
| "skip_rows ops (Suc pos) iter =
     (if op_Valid ops iter then do { iter' \<leftarrow> op_Next ops iter; skip_rows ops pos iter' } else Some iter)"

definition ListV_At :: "('it, 'v) iter_ops \<Rightarrow> 'v \<Rightarrow> 'it \<Rightarrow> u64 \<Rightarrow> 'v option" where
  "ListV_At ops dflt iter pos = do {
     iter' \<leftarrow> skip_rows ops (unat pos) iter;
     if op_Valid ops iter' then op_GetValue ops iter' else Some dflt
   }"

text \<open>The traversal \<open>while (iter->Valid()) { body; iter->Next(); }\<close> most clients make.\<close>

partial_function (option) iter_loop ::
  "('it, 'v) iter_ops \<Rightarrow> (u64 \<Rightarrow> 'v \<Rightarrow> 's \<Rightarrow> 's option) \<Rightarrow> 'it \<Rightarrow> 's \<Rightarrow> 's option" where
  "iter_loop ops body iter s =
     (if op_Valid ops iter then do {
        k \<leftarrow> op_GetKey ops iter;
        v \<leftarrow> op_GetValue ops iter;
        s' \<leftarrow> body k v s;
        iter' \<leftarrow> op_Next ops iter;
        iter_loop ops body iter' s'
      } else Some s)"

fun fold_opt :: "('a \<Rightarrow> 's \<Rightarrow> 's option) \<Rightarrow> 'a list \<Rightarrow> 's \<Rightarrow> 's option" where
  "fold_opt f [] s = Some s"
| "fold_opt f (x # xs) s = do { s' \<leftarrow> f x s; fold_opt f xs s' }"

subsection \<open>Iterators over a part of a window\<close>

record 'it InnerRowsIterator =
  ir_root :: 'it
  ir_pos :: nat
  ir_start :: nat
  ir_end :: nat

fun ir_skip :: "('it, 'v) iter_ops \<Rightarrow> nat \<Rightarrow> 'it \<Rightarrow> nat \<Rightarrow> ('it \<times> nat) option" where
  "ir_skip ops 0 root pos = Some (root, pos)"
| "ir_skip ops (Suc n) root pos =
     (if op_Valid ops root then do { root' \<leftarrow> op_Next ops root; ir_skip ops n root' (pos + 1) }
      else Some (root, pos))"

definition InnerRows_SeekToFirst :: "('it, 'v) iter_ops \<Rightarrow> 'it InnerRowsIterator \<Rightarrow> 'it InnerRowsIterator option" where
  "InnerRows_SeekToFirst ops it = do {
     root \<leftarrow> op_SeekToFirst ops (ir_root it);
     (root', pos) \<leftarrow> ir_skip ops (ir_start it) root 0;
     Some (it\<lparr>ir_root := root', ir_pos := pos\<rparr>)
   }"

definition InnerRows_ops :: "('it, 'v) iter_ops \<Rightarrow> ('it InnerRowsIterator, 'v) iter_ops" where
  "InnerRows_ops ops =
     \<lparr>op_Valid = (\<lambda>it. op_Valid ops (ir_root it) \<and> ir_pos it \<le> ir_end it \<and> ir_pos it \<ge> ir_start it),
      op_Next = (\<lambda>it. do { root \<leftarrow> op_Next ops (ir_root it);
                           Some (it\<lparr>ir_root := root, ir_pos := ir_pos it + 1\<rparr>) }),
      op_GetKey = (\<lambda>it. op_GetKey ops (ir_root it)),
      op_GetValue = (\<lambda>it. op_GetValue ops (ir_root it)),
      op_Seek = (\<lambda>k it. do { root \<leftarrow> op_Seek ops k (ir_root it); Some (it\<lparr>ir_root := root\<rparr>) }),
      op_SeekToFirst = InnerRows_SeekToFirst ops\<rparr>"

definition InnerRowsIterator_new :: "('it, 'v) iter_ops \<Rightarrow> 'it \<Rightarrow> nat \<Rightarrow> nat \<Rightarrow> 'it InnerRowsIterator option" where
  "InnerRowsIterator_new ops root start end' =
     InnerRows_SeekToFirst ops \<lparr>ir_root = root, ir_pos = 0, ir_start = start, ir_end = end'\<rparr>"

record 'it InnerRangeIterator =
  rg_root :: 'it
  rg_start_key :: u64
  rg_start :: u64
  rg_end :: u64

definition InnerRange_ops :: "('it, 'v) iter_ops \<Rightarrow> ('it InnerRangeIterator, 'v) iter_ops" where
  "InnerRange_ops ops =
     \<lparr>op_Valid = (\<lambda>it. op_Valid ops (rg_root it) \<and>
                     (case op_GetKey ops (rg_root it) of None \<Rightarrow> False
                      | Some k \<Rightarrow> k \<le> rg_start it \<and> k \<ge> rg_end it)),
      op_Next = (\<lambda>it. do { root \<leftarrow> op_Next ops (rg_root it); Some (it\<lparr>rg_root := root\<rparr>) }),
      op_GetKey = (\<lambda>it. op_GetKey ops (rg_root it)),
      op_GetValue = (\<lambda>it. op_GetValue ops (rg_root it)),
      op_Seek = (\<lambda>k it. do { root \<leftarrow> op_Seek ops k (rg_root it); Some (it\<lparr>rg_root := root\<rparr>) }),
      op_SeekToFirst = (\<lambda>it. do {
        root \<leftarrow> op_SeekToFirst ops (rg_root it);
        root' \<leftarrow> op_Seek ops (rg_start it) root;
        Some (it\<lparr>rg_root := root'\<rparr>) })\<rparr>"

definition InnerRangeIterator_new :: "('it, 'v) iter_ops \<Rightarrow> 'it \<Rightarrow> u64 \<Rightarrow> u64 \<Rightarrow> 'it InnerRangeIterator option" where
  "InnerRangeIterator_new ops root start end' = do {
     root' \<leftarrow> op_SeekToFirst ops root;
     start_key \<leftarrow> (if op_Valid ops root' then op_GetKey ops root' else Some 0);
     Some \<lparr>rg_root = root', rg_start_key = start_key, rg_start = start, rg_end = end'\<rparr>
   }"

subsection \<open>The request row before a window\<close>

record 'it RequestUnionIterator =
  ru_request_ts :: u64
  ru_request_row :: Row
  ru_window_iter :: 'it
  ru_window_iter_start :: bool

definition RequestUnion_ops :: "('it, Row) iter_ops \<Rightarrow> ('it RequestUnionIterator, Row) iter_ops" where
  "RequestUnion_ops ops =
     (let first = (\<lambda>it. do { w \<leftarrow> op_SeekToFirst ops (ru_window_iter it);
                             Some (it\<lparr>ru_window_iter := w, ru_window_iter_start := False\<rparr>) }) in
     \<lparr>op_Valid = (\<lambda>it. if ru_window_iter_start it then op_Valid ops (ru_window_iter it) else True),
      op_Next = (\<lambda>it. if ru_window_iter_start it
                      then do { w \<leftarrow> op_Next ops (ru_window_iter it); Some (it\<lparr>ru_window_iter := w\<rparr>) }
                      else Some (it\<lparr>ru_window_iter_start := True\<rparr>)),
      op_GetKey = (\<lambda>it. if ru_window_iter_start it then op_GetKey ops (ru_window_iter it)
                        else Some (ru_request_ts it)),
      op_GetValue = (\<lambda>it. if ru_window_iter_start it then op_GetValue ops (ru_window_iter it)
                          else Some (ru_request_row it)),
      op_Seek = (\<lambda>key it. if ru_request_ts it \<le> key then first it
                          else do { w \<leftarrow> op_Seek ops key (ru_window_iter it);
                                    Some (it\<lparr>ru_window_iter := w, ru_window_iter_start := True\<rparr>) }),
      op_SeekToFirst = first\<rparr>)"

definition RequestUnionIterator_new :: "u64 \<Rightarrow> Row \<Rightarrow> 'it \<Rightarrow> 'it RequestUnionIterator" where
  "RequestUnionIterator_new ts row w =
     \<lparr>ru_request_ts = ts, ru_request_row = row, ru_window_iter = w, ru_window_iter_start = False\<rparr>"

subsection \<open>A column of a list of rows\<close>

text \<open>\<open>ColumnIterator\<close>: \<open>get\<close> is the column's \<open>GetFieldUnsafe\<close>. Its constructor rewinds the row iterator
  only where that iterator is null.\<close>

definition Column_ops :: "('r \<Rightarrow> 'v option) \<Rightarrow> ('it, 'r) iter_ops \<Rightarrow> ('it, 'v) iter_ops" where
  "Column_ops get ops =
     \<lparr>op_Valid = op_Valid ops, op_Next = op_Next ops, op_GetKey = op_GetKey ops,
      op_GetValue = (\<lambda>it. do { row \<leftarrow> op_GetValue ops it; get row }),
      op_Seek = op_Seek ops, op_SeekToFirst = op_SeekToFirst ops\<rparr>"

definition ColumnIterator_new :: "'it option \<Rightarrow> 'it option" where
  "ColumnIterator_new row_iter = (case row_iter of None \<Rightarrow> None | Some it \<Rightarrow> Some it)"

subsection \<open>What the wrapping iterators stand for\<close>

definition ir_inv :: "('it \<Rightarrow> bool) \<Rightarrow> ('it \<Rightarrow> (u64 \<times> 'v) list) \<Rightarrow> 'it InnerRowsIterator \<Rightarrow> bool" where
  "ir_inv ok rest it \<longleftrightarrow> ok (ir_root it) \<and> (ir_start it \<le> ir_pos it \<or> rest (ir_root it) = [])"

definition ir_rest :: "('it \<Rightarrow> (u64 \<times> 'v) list) \<Rightarrow> 'it InnerRowsIterator \<Rightarrow> (u64 \<times> 'v) list" where
  "ir_rest rest it = take (Suc (ir_end it) - ir_pos it) (rest (ir_root it))"

definition ir_whole :: "('it \<Rightarrow> (u64 \<times> 'v) list) \<Rightarrow> 'it InnerRowsIterator \<Rightarrow> (u64 \<times> 'v) list" where
  "ir_whole whole it = take (Suc (ir_end it) - ir_start it) (drop (ir_start it) (whole (ir_root it)))"

definition rg_ok :: "('it \<Rightarrow> bool) \<Rightarrow> 'it InnerRangeIterator \<Rightarrow> bool" where
  "rg_ok ok it \<longleftrightarrow> ok (rg_root it)"

definition rg_rest :: "('it \<Rightarrow> (u64 \<times> 'v) list) \<Rightarrow> 'it InnerRangeIterator \<Rightarrow> (u64 \<times> 'v) list" where
  "rg_rest rest it = takeWhile (\<lambda>(k, v). k \<le> rg_start it \<and> k \<ge> rg_end it) (rest (rg_root it))"

definition rg_whole :: "('it \<Rightarrow> (u64 \<times> 'v) list) \<Rightarrow> 'it InnerRangeIterator \<Rightarrow> (u64 \<times> 'v) list" where
  "rg_whole whole it = takeWhile (\<lambda>(k, v). k \<le> rg_start it \<and> k \<ge> rg_end it)
     (dropWhile (\<lambda>(k, v). rg_start it < k) (whole (rg_root it)))"

definition ru_ok :: "('it \<Rightarrow> bool) \<Rightarrow> ('it \<Rightarrow> (u64 \<times> Row) list) \<Rightarrow> ('it \<Rightarrow> (u64 \<times> Row) list)
    \<Rightarrow> 'it RequestUnionIterator \<Rightarrow> bool" where
  "ru_ok ok rest whole it \<longleftrightarrow> ok (ru_window_iter it) \<and>
     (ru_window_iter_start it \<or> rest (ru_window_iter it) = whole (ru_window_iter it))"

definition ru_whole :: "('it \<Rightarrow> (u64 \<times> Row) list) \<Rightarrow> 'it RequestUnionIterator \<Rightarrow> (u64 \<times> Row) list" where
  "ru_whole whole it = (ru_request_ts it, ru_request_row it) # whole (ru_window_iter it)"

definition ru_rest :: "('it \<Rightarrow> (u64 \<times> Row) list) \<Rightarrow> 'it RequestUnionIterator \<Rightarrow> (u64 \<times> Row) list" where
  "ru_rest rest it = (if ru_window_iter_start it then rest (ru_window_iter it)
     else (ru_request_ts it, ru_request_row it) # rest (ru_window_iter it))"

subsection \<open>The contract\<close>

text \<open>\<open>rest\<close> are the entries still to visit, \<open>whole\<close> the entries from the first.\<close>

locale row_iterator =
  fixes ops :: "('it, 'v) iter_ops" and ok :: "'it \<Rightarrow> bool"
    and rest :: "'it \<Rightarrow> (u64 \<times> 'v) list" and whole :: "'it \<Rightarrow> (u64 \<times> 'v) list"
  assumes valid_rest: "ok it \<Longrightarrow> op_Valid ops it \<longleftrightarrow> rest it \<noteq> []"
    and next_rest: "ok it \<Longrightarrow> rest it = p # ps \<Longrightarrow>
      \<exists>it'. op_Next ops it = Some it' \<and> ok it' \<and> rest it' = ps \<and> whole it' = whole it"
    and at_rest: "ok it \<Longrightarrow> rest it = (k, v) # ps \<Longrightarrow> op_GetKey ops it = Some k \<and> op_GetValue ops it = Some v"
    and first_rest: "ok it \<Longrightarrow>
      \<exists>it'. op_SeekToFirst ops it = Some it' \<and> ok it' \<and> rest it' = whole it \<and> whole it' = whole it"
begin

lemma GetCount_rest: "ok it \<Longrightarrow> ListV_GetCount ops it cnt = Some (cnt + of_nat (length (rest it)))"
proof (induction "rest it" arbitrary: it cnt)
  case Nil
  then show ?case using valid_rest [of it] by (simp add: ListV_GetCount.simps)
next
  case (Cons p ps)
  note r = Cons.hyps(2) [symmetric]
  obtain it' where it': "op_Next ops it = Some it'" "ok it'" "rest it' = ps"
    using next_rest [OF Cons.prems r] by blast
  have "ListV_GetCount ops it cnt = ListV_GetCount ops it' (cnt + 1)"
    using valid_rest [OF Cons.prems] it' r by (subst ListV_GetCount.simps) simp
  then show ?case using Cons.hyps(1) [of it' "cnt + 1"] it' r by simp
qed

lemma skip_rows_rest:
  "ok it \<Longrightarrow> \<exists>it'. skip_rows ops n it = Some it' \<and> ok it' \<and> rest it' = drop n (rest it) \<and> whole it' = whole it"
proof (induction n arbitrary: it)
  case (Suc n)
  show ?case
  proof (cases "rest it")
    case (Cons p ps)
    then obtain it' where "op_Next ops it = Some it'" "ok it'" "rest it' = ps" "whole it' = whole it"
      using next_rest [OF Suc.prems] by blast
    then show ?thesis using Suc.IH [of it'] Cons valid_rest [OF Suc.prems] by auto
  qed (use Suc valid_rest in auto)
qed simp

lemma At_rest:
  assumes "ok it"
  shows "ListV_At ops dflt it pos =
    Some (if unat pos < length (rest it) then snd (rest it ! unat pos) else dflt)"
proof -
  obtain it' where it': "skip_rows ops (unat pos) it = Some it'" "ok it'" "rest it' = drop (unat pos) (rest it)"
    using skip_rows_rest [OF assms] by blast
  show ?thesis
  proof (cases "unat pos < length (rest it)")
    case True
    then have "rest it' = (fst (rest it ! unat pos), snd (rest it ! unat pos)) # drop (Suc (unat pos)) (rest it)"
      using it'(3) by (simp add: Cons_nth_drop_Suc)
    from at_rest [OF it'(2) this] this show ?thesis
      using valid_rest [OF it'(2)] it'(1) True by (simp add: ListV_At_def)
  next
    case False
    then show ?thesis using valid_rest [OF it'(2)] it' by (simp add: ListV_At_def)
  qed
qed

lemma loop_rest: "ok it \<Longrightarrow> iter_loop ops body it s = fold_opt (\<lambda>(k, v). body k v) (rest it) s"
proof (induction "rest it" arbitrary: it s)
  case Nil
  then show ?case using valid_rest [of it] by (simp add: iter_loop.simps)
next
  case (Cons p ps)
  obtain k v where p: "rest it = (k, v) # ps" using Cons.hyps(2) [symmetric] by (cases p) auto
  obtain it' where it': "op_Next ops it = Some it'" "ok it'" "rest it' = ps"
    using next_rest [OF Cons.prems p] by blast
  have "iter_loop ops body it s = do { s' \<leftarrow> body k v s; iter_loop ops body it' s' }"
    using valid_rest [OF Cons.prems] at_rest [OF Cons.prems p] it' p by (subst iter_loop.simps) simp
  then show ?case using Cons.hyps(1) [of it'] it' p by (simp cong: Option.bind_cong)
qed

text \<open>Rows \<open>start\<close> to \<open>end\<close> of a list, the request row before a list, and a column of a list are
  iterators again.\<close>

lemma ir_skip_rest:
  "ok it \<Longrightarrow> \<exists>it' q. ir_skip ops n it q0 = Some (it', q) \<and> ok it' \<and> rest it' = drop n (rest it) \<and>
     whole it' = whole it \<and> q = q0 + min n (length (rest it))"
proof (induction n arbitrary: it q0)
  case (Suc n)
  show ?case
  proof (cases "rest it")
    case (Cons p ps)
    then obtain it' where "op_Next ops it = Some it'" "ok it'" "rest it' = ps" "whole it' = whole it"
      using next_rest [OF Suc.prems] by blast
    then show ?thesis using Suc.IH [of it' "q0 + 1"] Cons valid_rest [OF Suc.prems] by auto
  qed (use Suc valid_rest in auto)
qed simp

lemma inner_rows_iterator: "row_iterator (InnerRows_ops ops) (ir_inv ok rest) (ir_rest rest) (ir_whole whole)"
proof
  fix it assume i: "ir_inv ok rest it"
  then have r: "ok (ir_root it)" by (simp add: ir_inv_def)
  show "op_Valid (InnerRows_ops ops) it \<longleftrightarrow> ir_rest rest it \<noteq> []"
    using valid_rest [OF r] i by (auto simp: InnerRows_ops_def ir_rest_def ir_inv_def)
  obtain root where root: "op_SeekToFirst ops (ir_root it) = Some root" "ok root"
      "rest root = whole (ir_root it)" "whole root = whole (ir_root it)"
    using first_rest [OF r] by blast
  obtain root' q where "ir_skip ops (ir_start it) root 0 = Some (root', q)" "ok root'"
      "rest root' = drop (ir_start it) (rest root)" "whole root' = whole root"
      "q = min (ir_start it) (length (rest root))"
    using ir_skip_rest [OF root(2), of "ir_start it" 0] by auto
  then show "\<exists>it'. op_SeekToFirst (InnerRows_ops ops) it = Some it' \<and> ir_inv ok rest it' \<and>
      ir_rest rest it' = ir_whole whole it \<and> ir_whole whole it' = ir_whole whole it"
    using root by (auto simp: InnerRows_ops_def InnerRows_SeekToFirst_def ir_inv_def ir_rest_def ir_whole_def min_def)
  fix p ps assume e: "ir_rest rest it = p # ps"
  then obtain qs where qs: "rest (ir_root it) = p # qs"
    by (cases "rest (ir_root it)") (auto simp: ir_rest_def take_Cons' split: if_splits)
  then obtain root'' where "op_Next ops (ir_root it) = Some root''" "ok root''" "rest root'' = qs"
      "whole root'' = whole (ir_root it)"
    using next_rest [OF r] by blast
  then show "\<exists>it'. op_Next (InnerRows_ops ops) it = Some it' \<and> ir_inv ok rest it' \<and> ir_rest rest it' = ps \<and> ir_whole whole it' = ir_whole whole it"
    using e i qs by (auto simp: InnerRows_ops_def ir_rest_def ir_inv_def ir_whole_def take_Cons' Suc_diff_le split: if_splits)
next
  fix it k v ps assume i: "ir_inv ok rest it" and e: "ir_rest rest it = (k, v) # ps"
  then obtain qs where "rest (ir_root it) = (k, v) # qs"
    by (cases "rest (ir_root it)") (auto simp: ir_rest_def take_Cons' split: if_splits)
  then show "op_GetKey (InnerRows_ops ops) it = Some k \<and> op_GetValue (InnerRows_ops ops) it = Some v"
    using at_rest i by (auto simp: InnerRows_ops_def ir_inv_def)
qed

lemma column_iterator:
  assumes "\<And>it. ok it \<Longrightarrow> list_all (\<lambda>(k, r). get r \<noteq> None) (rest it) \<and> list_all (\<lambda>(k, r). get r \<noteq> None) (whole it)"
  shows "row_iterator (Column_ops get ops) ok (\<lambda>it. map (\<lambda>(k, r). (k, the (get r))) (rest it))
    (\<lambda>it. map (\<lambda>(k, r). (k, the (get r))) (whole it))"
proof
  fix it p ps assume i: "ok it" and e: "map (\<lambda>(k, r). (k, the (get r))) (rest it) = p # ps"
  then obtain q qs where "rest it = q # qs" "ps = map (\<lambda>(k, r). (k, the (get r))) qs" by auto
  with next_rest [OF i] show "\<exists>it'. op_Next (Column_ops get ops) it = Some it' \<and> ok it' \<and>
      map (\<lambda>(k, r). (k, the (get r))) (rest it') = ps \<and>
      map (\<lambda>(k, r). (k, the (get r))) (whole it') = map (\<lambda>(k, r). (k, the (get r))) (whole it)"
    by (fastforce simp: Column_ops_def)
next
  fix it k v ps assume i: "ok it" and e: "map (\<lambda>(k, r). (k, the (get r))) (rest it) = (k, v) # ps"
  then obtain r qs where "rest it = (k, r) # qs" "v = the (get r)" by auto
  with at_rest [OF i] assms [OF i] show "op_GetKey (Column_ops get ops) it = Some k \<and> op_GetValue (Column_ops get ops) it = Some v"
    by (auto simp: Column_ops_def)
qed (use valid_rest first_rest in \<open>fastforce simp: Column_ops_def\<close>)+

end

text \<open>\<open>Seek\<close> on a list of descending keys moves to the first entry whose key is not above the target.\<close>

locale seekable_iterator = row_iterator +
  assumes seek_rest: "ok it \<Longrightarrow>
    \<exists>it'. op_Seek ops ts it = Some it' \<and> ok it' \<and> rest it' = dropWhile (\<lambda>(k, v). ts < k) (whole it) \<and>
      whole it' = whole it"
begin

lemma inner_range_iterator: "row_iterator (InnerRange_ops ops) (rg_ok ok) (rg_rest rest) (rg_whole whole)"
proof
  fix it assume i: "rg_ok ok it"
  then have r: "ok (rg_root it)" by (simp add: rg_ok_def)
  show "op_Valid (InnerRange_ops ops) it \<longleftrightarrow> rg_rest rest it \<noteq> []"
    using valid_rest [OF r] at_rest [OF r]
    by (cases "rest (rg_root it)") (auto simp: InnerRange_ops_def rg_rest_def)
  obtain root where root: "op_SeekToFirst ops (rg_root it) = Some root" "ok root"
      "rest root = whole (rg_root it)" "whole root = whole (rg_root it)"
    using first_rest [OF r] by blast
  then show "\<exists>it'. op_SeekToFirst (InnerRange_ops ops) it = Some it' \<and> rg_ok ok it' \<and>
      rg_rest rest it' = rg_whole whole it \<and> rg_whole whole it' = rg_whole whole it"
    using seek_rest [OF root(2), of "rg_start it"]
    by (auto simp: InnerRange_ops_def rg_ok_def rg_rest_def rg_whole_def)
  fix p ps assume e: "rg_rest rest it = p # ps"
  then obtain qs where "rest (rg_root it) = p # qs"
      "ps = takeWhile (\<lambda>(k, v). k \<le> rg_start it \<and> k \<ge> rg_end it) qs"
    by (cases "rest (rg_root it)") (auto simp: rg_rest_def split: if_splits)
  then show "\<exists>it'. op_Next (InnerRange_ops ops) it = Some it' \<and> rg_ok ok it' \<and> rg_rest rest it' = ps \<and>
      rg_whole whole it' = rg_whole whole it"
    using next_rest [OF r] by (fastforce simp: InnerRange_ops_def rg_ok_def rg_rest_def rg_whole_def)
next
  fix it k v ps assume i: "rg_ok ok it" and e: "rg_rest rest it = (k, v) # ps"
  then obtain qs where "rest (rg_root it) = (k, v) # qs"
    by (cases "rest (rg_root it)") (auto simp: rg_rest_def split: if_splits)
  then show "op_GetKey (InnerRange_ops ops) it = Some k \<and> op_GetValue (InnerRange_ops ops) it = Some v"
    using at_rest i by (auto simp: InnerRange_ops_def rg_ok_def)
qed

end

text \<open>The request row before a list of rows.\<close>

lemma request_union_iterator:
  assumes "row_iterator ops ok rest whole"
  shows "row_iterator (RequestUnion_ops ops) (ru_ok ok rest whole) (ru_rest rest) (ru_whole whole)"
proof -
  note l = row_iterator.valid_rest [OF assms] row_iterator.next_rest [OF assms]
    row_iterator.at_rest [OF assms] row_iterator.first_rest [OF assms]
  show ?thesis
  proof
    fix it p ps assume "ru_ok ok rest whole it" "ru_rest rest it = p # ps"
    then show "\<exists>it'. op_Next (RequestUnion_ops ops) it = Some it' \<and> ru_ok ok rest whole it' \<and>
        ru_rest rest it' = ps \<and> ru_whole whole it' = ru_whole whole it"
      using l(2) [of "ru_window_iter it" p ps]
      by (cases "ru_window_iter_start it")
        (auto simp: RequestUnion_ops_def Let_def ru_ok_def ru_rest_def ru_whole_def)
  next
    fix it assume "ru_ok ok rest whole it"
    then show "\<exists>it'. op_SeekToFirst (RequestUnion_ops ops) it = Some it' \<and> ru_ok ok rest whole it' \<and>
        ru_rest rest it' = ru_whole whole it \<and> ru_whole whole it' = ru_whole whole it"
      using l(4) [of "ru_window_iter it"]
      by (auto simp: RequestUnion_ops_def Let_def ru_ok_def ru_rest_def ru_whole_def)
  qed (use l in \<open>auto simp: RequestUnion_ops_def Let_def ru_ok_def ru_rest_def split: if_splits\<close>)
qed

lemma request_union_seekable:
  assumes "seekable_iterator ops ok rest whole"
  shows "seekable_iterator (RequestUnion_ops ops) (ru_ok ok rest whole) (ru_rest rest) (ru_whole whole)"
proof -
  have r: "row_iterator ops ok rest whole" using assms by (simp add: seekable_iterator_def)
  note l = row_iterator.first_rest [OF r] seekable_iterator.seek_rest [OF assms]
  have "\<exists>it'. op_Seek (RequestUnion_ops ops) ts it = Some it' \<and> ru_ok ok rest whole it' \<and>
      ru_rest rest it' = dropWhile (\<lambda>(k, v). ts < k) (ru_whole whole it) \<and> ru_whole whole it' = ru_whole whole it"
    if "ru_ok ok rest whole it" for it ts
    using l(1) [of "ru_window_iter it"] l(2) [of "ru_window_iter it" ts] that
    by (cases "ru_request_ts it \<le> ts")
       (auto simp: RequestUnion_ops_def Let_def ru_ok_def ru_rest_def ru_whole_def)
  then show ?thesis
    using request_union_iterator [OF r] by (simp add: seekable_iterator_def seekable_iterator_axioms_def)
qed

end
