(* ===== verification/Mem_Catalog.thy ===== *)
theory Mem_Catalog
  imports Row_Iterators "HOL-Library.Multiset"
begin

text \<open>
  The in-memory tables of \<open>mem_catalog.h\<close> and \<open>mem_catalog.cc\<close>: time tables, row tables, partitions and
  their iterators. Names, schemas and index hints of a handler never change and are left out. The
  locale \<open>sorter\<close> says all that is used of \<open>std::sort\<close>, and \<open>segment_map\<close> what is used of the ordered
  map of segments.
\<close>

subsection \<open>Sorting\<close>

datatype OrderType = kDescOrder | kAscOrder | kNoneOrder

type_synonym MemTimeTable = "(u64 \<times> Row) list"

definition AscComparor :: "u64 \<times> Row \<Rightarrow> u64 \<times> Row \<Rightarrow> bool" where
  "AscComparor i j = (fst i < fst j)"

definition DescComparor :: "u64 \<times> Row \<Rightarrow> u64 \<times> Row \<Rightarrow> bool" where
  "DescComparor i j = (fst i > fst j)"

text \<open>\<open>std::sort\<close> leaves some permutation that is ordered by its comparator; this is one of them.\<close>

fun sort_ins :: "('a \<Rightarrow> 'a \<Rightarrow> bool) \<Rightarrow> 'a \<Rightarrow> 'a list \<Rightarrow> 'a list" where
  "sort_ins cmp x [] = [x]"
| "sort_ins cmp x (y # ys) = (if cmp y x then y # sort_ins cmp x ys else x # y # ys)"

definition std_sort :: "('a \<Rightarrow> 'a \<Rightarrow> bool) \<Rightarrow> 'a list \<Rightarrow> 'a list" where
  "std_sort cmp xs = foldr (sort_ins cmp) xs []"

text \<open>The requirement of the C++ library on a comparator.\<close>

definition strict_weak :: "('a \<Rightarrow> 'a \<Rightarrow> bool) \<Rightarrow> bool" where
  "strict_weak cmp \<longleftrightarrow> (\<forall>x y. cmp x y \<longrightarrow> \<not> cmp y x) \<and> (\<forall>x y z. \<not> cmp y x \<longrightarrow> \<not> cmp z y \<longrightarrow> \<not> cmp z x)"

locale sorter =
  fixes srt :: "('a \<Rightarrow> 'a \<Rightarrow> bool) \<Rightarrow> 'a list \<Rightarrow> 'a list"
  assumes srt_mset: "mset (srt cmp xs) = mset xs"
    and srt_sorted: "strict_weak cmp \<Longrightarrow> sorted_wrt (\<lambda>x y. \<not> cmp y x) (srt cmp xs)"
begin

lemma srt_set: "set (srt cmp xs) = set xs"
  using srt_mset [of cmp xs] by (rule mset_eq_setD)

lemma srt_length: "length (srt cmp xs) = length xs"
  using srt_mset [of cmp xs] by (rule mset_eq_length)

end

lemma sort_ins_mset: "mset (sort_ins cmp x ys) = add_mset x (mset ys)"
  by (induction ys) auto

lemma sort_ins_sorted:
  "strict_weak cmp \<Longrightarrow> sorted_wrt (\<lambda>x y. \<not> cmp y x) ys \<Longrightarrow> sorted_wrt (\<lambda>x y. \<not> cmp y x) (sort_ins cmp x ys)"
proof (induction ys)
  case (Cons y ys)
  have s: "set (sort_ins cmp x ys) = insert x (set ys)"
    using mset_eq_setD [of "sort_ins cmp x ys" "x # ys"] sort_ins_mset [of cmp x ys] by simp
  show ?case
  proof (cases "cmp y x")
    case True
    then have "\<not> cmp x y" using Cons.prems(1) unfolding strict_weak_def by blast
    then show ?thesis using True Cons s by simp
  next
    case False
    have "\<not> cmp z x" if "z \<in> set ys" for z
    proof -
      have "\<not> cmp z y" using that Cons.prems(2) by simp
      with False Cons.prems(1) show ?thesis unfolding strict_weak_def by blast
    qed
    then show ?thesis using False Cons.prems by simp
  qed
qed simp

interpretation st: sorter std_sort
proof
  fix cmp :: "'a \<Rightarrow> 'a \<Rightarrow> bool" and xs
  show "mset (std_sort cmp xs) = mset xs"
    by (induction xs) (simp_all add: std_sort_def sort_ins_mset)
  show "sorted_wrt (\<lambda>x y. \<not> cmp y x) (std_sort cmp xs)" if "strict_weak cmp"
    using that by (induction xs) (simp_all add: std_sort_def sort_ins_sorted)
qed

lemma comparors_strict_weak: "strict_weak AscComparor" "strict_weak DescComparor"
  by (auto simp: strict_weak_def AscComparor_def DescComparor_def)

subsection \<open>Time tables\<close>

record MemTimeTableHandler =
  mt_table :: MemTimeTable
  mt_order_type :: OrderType

definition MemTimeTableHandler_new :: MemTimeTableHandler where
  "MemTimeTableHandler_new = \<lparr>mt_table = [], mt_order_type = kNoneOrder\<rparr>"

definition mt_AddRow :: "u64 \<Rightarrow> Row \<Rightarrow> MemTimeTableHandler \<Rightarrow> MemTimeTableHandler" where
  "mt_AddRow key row h = h\<lparr>mt_table := mt_table h @ [(key, row)]\<rparr>"

definition mt_AddFrontRow :: "u64 \<Rightarrow> Row \<Rightarrow> MemTimeTableHandler \<Rightarrow> MemTimeTableHandler" where
  "mt_AddFrontRow key row h = h\<lparr>mt_table := (key, row) # mt_table h\<rparr>"

text \<open>Removing from an empty deque has no defined result.\<close>

definition pop_back :: "'a list \<Rightarrow> 'a list option" where
  "pop_back xs = (if xs = [] then None else Some (butlast xs))"

definition pop_front :: "'a list \<Rightarrow> 'a list option" where
  "pop_front xs = (case xs of [] \<Rightarrow> None | _ # ys \<Rightarrow> Some ys)"

definition mt_PopBackRow :: "MemTimeTableHandler \<Rightarrow> MemTimeTableHandler option" where
  "mt_PopBackRow h = map_option (\<lambda>t. h\<lparr>mt_table := t\<rparr>) (pop_back (mt_table h))"

definition mt_PopFrontRow :: "MemTimeTableHandler \<Rightarrow> MemTimeTableHandler option" where
  "mt_PopFrontRow h = map_option (\<lambda>t. h\<lparr>mt_table := t\<rparr>) (pop_front (mt_table h))"

definition mt_GetFrontRow :: "MemTimeTableHandler \<Rightarrow> (u64 \<times> Row) option" where
  "mt_GetFrontRow h = (case mt_table h of [] \<Rightarrow> None | p # _ \<Rightarrow> Some p)"

definition mt_GetBackRow :: "MemTimeTableHandler \<Rightarrow> (u64 \<times> Row) option" where
  "mt_GetBackRow h = (if mt_table h = [] then None else Some (last (mt_table h)))"

definition mt_Sort :: "bool \<Rightarrow> MemTimeTableHandler \<Rightarrow> MemTimeTableHandler" where
  "mt_Sort is_asc h =
     (if is_asc then h\<lparr>mt_table := std_sort AscComparor (mt_table h), mt_order_type := kAscOrder\<rparr>
      else h\<lparr>mt_table := std_sort DescComparor (mt_table h), mt_order_type := kDescOrder\<rparr>)"

definition reverse_order :: "OrderType \<Rightarrow> OrderType" where
  "reverse_order t = (if kAscOrder = t then kDescOrder else if kDescOrder = t then kAscOrder else kNoneOrder)"

definition mt_Reverse :: "MemTimeTableHandler \<Rightarrow> MemTimeTableHandler" where
  "mt_Reverse h = h\<lparr>mt_table := rev (mt_table h), mt_order_type := reverse_order (mt_order_type h)\<rparr>"

definition mt_GetCount :: "MemTimeTableHandler \<Rightarrow> u64" where
  "mt_GetCount h = of_nat (length (mt_table h))"

definition mt_At :: "MemTimeTableHandler \<Rightarrow> u64 \<Rightarrow> Row" where
  "mt_At h pos = (if unat pos < length (mt_table h) then snd (mt_table h ! unat pos) else Row_default)"

subsection \<open>The iterator of a time table\<close>

record MemTimeTableIterator =
  ti_table :: MemTimeTable
  ti_start :: nat
  ti_end :: nat
  ti_pos :: nat

definition MemTimeTableIterator_new :: "MemTimeTable \<Rightarrow> MemTimeTableIterator" where
  "MemTimeTableIterator_new table = \<lparr>ti_table = table, ti_start = 0, ti_end = length table, ti_pos = 0\<rparr>"

definition MemTimeTableIterator_range :: "MemTimeTable \<Rightarrow> nat \<Rightarrow> nat \<Rightarrow> MemTimeTableIterator" where
  "MemTimeTableIterator_range table start end' =
     \<lparr>ti_table = table, ti_start = start, ti_end = end', ti_pos = start\<rparr>"

text \<open>The loop of \<open>Seek\<close>, with \<open>n\<close> entries left before \<open>end_iter_\<close>.\<close>

fun ti_seek_from :: "MemTimeTable \<Rightarrow> u64 \<Rightarrow> nat \<Rightarrow> nat \<Rightarrow> nat option" where
  "ti_seek_from table ts 0 pos = Some pos"
| "ti_seek_from table ts (Suc n) pos = do {
     p \<leftarrow> vec_at table pos;
     if fst p \<le> ts then Some pos else ti_seek_from table ts n (Suc pos)
   }"

definition MemTimeTableIterator_ops :: "(MemTimeTableIterator, Row) iter_ops" where
  "MemTimeTableIterator_ops =
     \<lparr>op_Valid = (\<lambda>it. ti_end it > ti_pos it),
      op_Next = (\<lambda>it. if ti_pos it < length (ti_table it) then Some (it\<lparr>ti_pos := ti_pos it + 1\<rparr>) else None),
      op_GetKey = (\<lambda>it. map_option fst (vec_at (ti_table it) (ti_pos it))),
      op_GetValue = (\<lambda>it. map_option snd (vec_at (ti_table it) (ti_pos it))),
      op_Seek = (\<lambda>ts it. map_option (\<lambda>pos. it\<lparr>ti_pos := pos\<rparr>)
                   (ti_seek_from (ti_table it) ts (ti_end it - ti_start it) (ti_start it))),
      op_SeekToFirst = (\<lambda>it. Some (it\<lparr>ti_pos := ti_start it\<rparr>))\<rparr>"

definition ti_ok :: "MemTimeTableIterator \<Rightarrow> bool" where
  "ti_ok it \<longleftrightarrow> ti_start it \<le> ti_pos it \<and> ti_pos it \<le> ti_end it \<and> ti_end it \<le> length (ti_table it)"

definition ti_rest :: "MemTimeTableIterator \<Rightarrow> (u64 \<times> Row) list" where
  "ti_rest it = drop (ti_pos it) (take (ti_end it) (ti_table it))"

definition ti_whole :: "MemTimeTableIterator \<Rightarrow> (u64 \<times> Row) list" where
  "ti_whole it = drop (ti_start it) (take (ti_end it) (ti_table it))"

lemma drop_nth_Cons: "i < length xs \<Longrightarrow> drop i xs = xs ! i # drop (Suc i) xs"
  by (simp add: Cons_nth_drop_Suc)

lemma ti_seek_from_rest:
  assumes "pos + n \<le> length table"
  shows "\<exists>q. ti_seek_from table ts n pos = Some q \<and> pos \<le> q \<and> q \<le> pos + n \<and>
    drop q (take (pos + n) table) = dropWhile (\<lambda>(k, v). ts < k) (drop pos (take (pos + n) table))"
  using assms
proof (induction n arbitrary: pos)
  case (Suc n)
  have d: "drop pos (take (pos + Suc n) table) = table ! pos # drop (Suc pos) (take (Suc pos + n) table)"
    using Suc.prems by (subst drop_nth_Cons) simp_all
  show ?case
  proof (cases "fst (table ! pos) \<le> ts")
    case True
    then show ?thesis using Suc.prems d by (auto simp: vec_at_def not_less split: prod.splits)
  next
    case False
    then show ?thesis
      using Suc.prems d Suc.IH [of "Suc pos"] by (auto simp: vec_at_def split: prod.splits)
  qed
qed simp

lemma drop_take_Cons:
  assumes "drop i (take e xs) = p # ps" and "e \<le> length xs"
  shows "i < e" and "xs ! i = p" and "drop (Suc i) (take e xs) = ps"
proof -
  show l: "i < e"
  proof (rule ccontr)
    assume "\<not> i < e"
    then have "drop i (take e xs) = []" by simp
    with assms(1) show False by simp
  qed
  have "drop i (take e xs) = take e xs ! i # drop (Suc i) (take e xs)"
    using l assms(2) by (intro drop_nth_Cons) simp
  then show "xs ! i = p" "drop (Suc i) (take e xs) = ps" using assms(1) l by simp_all
qed

interpretation ti: seekable_iterator MemTimeTableIterator_ops ti_ok ti_rest ti_whole
proof
  fix it assume i: "ti_ok it"
  show "op_Valid MemTimeTableIterator_ops it \<longleftrightarrow> ti_rest it \<noteq> []"
    using i by (simp add: MemTimeTableIterator_ops_def ti_ok_def ti_rest_def not_le)
  show "\<exists>it'. op_SeekToFirst MemTimeTableIterator_ops it = Some it' \<and> ti_ok it' \<and> ti_rest it' = ti_whole it \<and>
      ti_whole it' = ti_whole it"
    using i by (simp add: MemTimeTableIterator_ops_def ti_ok_def ti_rest_def ti_whole_def)
  show "\<exists>it'. op_Seek MemTimeTableIterator_ops ts it = Some it' \<and> ti_ok it' \<and>
      ti_rest it' = dropWhile (\<lambda>(k, v). ts < k) (ti_whole it) \<and> ti_whole it' = ti_whole it" for ts
    using i ti_seek_from_rest [of "ti_start it" "ti_end it - ti_start it" "ti_table it" ts]
    by (auto simp: MemTimeTableIterator_ops_def ti_ok_def ti_rest_def ti_whole_def)
  fix p ps assume e: "ti_rest it = p # ps"
  have "ti_end it \<le> length (ti_table it)" using i by (simp add: ti_ok_def)
  note d = drop_take_Cons [OF e [unfolded ti_rest_def] this]
  show "\<exists>it'. op_Next MemTimeTableIterator_ops it = Some it' \<and> ti_ok it' \<and> ti_rest it' = ps \<and> ti_whole it' = ti_whole it"
    using i d by (simp add: MemTimeTableIterator_ops_def ti_ok_def ti_rest_def ti_whole_def)
next
  fix it k v ps assume i: "ti_ok it" and e: "ti_rest it = (k, v) # ps"
  have "ti_end it \<le> length (ti_table it)" using i by (simp add: ti_ok_def)
  from drop_take_Cons [OF e [unfolded ti_rest_def] this] i
  show "op_GetKey MemTimeTableIterator_ops it = Some k \<and> op_GetValue MemTimeTableIterator_ops it = Some v"
    by (simp add: MemTimeTableIterator_ops_def ti_ok_def vec_at_def)
qed

lemma ti_new: "ti_ok (MemTimeTableIterator_new t)" "ti_rest (MemTimeTableIterator_new t) = t"
  "ti_whole (MemTimeTableIterator_new t) = t"
  by (simp_all add: MemTimeTableIterator_new_def ti_ok_def ti_rest_def ti_whole_def)

subsection \<open>Row tables\<close>

record MemTableHandler =
  tb_table :: "Row list"
  tb_order_type :: OrderType

definition MemTableHandler_new :: MemTableHandler where
  "MemTableHandler_new = \<lparr>tb_table = [], tb_order_type = kNoneOrder\<rparr>"

definition tb_AddRow :: "Row \<Rightarrow> MemTableHandler \<Rightarrow> MemTableHandler" where
  "tb_AddRow row h = h\<lparr>tb_table := tb_table h @ [row]\<rparr>"

definition tb_Resize :: "nat \<Rightarrow> MemTableHandler \<Rightarrow> MemTableHandler" where
  "tb_Resize sz h = h\<lparr>tb_table := take sz (tb_table h) @ replicate (sz - length (tb_table h)) Row_default\<rparr>"

definition tb_SetRow :: "nat \<Rightarrow> Row \<Rightarrow> MemTableHandler \<Rightarrow> bool \<times> MemTableHandler" where
  "tb_SetRow idx row h =
     (if idx \<ge> length (tb_table h) then (False, h) else (True, h\<lparr>tb_table := (tb_table h)[idx := row]\<rparr>))"

definition tb_Reverse :: "MemTableHandler \<Rightarrow> MemTableHandler" where
  "tb_Reverse h = h\<lparr>tb_table := rev (tb_table h), tb_order_type := reverse_order (tb_order_type h)\<rparr>"

definition tb_GetCount :: "MemTableHandler \<Rightarrow> u64" where
  "tb_GetCount h = of_nat (length (tb_table h))"

definition tb_At :: "MemTableHandler \<Rightarrow> u64 \<Rightarrow> Row" where
  "tb_At h pos = (if unat pos < length (tb_table h) then tb_table h ! unat pos else Row_default)"

record MemTableIterator =
  bi_table :: "Row list"
  bi_start :: nat
  bi_end :: nat
  bi_pos :: nat
  bi_key :: u64

definition MemTableIterator_new :: "Row list \<Rightarrow> MemTableIterator" where
  "MemTableIterator_new table =
     \<lparr>bi_table = table, bi_start = 0, bi_end = length table, bi_pos = 0, bi_key = 0\<rparr>"

definition MemTableIterator_range :: "Row list \<Rightarrow> nat \<Rightarrow> nat \<Rightarrow> MemTableIterator" where
  "MemTableIterator_range table start end' =
     \<lparr>bi_table = table, bi_start = start, bi_end = end', bi_pos = start, bi_key = 0\<rparr>"

text \<open>\<open>Seek\<close> takes its key as a position: beyond the vector's end the iterator has no defined value.\<close>

definition MemTableIterator_ops :: "(MemTableIterator, Row) iter_ops" where
  "MemTableIterator_ops =
     \<lparr>op_Valid = (\<lambda>it. bi_end it > bi_pos it),
      op_Next = (\<lambda>it. if bi_pos it < length (bi_table it)
                      then Some (it\<lparr>bi_pos := bi_pos it + 1, bi_key := bi_key it + 1\<rparr>) else None),
      op_GetKey = (\<lambda>it. Some (bi_key it)),
      op_GetValue = (\<lambda>it. vec_at (bi_table it) (bi_pos it)),
      op_Seek = (\<lambda>ts it. if bi_start it + unat ts \<le> length (bi_table it)
                         then Some (it\<lparr>bi_pos := bi_start it + unat ts, bi_key := ts\<rparr>) else None),
      op_SeekToFirst = (\<lambda>it. Some (it\<lparr>bi_pos := bi_start it, bi_key := 0\<rparr>))\<rparr>"

definition bi_ok :: "MemTableIterator \<Rightarrow> bool" where
  "bi_ok it \<longleftrightarrow> bi_start it \<le> bi_pos it \<and> bi_pos it \<le> bi_end it \<and> bi_end it \<le> length (bi_table it) \<and>
     bi_key it = of_nat (bi_pos it - bi_start it)"

text \<open>The entries of a row table are its rows with their positions as keys.\<close>

definition bi_entries :: "MemTableIterator \<Rightarrow> nat \<Rightarrow> (u64 \<times> Row) list" where
  "bi_entries it i = map (\<lambda>p. (of_nat (p - bi_start it), bi_table it ! p)) [i..<bi_end it]"

interpretation bi: row_iterator MemTableIterator_ops bi_ok "\<lambda>it. bi_entries it (bi_pos it)" "\<lambda>it. bi_entries it (bi_start it)"
proof
  fix it assume i: "bi_ok it"
  show "op_Valid MemTableIterator_ops it \<longleftrightarrow> bi_entries it (bi_pos it) \<noteq> []"
    by (auto simp: MemTableIterator_ops_def bi_entries_def not_le)
  show "\<exists>it'. op_SeekToFirst MemTableIterator_ops it = Some it' \<and> bi_ok it' \<and>
      bi_entries it' (bi_pos it') = bi_entries it (bi_start it) \<and> bi_entries it' (bi_start it') = bi_entries it (bi_start it)"
    using i by (simp add: MemTableIterator_ops_def bi_ok_def bi_entries_def)
  fix p ps assume "bi_entries it (bi_pos it) = p # ps"
  moreover from this have "bi_pos it < bi_end it" by (auto simp: bi_entries_def upt_eq_Cons_conv map_eq_Cons_conv)
  ultimately show "\<exists>it'. op_Next MemTableIterator_ops it = Some it' \<and> bi_ok it' \<and> bi_entries it' (bi_pos it') = ps \<and>
      bi_entries it' (bi_start it') = bi_entries it (bi_start it)"
    using i by (auto simp: MemTableIterator_ops_def bi_ok_def bi_entries_def upt_conv_Cons Suc_diff_le add.commute)
next
  fix it k v ps assume i: "bi_ok it" and e: "bi_entries it (bi_pos it) = (k, v) # ps"
  moreover from e have "bi_pos it < bi_end it" by (auto simp: bi_entries_def upt_eq_Cons_conv map_eq_Cons_conv)
  ultimately show "op_GetKey MemTableIterator_ops it = Some k \<and> op_GetValue MemTableIterator_ops it = Some v"
    by (auto simp: MemTableIterator_ops_def bi_ok_def bi_entries_def upt_conv_Cons vec_at_def)
qed

subsection \<open>Partitions\<close>

type_synonym MemSegmentMap = "(byte list \<times> MemTimeTable) list"

text \<open>\<open>std::map\<close> with \<open>std::greater\<close>: the segments in descending order of their keys.\<close>

fun seg_find :: "byte list \<Rightarrow> MemSegmentMap \<Rightarrow> MemTimeTable option" where
  "seg_find key [] = None"
| "seg_find key ((k, t) # ps) = (if k = key then Some t else seg_find key ps)"

fun seg_put :: "byte list \<Rightarrow> MemTimeTable \<Rightarrow> MemSegmentMap \<Rightarrow> MemSegmentMap" where
  "seg_put key t [] = [(key, t)]"
| "seg_put key t ((k, u) # ps) =
     (if key > k then (key, t) # (k, u) # ps
      else if key = k then (key, t) # ps else (k, u) # seg_put key t ps)"

record MemPartitionHandler =
  mp_partitions :: MemSegmentMap
  mp_order_type :: OrderType

definition MemPartitionHandler_new :: MemPartitionHandler where
  "MemPartitionHandler_new = \<lparr>mp_partitions = [], mp_order_type = kNoneOrder\<rparr>"

definition mp_AddRow :: "byte list \<Rightarrow> u64 \<Rightarrow> Row \<Rightarrow> MemPartitionHandler \<Rightarrow> bool \<times> MemPartitionHandler" where
  "mp_AddRow key ts row h =
     (True,
      case seg_find key (mp_partitions h) of
        None \<Rightarrow> h\<lparr>mp_partitions := seg_put key [(ts, row)] (mp_partitions h)\<rparr>
      | Some t \<Rightarrow> h\<lparr>mp_partitions := seg_put key (t @ [(ts, row)]) (mp_partitions h)\<rparr>)"

definition mp_Sort :: "bool \<Rightarrow> MemPartitionHandler \<Rightarrow> MemPartitionHandler" where
  "mp_Sort is_asc h =
     (if is_asc
      then h\<lparr>mp_partitions := map (\<lambda>(k, t). (k, std_sort AscComparor t)) (mp_partitions h),
             mp_order_type := kAscOrder\<rparr>
      else h\<lparr>mp_partitions := map (\<lambda>(k, t). (k, std_sort DescComparor t)) (mp_partitions h),
             mp_order_type := kDescOrder\<rparr>)"

definition mp_Reverse :: "MemPartitionHandler \<Rightarrow> MemPartitionHandler" where
  "mp_Reverse h =
     h\<lparr>mp_partitions := map (\<lambda>(k, t). (k, rev t)) (mp_partitions h),
       mp_order_type := reverse_order (mp_order_type h)\<rparr>"

definition mp_GetCount :: "MemPartitionHandler \<Rightarrow> u64" where
  "mp_GetCount h = of_nat (length (mp_partitions h))"

text \<open>The iterator over the segments, a position with the end as the number of segments.\<close>

record MemWindowIterator =
  wi_partitions :: MemSegmentMap
  wi_pos :: nat

definition MemWindowIterator_new :: "MemSegmentMap \<Rightarrow> MemWindowIterator" where
  "MemWindowIterator_new ps = \<lparr>wi_partitions = ps, wi_pos = 0\<rparr>"

fun seg_index :: "byte list \<Rightarrow> MemSegmentMap \<Rightarrow> nat" where
  "seg_index key [] = 0"
| "seg_index key ((k, t) # ps) = (if k = key then 0 else Suc (seg_index key ps))"

definition wi_Seek :: "byte list \<Rightarrow> MemWindowIterator \<Rightarrow> MemWindowIterator" where
  "wi_Seek key it = it\<lparr>wi_pos := seg_index key (wi_partitions it)\<rparr>"

definition wi_SeekToFirst :: "MemWindowIterator \<Rightarrow> MemWindowIterator" where
  "wi_SeekToFirst it = it\<lparr>wi_pos := 0\<rparr>"

definition wi_Next :: "MemWindowIterator \<Rightarrow> MemWindowIterator option" where
  "wi_Next it = (if wi_pos it < length (wi_partitions it) then Some (it\<lparr>wi_pos := wi_pos it + 1\<rparr>) else None)"

definition wi_Valid :: "MemWindowIterator \<Rightarrow> bool" where
  "wi_Valid it = (length (wi_partitions it) \<noteq> wi_pos it)"

definition wi_GetValue :: "MemWindowIterator \<Rightarrow> MemTimeTableIterator option" where
  "wi_GetValue it = map_option (\<lambda>p. MemTimeTableIterator_new (snd p)) (vec_at (wi_partitions it) (wi_pos it))"

definition wi_GetKey :: "MemWindowIterator \<Rightarrow> Row option" where
  "wi_GetKey it = map_option (\<lambda>p. Row_of_slice (slice_of (fst p))) (vec_at (wi_partitions it) (wi_pos it))"

text \<open>A segment: the handler of a partition and a key. The outer \<open>None\<close> is no defined result, the inner
  a null iterator.\<close>

definition sg_GetIterator :: "MemPartitionHandler \<Rightarrow> byte list \<Rightarrow> MemTimeTableIterator option option" where
  "sg_GetIterator h key =
     (let iter = wi_Seek key (MemWindowIterator_new (mp_partitions h)) in
      if wi_Valid iter then map_option Some (wi_GetValue iter) else Some None)"

definition sg_GetCount :: "MemPartitionHandler \<Rightarrow> byte list \<Rightarrow> u64 option" where
  "sg_GetCount h key = do {
     it \<leftarrow> sg_GetIterator h key;
     case it of None \<Rightarrow> Some 0
     | Some iter \<Rightarrow> do {
         iter' \<leftarrow> op_SeekToFirst MemTimeTableIterator_ops iter;
         ListV_GetCount MemTimeTableIterator_ops iter' 0
       }
   }"

definition sg_At :: "MemPartitionHandler \<Rightarrow> byte list \<Rightarrow> u64 \<Rightarrow> Row option" where
  "sg_At h key pos = do {
     it \<leftarrow> sg_GetIterator h key;
     case it of None \<Rightarrow> Some Row_default
     | Some iter \<Rightarrow> do {
         iter' \<leftarrow> op_SeekToFirst MemTimeTableIterator_ops iter;
         ListV_At MemTimeTableIterator_ops Row_default iter' pos
       }
   }"

subsection \<open>Concatenated tables\<close>

text \<open>\<open>ConcatTableHandler\<close>: \<open>left\<close> and \<open>right\<close> are the iterators of the two tables, \<open>None\<close> where the table
  or its iterator is null. The table is filled on the first access, while the status is running.\<close>

record ConcatTableHandler =
  ct_running :: bool
  ct_base :: MemTimeTableHandler

definition ConcatTableHandler_new :: ConcatTableHandler where
  "ConcatTableHandler_new = \<lparr>ct_running = True, ct_base = MemTimeTableHandler_new\<rparr>"

definition concat_body :: "('r, Row) iter_ops \<Rightarrow> nat \<Rightarrow> nat \<Rightarrow> u64 \<Rightarrow> Row
    \<Rightarrow> 'r option \<times> MemTimeTableHandler \<Rightarrow> ('r option \<times> MemTimeTableHandler) option" where
  "concat_body rops left_slices right_slices key row s =
     (case s of (right_iter, h) \<Rightarrow>
       if (case right_iter of None \<Rightarrow> True | Some r \<Rightarrow> \<not> op_Valid rops r)
       then do {
         j \<leftarrow> Row_concat left_slices row right_slices Row_default;
         Some (right_iter, mt_AddRow key j h)
       }
       else do {
         r \<leftarrow> right_iter;
         v \<leftarrow> op_GetValue rops r;
         j \<leftarrow> Row_concat left_slices row right_slices v;
         r' \<leftarrow> op_Next rops r;
         Some (Some r', mt_AddRow key j h)
       })"

definition ct_SyncValue :: "('l, Row) iter_ops \<Rightarrow> ('r, Row) iter_ops \<Rightarrow> nat \<Rightarrow> nat \<Rightarrow> 'l option \<Rightarrow> 'r option
    \<Rightarrow> MemTimeTableHandler \<Rightarrow> MemTimeTableHandler option" where
  "ct_SyncValue lops rops left_slices right_slices left right h =
     (case left of None \<Rightarrow> Some h
      | Some l \<Rightarrow> do {
          l' \<leftarrow> op_SeekToFirst lops l;
          (r, h') \<leftarrow> iter_loop lops (concat_body rops left_slices right_slices) l' (right, h);
          Some h'
        })"

definition ct_sync :: "('l, Row) iter_ops \<Rightarrow> ('r, Row) iter_ops \<Rightarrow> nat \<Rightarrow> nat \<Rightarrow> 'l option \<Rightarrow> 'r option
    \<Rightarrow> ConcatTableHandler \<Rightarrow> ConcatTableHandler option" where
  "ct_sync lops rops left_slices right_slices left right c =
     (if \<not> ct_running c then Some c
      else map_option (\<lambda>h. \<lparr>ct_running = False, ct_base = h\<rparr>)
             (ct_SyncValue lops rops left_slices right_slices left right (ct_base c)))"

definition ct_At :: "('l, Row) iter_ops \<Rightarrow> ('r, Row) iter_ops \<Rightarrow> nat \<Rightarrow> nat \<Rightarrow> 'l option \<Rightarrow> 'r option
    \<Rightarrow> u64 \<Rightarrow> ConcatTableHandler \<Rightarrow> (Row \<times> ConcatTableHandler) option" where
  "ct_At lops rops left_slices right_slices left right pos c =
     map_option (\<lambda>c'. (mt_At (ct_base c') pos, c')) (ct_sync lops rops left_slices right_slices left right c)"

definition ct_GetCount :: "('l, Row) iter_ops \<Rightarrow> ('r, Row) iter_ops \<Rightarrow> nat \<Rightarrow> nat \<Rightarrow> 'l option \<Rightarrow> 'r option
    \<Rightarrow> ConcatTableHandler \<Rightarrow> (u64 \<times> ConcatTableHandler) option" where
  "ct_GetCount lops rops left_slices right_slices left right c =
     map_option (\<lambda>c'. (mt_GetCount (ct_base c'), c')) (ct_sync lops rops left_slices right_slices left right c)"

definition ct_GetIterator :: "('l, Row) iter_ops \<Rightarrow> ('r, Row) iter_ops \<Rightarrow> nat \<Rightarrow> nat \<Rightarrow> 'l option \<Rightarrow> 'r option
    \<Rightarrow> ConcatTableHandler \<Rightarrow> (MemTimeTableIterator \<times> ConcatTableHandler) option" where
  "ct_GetIterator lops rops left_slices right_slices left right c =
     map_option (\<lambda>c'. (MemTimeTableIterator_new (mt_table (ct_base c')), c'))
       (ct_sync lops rops left_slices right_slices left right c)"

text \<open>What it holds: the rows side by side, the right one empty once the right table has ended.\<close>

fun concat_spec :: "nat \<Rightarrow> nat \<Rightarrow> MemTimeTable \<Rightarrow> Row list \<Rightarrow> MemTimeTable" where
  "concat_spec m n [] rs = []"
| "concat_spec m n ((k, l) # ls) rs =
     (k, the (Row_concat m l n (case rs of [] \<Rightarrow> Row_default | r # _ \<Rightarrow> r))) # concat_spec m n ls (drop 1 rs)"

lemma concat_spec_length [simp]: "length (concat_spec m n ls rs) = length ls"
  by (induction m n ls rs rule: concat_spec.induct) simp_all

lemma concat_spec_nth:
  "i < length ls \<Longrightarrow> concat_spec m n ls rs ! i =
     (fst (ls ! i), the (Row_concat m (snd (ls ! i)) n (if i < length rs then rs ! i else Row_default)))"
proof (induction m n ls rs arbitrary: i rule: concat_spec.induct)
  case (2 m n k l ls rs)
  then show ?case by (cases i; cases rs) auto
qed simp

lemma Row_concat_some:
  assumes "0 < m" and "0 < n"
  obtains j where "Row_concat m l n r = Some j"
  using assms by (simp add: Row_concat_def)

text \<open>Iterators whose values are rows.\<close>

locale rows_iterator = row_iterator ops ok rest whole
  for ops :: "('it, Row) iter_ops" and ok and rest and whole
begin

lemma concat_body_fold:
  assumes "0 < m" and "0 < n"
  shows "(case r of None \<Rightarrow> rs = [] | Some r' \<Rightarrow> ok r' \<and> map snd (rest r') = rs) \<Longrightarrow>
    \<exists>r'. fold_opt (\<lambda>(k, v). concat_body ops m n k v) ls (r, h) =
      Some (r', h\<lparr>mt_table := mt_table h @ concat_spec m n ls rs\<rparr>)"
proof (induction ls arbitrary: r rs h)
  case (Cons p ls)
  obtain k l where p: "p = (k, l)" by force
  show ?case
  proof (cases "rs = []")
    case True
    then have "case r of None \<Rightarrow> True | Some r' \<Rightarrow> \<not> op_Valid ops r'"
      using Cons.prems by (auto simp: valid_rest split: option.splits)
    moreover obtain j where j: "Row_concat m l n Row_default = Some j" using assms by (rule Row_concat_some)
    ultimately have b: "concat_body ops m n k l (r, h) = Some (r, mt_AddRow k j h)"
      by (simp add: concat_body_def)
    obtain r' where "fold_opt (\<lambda>(k, v). concat_body ops m n k v) ls (r, mt_AddRow k j h) =
        Some (r', (mt_AddRow k j h)\<lparr>mt_table := mt_table (mt_AddRow k j h) @ concat_spec m n ls []\<rparr>)"
      using Cons.IH [of "[]" r] Cons.prems True by blast
    then show ?thesis using b j p True by (simp add: mt_AddRow_def)
  next
    case False
    then obtain r0 where r: "r = Some r0" and ok: "ok r0" and rs: "map snd (rest r0) = rs"
      using Cons.prems by (auto split: option.splits)
    with False obtain q qs where q: "rest r0 = q # qs" by (cases "rest r0") auto
    obtain r1 where r1: "op_Next ops r0 = Some r1" "ok r1" "rest r1 = qs"
      using next_rest [OF ok q] by auto
    have v: "op_GetValue ops r0 = Some (snd q)" using at_rest [OF ok] q by (cases q) simp
    obtain j where j: "Row_concat m l n (snd q) = Some j" using assms by (rule Row_concat_some)
    have b: "concat_body ops m n k l (r, h) = Some (Some r1, mt_AddRow k j h)"
      using r r1(1) v j ok q by (simp add: concat_body_def valid_rest)
    obtain r' where "fold_opt (\<lambda>(k, v). concat_body ops m n k v) ls (Some r1, mt_AddRow k j h) =
        Some (r', (mt_AddRow k j h)\<lparr>mt_table := mt_table (mt_AddRow k j h) @ concat_spec m n ls (map snd qs)\<rparr>)"
      using Cons.IH [of "map snd qs" "Some r1"] r1 by auto
    then show ?thesis using b j p q rs by (auto simp: mt_AddRow_def)
  qed
qed simp

end

interpretation tr: rows_iterator MemTimeTableIterator_ops ti_ok ti_rest ti_whole
  by unfold_locales

interpretation br: rows_iterator MemTableIterator_ops bi_ok "\<lambda>it. bi_entries it (bi_pos it)" "\<lambda>it. bi_entries it (bi_start it)"
  by unfold_locales

interpretation ui: seekable_iterator "RequestUnion_ops MemTimeTableIterator_ops" "ru_ok ti_ok ti_rest ti_whole"
  "ru_rest ti_rest" "ru_whole ti_whole"
  by (rule request_union_seekable) unfold_locales

interpretation ri: row_iterator "InnerRows_ops MemTimeTableIterator_ops" "ir_inv ti_ok ti_rest" "ir_rest ti_rest" "ir_whole ti_whole"
  by (rule ti.inner_rows_iterator)

interpretation gi: row_iterator "InnerRange_ops MemTimeTableIterator_ops" "rg_ok ti_ok" "rg_rest ti_rest" "rg_whole ti_whole"
  by (rule ti.inner_range_iterator)

text \<open>\<open>RequestUnionTableHandler::GetRawIterator\<close>: null where the window has no iterator.\<close>

definition RequestUnionTable_GetRawIterator :: "u64 \<Rightarrow> Row \<Rightarrow> 'it option \<Rightarrow> 'it RequestUnionIterator option" where
  "RequestUnionTable_GetRawIterator request_ts request_row window_iter =
     (case window_iter of None \<Rightarrow> None | Some w \<Rightarrow> Some (RequestUnionIterator_new request_ts request_row w))"

subsection \<open>The map of segments\<close>

locale segment_map =
  fixes find :: "'k \<Rightarrow> 'm \<Rightarrow> 'v list option" and put :: "'k \<Rightarrow> 'v list \<Rightarrow> 'm \<Rightarrow> 'm"
    and empty :: 'm and wf :: "'m \<Rightarrow> bool"
  assumes find_empty: "find k empty = None" and wf_empty: "wf empty"
    and find_put: "wf m \<Longrightarrow> find k (put k' t m) = (if k = k' then Some t else find k m)"
    and wf_put: "wf m \<Longrightarrow> wf (put k t m)"
begin

text \<open>Appending an entry to the segment of its key, and any number of entries in turn.\<close>

lemma append_all:
  assumes "\<And>p m. add p m = put (fst p) ((case find (fst p) m of None \<Rightarrow> [] | Some t \<Rightarrow> t) @ [snd p]) m"
  shows "wf m \<Longrightarrow> wf (fold add ps m) \<and>
    find k (fold add ps m) =
      (case filter (\<lambda>p. fst p = k) ps of [] \<Rightarrow> find k m
       | qs \<Rightarrow> Some ((case find k m of None \<Rightarrow> [] | Some t \<Rightarrow> t) @ map snd qs))"
proof (induction ps arbitrary: m)
  case (Cons p ps)
  have "wf (add p m)" by (simp add: assms wf_put Cons.prems)
  from Cons.IH [OF this] show ?case
    by (auto simp: assms find_put Cons.prems split: list.splits option.splits)
qed simp

end

definition seg_sorted :: "MemSegmentMap \<Rightarrow> bool" where
  "seg_sorted = sorted_wrt (\<lambda>p q. fst p > fst q)"

lemma seg_find_none: "seg_find k ps = None \<longleftrightarrow> k \<notin> fst ` set ps"
  by (induction k ps rule: seg_find.induct) auto

lemma seg_put_fst: "fst ` set (seg_put k t ps) = insert k (fst ` set ps)"
  by (induction k t ps rule: seg_put.induct) auto

lemma seg_sorted_Cons: "seg_sorted ((k, t) # ps) \<longleftrightarrow> (\<forall>q \<in> fst ` set ps. q < k) \<and> seg_sorted ps"
  by (simp add: seg_sorted_def)

lemma seg_find_put: "seg_sorted m \<Longrightarrow> seg_find k (seg_put k' t m) = (if k = k' then Some t else seg_find k m)"
proof (induction k' t m rule: seg_put.induct)
  case (2 key t u l ps)
  consider "u < key" | "key = u" | "\<not> u < key" "key \<noteq> u" by blast
  then show ?case
  proof cases
    case 3
    then have "seg_find k (seg_put key t ps) = (if k = key then Some t else seg_find k ps)"
      using 2 by (simp add: seg_sorted_Cons)
    with 3 show ?thesis by auto
  qed simp_all
qed simp

lemma seg_sorted_put: "seg_sorted m \<Longrightarrow> seg_sorted (seg_put k t m)"
proof (induction k t m rule: seg_put.induct)
  case (2 key t u l ps)
  have s: "\<forall>q \<in> fst ` set ps. q < u" "seg_sorted ps" using 2(2) by (simp_all add: seg_sorted_Cons)
  consider "u < key" | "key = u" | "key < u" by (rule linorder_cases)
  then show ?case
  proof cases
    case 1
    then have "\<forall>q \<in> fst ` set ps. q < key" using s(1) by (meson order.strict_trans)
    then show ?thesis using 1 s by (simp add: seg_sorted_Cons)
  next
    case 2
    then show ?thesis using s by (simp add: seg_sorted_Cons)
  next
    case 3
    then have "seg_sorted (seg_put key t ps)" using 2(1) s by simp
    moreover have "\<forall>q \<in> fst ` set (seg_put key t ps). q < u" using 3 s(1) by (simp add: seg_put_fst)
    moreover have "\<not> u < key" "key \<noteq> u" using 3 by auto
    ultimately show ?thesis by (simp add: seg_sorted_Cons)
  qed
qed (simp add: seg_sorted_def)

interpretation sm: segment_map seg_find seg_put "[]" seg_sorted
  by unfold_locales (simp_all add: seg_find_put seg_sorted_put, simp add: seg_sorted_def)

lemma seg_index_find:
  "vec_at m (seg_index k m) = map_option (\<lambda>t. (k, t)) (seg_find k m)"
  "seg_index k m = length m \<longleftrightarrow> seg_find k m = None"
  by (induction k m rule: seg_find.induct) (auto simp: vec_at_def)

lemma sg_GetIterator_find:
  "sg_GetIterator h key = Some (map_option MemTimeTableIterator_new (seg_find key (mp_partitions h)))"
  using seg_index_find(1) [of "mp_partitions h" key] seg_index_find(2) [of key "mp_partitions h"]
  by (cases "seg_find key (mp_partitions h)")
    (simp_all add: sg_GetIterator_def wi_Seek_def MemWindowIterator_new_def wi_Valid_def wi_GetValue_def)

lemma ti_new_first: "op_SeekToFirst MemTimeTableIterator_ops (MemTimeTableIterator_new t) = Some (MemTimeTableIterator_new t)"
  by (simp add: MemTimeTableIterator_ops_def MemTimeTableIterator_new_def)

definition seg_rows :: "byte list \<Rightarrow> MemPartitionHandler \<Rightarrow> MemTimeTable" where
  "seg_rows key h = (case seg_find key (mp_partitions h) of None \<Rightarrow> [] | Some t \<Rightarrow> t)"

lemma sg_access:
  "sg_GetCount h key = Some (of_nat (length (seg_rows key h)))"
  "sg_At h key pos = Some (if unat pos < length (seg_rows key h) then snd (seg_rows key h ! unat pos) else Row_default)"
  by (auto simp: sg_GetCount_def sg_At_def sg_GetIterator_find seg_rows_def ti_new_first
      ti.GetCount_rest ti.At_rest ti_new split: option.splits)

lemma mp_AddRow_put:
  "mp_partitions (snd (mp_AddRow key ts row h)) =
     seg_put key ((case seg_find key (mp_partitions h) of None \<Rightarrow> [] | Some t \<Rightarrow> t) @ [(ts, row)]) (mp_partitions h)"
  by (simp add: mp_AddRow_def split: option.splits)

definition mp_AddRows :: "(byte list \<times> u64 \<times> Row) list \<Rightarrow> MemPartitionHandler \<Rightarrow> MemPartitionHandler" where
  "mp_AddRows ps h = fold (\<lambda>(key, ts, row) h. snd (mp_AddRow key ts row h)) ps h"

lemma mp_AddRows_fold:
  "mp_partitions (mp_AddRows ps h) =
     fold (\<lambda>p m. seg_put (fst p) ((case seg_find (fst p) m of None \<Rightarrow> [] | Some t \<Rightarrow> t) @ [snd p]) m) ps (mp_partitions h)"
  by (induction ps arbitrary: h) (auto simp: mp_AddRows_def mp_AddRow_put)

lemma mp_AddRows_rows:
  assumes "seg_sorted (mp_partitions h)"
  shows "seg_sorted (mp_partitions (mp_AddRows ps h))"
    and "seg_rows key (mp_AddRows ps h) = seg_rows key h @ map snd (filter (\<lambda>p. fst p = key) ps)"
  using sm.append_all [OF refl assms, of ps key]
  by (auto simp: mp_AddRows_fold seg_rows_def split: list.splits option.splits)

lemma seg_find_map: "seg_find key (map (\<lambda>(k, t). (k, f t)) m) = map_option f (seg_find key m)"
  by (induction key m rule: seg_find.induct) auto

lemma seg_sorted_map: "seg_sorted (map (\<lambda>(k, t). (k, f t)) m) = seg_sorted m"
  by (simp add: seg_sorted_def sorted_wrt_map case_prod_unfold)

lemma mp_Sort_rows: "seg_rows key (mp_Sort asc h) = std_sort (if asc then AscComparor else DescComparor) (seg_rows key h)"
  by (auto simp: mp_Sort_def seg_rows_def seg_find_map std_sort_def split: option.splits)

lemma mp_Reverse_rows: "seg_rows key (mp_Reverse h) = rev (seg_rows key h)"
  by (auto simp: mp_Reverse_def seg_rows_def seg_find_map split: option.splits)

lemma std_sort_asc: "sorted (map fst (std_sort AscComparor t))"
  using st.srt_sorted [OF comparors_strict_weak(1), of t] by (simp add: AscComparor_def sorted_map not_less)

lemma std_sort_desc: "sorted (rev (map fst (std_sort DescComparor t)))"
  using st.srt_sorted [OF comparors_strict_weak(2), of t]
  by (simp add: DescComparor_def sorted_wrt_rev sorted_wrt_map not_less)

lemma ct_SyncValue_spec:
  assumes "0 < m" and "0 < n"
  shows "ct_SyncValue MemTimeTableIterator_ops MemTimeTableIterator_ops m n
      (Some (MemTimeTableIterator_new ls)) (map_option MemTimeTableIterator_new right) h =
    Some (h\<lparr>mt_table := mt_table h @ concat_spec m n ls (case right of None \<Rightarrow> [] | Some rs \<Rightarrow> map snd rs)\<rparr>)"
proof -
  let ?r = "map_option MemTimeTableIterator_new right"
  have "case ?r of None \<Rightarrow> (case right of None \<Rightarrow> [] | Some rs \<Rightarrow> map snd rs) = []
      | Some r' \<Rightarrow> ti_ok r' \<and> map snd (ti_rest r') = (case right of None \<Rightarrow> [] | Some rs \<Rightarrow> map snd rs)"
    by (cases right) (simp_all add: ti_new)
  from tr.concat_body_fold [OF assms this, of ls h] show ?thesis
    by (auto simp: ct_SyncValue_def ti_new_first ti.loop_rest ti_new)
qed

subsection \<open>Properties\<close>

text \<open>C12. Rows added to a partition in any order of keys: the segment of a key, read through its handler, has
  exactly the rows added under that key, in the order of arrival, and a key never added has an empty segment.
  The segments stay in descending order of their keys.\<close>

theorem partition_segments:
  "seg_sorted (mp_partitions (mp_AddRows ps MemPartitionHandler_new)) \<and>
   sg_GetCount (mp_AddRows ps MemPartitionHandler_new) key =
     Some (of_nat (length (filter (\<lambda>p. fst p = key) ps))) \<and>
   sg_At (mp_AddRows ps MemPartitionHandler_new) key pos =
     Some (if unat pos < length (filter (\<lambda>p. fst p = key) ps)
           then snd (snd (filter (\<lambda>p. fst p = key) ps ! unat pos)) else Row_default)"
proof -
  have s: "seg_sorted (mp_partitions MemPartitionHandler_new)"
    by (simp add: MemPartitionHandler_new_def seg_sorted_def)
  have "seg_rows key MemPartitionHandler_new = []"
    by (simp add: MemPartitionHandler_new_def seg_rows_def)
  then show ?thesis using mp_AddRows_rows [OF s] by (simp add: sg_access)
qed

text \<open>C13. Sorting a partition permutes every segment into the order asked for, keeps the segments and their
  count, and records the order; reversing it afterwards gives the other order.\<close>

theorem partition_Sort_orders:
  "mset (seg_rows key (mp_Sort is_asc h)) = mset (seg_rows key h) \<and>
   (if is_asc then sorted (map fst (seg_rows key (mp_Sort is_asc h)))
    else sorted (rev (map fst (seg_rows key (mp_Sort is_asc h))))) \<and>
   seg_rows key (mp_Reverse (mp_Sort is_asc h)) = rev (seg_rows key (mp_Sort is_asc h)) \<and>
   mp_order_type (mp_Reverse (mp_Sort is_asc h)) = (if is_asc then kDescOrder else kAscOrder) \<and>
   sg_GetCount (mp_Reverse (mp_Sort is_asc h)) key = sg_GetCount h key \<and>
   mp_GetCount (mp_Reverse (mp_Sort is_asc h)) = mp_GetCount h"
  using std_sort_asc [of "seg_rows key h"] std_sort_desc [of "seg_rows key h"]
  by (simp add: mp_Sort_rows mp_Reverse_rows st.srt_mset st.srt_length sg_access)
    (simp add: mp_Sort_def mp_Reverse_def reverse_order_def mp_GetCount_def)

text \<open>C14. The concatenation of two tables has one row per row of the left table, under its key, joined with
  the row at the same position of the right table, or with the empty row once that has ended; it is built by
  the first access and every later access reads the same rows.\<close>

theorem concat_table_zip:
  assumes "0 < m" and "0 < n"
  shows "\<exists>c. ct_GetCount MemTimeTableIterator_ops MemTimeTableIterator_ops m n (Some (MemTimeTableIterator_new ls))
        (map_option MemTimeTableIterator_new right) ConcatTableHandler_new = Some (of_nat (length ls), c) \<and>
    length (mt_table (ct_base c)) = length ls \<and>
    (\<forall>i < length ls. fst (mt_table (ct_base c) ! i) = fst (ls ! i) \<and>
       Row_concat m (snd (ls ! i)) n
         (case right of None \<Rightarrow> Row_default | Some rs \<Rightarrow> if i < length rs then snd (rs ! i) else Row_default) =
       Some (snd (mt_table (ct_base c) ! i))) \<and>
    (\<forall>pos. ct_At MemTimeTableIterator_ops MemTimeTableIterator_ops m n (Some (MemTimeTableIterator_new ls))
        (map_option MemTimeTableIterator_new right) pos c = Some (mt_At (ct_base c) pos, c))"
proof -
  let ?rs = "case right of None \<Rightarrow> [] | Some rs \<Rightarrow> map snd rs"
  let ?t = "concat_spec m n ls ?rs"
  have t: "fst (?t ! i) = fst (ls ! i) \<and>
      Row_concat m (snd (ls ! i)) n
        (case right of None \<Rightarrow> Row_default | Some rs \<Rightarrow> if i < length rs then snd (rs ! i) else Row_default) =
      Some (snd (?t ! i))" if "i < length ls" for i
  proof -
    have r: "(if i < length ?rs then ?rs ! i else Row_default) =
        (case right of None \<Rightarrow> Row_default | Some rs \<Rightarrow> if i < length rs then snd (rs ! i) else Row_default)"
      by (simp split: option.splits)
    obtain j where "Row_concat m (snd (ls ! i)) n (if i < length ?rs then ?rs ! i else Row_default) = Some j"
      using assms by (rule Row_concat_some)
    then show ?thesis using concat_spec_nth [OF that, of m n ?rs] unfolding r by simp
  qed
  then show ?thesis
    by (intro exI [of _ "\<lparr>ct_running = False, ct_base = MemTimeTableHandler_new\<lparr>mt_table := ?t\<rparr>\<rparr>"])
      (simp add: ct_GetCount_def ct_At_def ct_sync_def ConcatTableHandler_new_def ct_SyncValue_spec [OF assms]
        mt_GetCount_def MemTimeTableHandler_new_def)
qed

text \<open>C15. The table of a request union has the request row first and the rows of the window after it, for
  counting, for reading by position, and for seeking.\<close>

theorem request_union_table:
  "\<exists>it. RequestUnionTable_GetRawIterator ts row (Some (MemTimeTableIterator_new t)) = Some it \<and>
     ListV_GetCount (RequestUnion_ops MemTimeTableIterator_ops) it 0 = Some (of_nat (Suc (length t))) \<and>
     ListV_At (RequestUnion_ops MemTimeTableIterator_ops) Row_default it pos =
       Some (if unat pos = 0 then row
             else if unat pos \<le> length t then snd (t ! (unat pos - 1)) else Row_default) \<and>
     (\<exists>it'. op_Seek (RequestUnion_ops MemTimeTableIterator_ops) key it = Some it' \<and>
        ListV_GetCount (RequestUnion_ops MemTimeTableIterator_ops) it' 0 =
          Some (of_nat (length (dropWhile (\<lambda>(k, v). key < k) ((ts, row) # t)))))"
proof -
  let ?it = "RequestUnionIterator_new ts row (MemTimeTableIterator_new t)"
  have ok: "ru_ok ti_ok ti_rest ti_whole ?it" "ru_rest ti_rest ?it = (ts, row) # t" "ru_whole ti_whole ?it = (ts, row) # t"
    by (simp_all add: ru_ok_def ru_rest_def ru_whole_def RequestUnionIterator_new_def ti_new)
  obtain it' where "op_Seek (RequestUnion_ops MemTimeTableIterator_ops) key ?it = Some it'"
    "ru_ok ti_ok ti_rest ti_whole it'" "ru_rest ti_rest it' = dropWhile (\<lambda>(k, v). key < k) ((ts, row) # t)"
    using ui.seek_rest [OF ok(1), of key] ok(3) by metis
  then show ?thesis
    using ok by (simp add: RequestUnionTable_GetRawIterator_def ui.GetCount_rest ui.At_rest nth_Cons' less_Suc_eq_le)
qed

text \<open>C16. \<open>InnerRowsList\<close> counts and reads the rows of the window from position \<open>start\<close> to position \<open>end\<close>, both
  included, and only those the window has.\<close>

theorem inner_rows_list:
  "\<exists>it. InnerRowsIterator_new MemTimeTableIterator_ops (MemTimeTableIterator_new t) start end' = Some it \<and>
     ListV_GetCount (InnerRows_ops MemTimeTableIterator_ops) it 0 =
       Some (of_nat (min (length t - start) (Suc end' - start))) \<and>
     ListV_At (InnerRows_ops MemTimeTableIterator_ops) Row_default it pos =
       Some (if start + unat pos \<le> end' \<and> start + unat pos < length t then snd (t ! (start + unat pos))
             else Row_default)"
proof -
  obtain root where root: "ir_skip MemTimeTableIterator_ops start (MemTimeTableIterator_new t) 0 =
      Some (root, min start (length t))" "ti_ok root" "ti_rest root = drop start t"
    using ti.ir_skip_rest [OF ti_new(1), of start t 0] by (auto simp: ti_new)
  define it where "it = \<lparr>ir_root = root, ir_pos = min start (length t), ir_start = start, ir_end = end'\<rparr>"
  have "InnerRowsIterator_new MemTimeTableIterator_ops (MemTimeTableIterator_new t) start end' = Some it"
    using root by (simp add: InnerRowsIterator_new_def InnerRows_SeekToFirst_def ti_new_first it_def)
  moreover have "ir_inv ti_ok ti_rest it" using root by (auto simp: ir_inv_def it_def)
  moreover have "ir_rest ti_rest it = take (Suc end' - start) (drop start t)"
    using root by (auto simp: ir_rest_def it_def min_def)
  ultimately show ?thesis by (auto simp: ri.GetCount_rest ri.At_rest)
qed

lemma desc_range:
  assumes "sorted (rev (map fst t))"
  shows "takeWhile (\<lambda>(k, v). k \<le> (start :: u64) \<and> k \<ge> end') (dropWhile (\<lambda>(k, v). start < k) t) =
    filter (\<lambda>(k, v). end' \<le> k \<and> k \<le> start) t"
  using assms
proof (induction t)
  case (Cons p t)
  obtain k v where p: "p = (k, v)" by force
  have s: "sorted (rev (map fst t))" and le: "\<forall>q \<in> set t. fst q \<le> k"
    using Cons.prems p by (auto simp: sorted_append)
  consider "start < k" | "k \<le> start" "end' \<le> k" | "k \<le> start" "k < end'" by force
  then show ?case
  proof cases
    case 1
    then show ?thesis using Cons.IH [OF s] p by (auto simp: not_le)
  next
    case 2
    then have "dropWhile (\<lambda>(k, v). start < k) t = t" using le by (cases t) force+
    then show ?thesis using Cons.IH [OF s] 2 p by simp
  next
    case 3
    then have "filter (\<lambda>(k, v). end' \<le> k \<and> k \<le> start) t = []" using le by (auto simp: filter_empty_conv)
    then show ?thesis using 3 p by auto
  qed
qed simp

text \<open>C17. \<open>InnerRangeList\<close> over a window in descending order of time: from \<open>SeekToFirst\<close> its iterator visits exactly the
  entries with \<open>end\<close> \<open>\<le>\<close> time \<open>\<le>\<close> \<open>start\<close>, keys and rows, in the order of the window, and counting and reading by
  position agree with that. The iterator as it is constructed stands on the newest row instead: as soon as one row
  is newer than \<open>start\<close> it visits, counts and reads nothing.\<close>

theorem inner_range_list:
  assumes "sorted (rev (map fst t))"
  shows "\<exists>it it'. InnerRangeIterator_new MemTimeTableIterator_ops (MemTimeTableIterator_new t) start end' = Some it \<and>
     op_SeekToFirst (InnerRange_ops MemTimeTableIterator_ops) it = Some it' \<and>
     (let inside = filter (\<lambda>(k, v). end' \<le> k \<and> k \<le> start) t;
          fresh = (if \<exists>k \<in> fst ` set t. start < k then [] else inside)
      in iter_loop (InnerRange_ops MemTimeTableIterator_ops) (\<lambda>k v seen. Some (seen @ [(k, v)])) it' [] = Some inside \<and>
         ListV_GetCount (InnerRange_ops MemTimeTableIterator_ops) it' 0 = Some (of_nat (length inside)) \<and>
         ListV_At (InnerRange_ops MemTimeTableIterator_ops) Row_default it' pos =
           Some (if unat pos < length inside then snd (inside ! unat pos) else Row_default) \<and>
         iter_loop (InnerRange_ops MemTimeTableIterator_ops) (\<lambda>k v seen. Some (seen @ [(k, v)])) it [] = Some fresh \<and>
         ListV_GetCount (InnerRange_ops MemTimeTableIterator_ops) it 0 = Some (of_nat (length fresh)) \<and>
         ListV_At (InnerRange_ops MemTimeTableIterator_ops) Row_default it pos =
           Some (if unat pos < length fresh then snd (fresh ! unat pos) else Row_default))"
proof -
  let ?root = "MemTimeTableIterator_new t"
  define it where "it = \<lparr>rg_root = ?root, rg_start_key = (case t of [] \<Rightarrow> 0 | p # _ \<Rightarrow> fst p),
    rg_start = start, rg_end = end'\<rparr>"
  have new: "InnerRangeIterator_new MemTimeTableIterator_ops ?root start end' = Some it"
    by (cases t) (simp_all add: InnerRangeIterator_new_def ti_new_first it_def,
        simp_all add: MemTimeTableIterator_ops_def MemTimeTableIterator_new_def vec_at_def)
  have ok: "rg_ok ti_ok it" and w: "rg_whole ti_whole it = filter (\<lambda>(k, v). end' \<le> k \<and> k \<le> start) t"
    using desc_range [OF assms] by (simp_all add: rg_ok_def rg_whole_def it_def ti_new)
  obtain it' where it': "op_SeekToFirst (InnerRange_ops MemTimeTableIterator_ops) it = Some it'" "rg_ok ti_ok it'"
    "rg_rest ti_rest it' = rg_whole ti_whole it"
    using gi.first_rest [OF ok] by auto
  have r: "rg_rest ti_rest it = (if \<exists>k \<in> fst ` set t. start < k then []
      else filter (\<lambda>(k, v). end' \<le> k \<and> k \<le> start) t)"
  proof (cases "\<exists>k \<in> fst ` set t. start < k")
    case True
    then have "t \<noteq> []" by auto
    then obtain p ps where p: "t = p # ps" by (cases t) auto
    have "\<forall>q \<in> set t. fst q \<le> fst p" using assms p by (auto simp: sorted_append)
    with True have "start < fst p" by force
    then show ?thesis using True p by (auto simp: rg_rest_def it_def ti_new split: prod.splits)
  next
    case False
    then have "dropWhile (\<lambda>(k, v). start < k) t = t" by (cases t) force+
    then show ?thesis using False desc_range [OF assms, of start end'] by (simp add: rg_rest_def it_def ti_new)
  qed
  have seen: "fold_opt (\<lambda>(k, v) seen. Some (seen @ [(k, v)])) xs acc = Some (acc @ xs)" for xs acc :: MemTimeTable
    by (induction xs arbitrary: acc) auto
  show ?thesis using new it' ok w r
    by (intro exI [of _ it] exI [of _ it']) (simp add: gi.GetCount_rest gi.At_rest gi.loop_rest seen Let_def)
qed

definition mem_row :: Row where
  "mem_row = Row_of_slice (slice_of [7])"

theorem inner_range_list_witness:
  "\<exists>it. InnerRangeIterator_new MemTimeTableIterator_ops
       (MemTimeTableIterator_new [(3, mem_row), (2, mem_row), (1, mem_row)]) 2 1 = Some it \<and>
     ListV_GetCount (InnerRange_ops MemTimeTableIterator_ops) it 0 = Some 0 \<and>
     (\<exists>it'. op_SeekToFirst (InnerRange_ops MemTimeTableIterator_ops) it = Some it' \<and>
       iter_loop (InnerRange_ops MemTimeTableIterator_ops) (\<lambda>k v seen. Some (seen @ [(k, v)])) it' [] =
         Some [(2, mem_row), (1, mem_row)])"
  using inner_range_list [of "[(3, mem_row), (2, mem_row), (1, mem_row)]" 2 1 0] by (auto simp: Let_def)

theorem concat_table_zip_witness:
  "\<exists>c. ct_GetCount MemTimeTableIterator_ops MemTimeTableIterator_ops 1 1
        (Some (MemTimeTableIterator_new [(5, mem_row), (6, mem_row)]))
        (Some (MemTimeTableIterator_new [(9, mem_row)])) ConcatTableHandler_new = Some (2, c) \<and>
    Row_concat 1 mem_row 1 mem_row = Some (snd (mt_table (ct_base c) ! 0)) \<and>
    Row_concat 1 mem_row 1 Row_default = Some (snd (mt_table (ct_base c) ! 1))"
  using concat_table_zip [of 1 1 "[(5, mem_row), (6, mem_row)]" "Some [(9, mem_row)]"]
  by (auto simp: All_less_Suc2 numeral_2_eq_2)

end
