(* ===== verification/Window_Buffer.thy ===== *)
theory Window_Buffer
  imports Mem_Catalog
begin

text \<open>
  The sliding windows of \<open>mem_catalog.h\<close>: \<open>WindowRange\<close>, \<open>HistoryWindow\<close> and \<open>CurrentHistoryWindow\<close>. A
  window is its deque of rows, newest first, and the buffer of rows that are not yet in it. The
  reference is \<open>window_spec\<close>: the rows of the whole history a frame selects. Removing from an empty
  deque has no defined result, so that every theorem also says that this never happens.
\<close>

subsection \<open>Frames\<close>

datatype WindowFrameType = kFrameRows | kFrameRowsRange | kFrameRowsMergeRowsRange

record WindowRange =
  wr_frame_type :: WindowFrameType
  wr_start_offset :: i64
  wr_end_offset :: i64
  wr_start_row :: u64
  wr_end_row :: u64
  wr_max_size :: u64

definition WindowRange_default :: WindowRange where
  "WindowRange_default = \<lparr>wr_frame_type = kFrameRows, wr_start_offset = 0, wr_end_offset = 0,
     wr_start_row = 0, wr_end_row = 0, wr_max_size = 0\<rparr>"

definition WindowRange_new :: "WindowFrameType \<Rightarrow> i64 \<Rightarrow> i64 \<Rightarrow> u64 \<Rightarrow> u64 \<Rightarrow> WindowRange" where
  "WindowRange_new frame_type start_offset end_offset rows_preceding max_size =
     \<lparr>wr_frame_type = frame_type, wr_start_offset = start_offset, wr_end_offset = end_offset,
      wr_start_row = rows_preceding, wr_end_row = 0, wr_max_size = max_size\<rparr>"

definition CreateRowsWindow :: "u64 \<Rightarrow> WindowRange" where
  "CreateRowsWindow rows_preceding = WindowRange_new kFrameRows 0 0 rows_preceding 0"

definition CreateRowsRangeWindow :: "i64 \<Rightarrow> i64 \<Rightarrow> u64 \<Rightarrow> WindowRange" where
  "CreateRowsRangeWindow start_offset end_offset max_size =
     WindowRange_new kFrameRowsRange start_offset end_offset 0 max_size"

definition CreateRowsMergeRowsRangeWindow :: "i64 \<Rightarrow> u64 \<Rightarrow> u64 \<Rightarrow> WindowRange" where
  "CreateRowsMergeRowsRangeWindow start_offset rows_preceding max_size =
     WindowRange_new kFrameRowsMergeRowsRange start_offset 0 rows_preceding max_size"

datatype WindowPositionStatus = kInWindow | kExceedWindow | kBeforeWindow

definition GetWindowPositionStatus :: "WindowRange \<Rightarrow> bool \<Rightarrow> bool \<Rightarrow> bool \<Rightarrow> WindowPositionStatus" where
  "GetWindowPositionStatus r out_of_rows before_window exceed_window =
     (case wr_frame_type r of
        kFrameRows \<Rightarrow> if out_of_rows then kExceedWindow else kInWindow
      | kFrameRowsMergeRowsRange \<Rightarrow>
          if out_of_rows then (if before_window then kBeforeWindow
                               else if exceed_window then kExceedWindow else kInWindow)
          else kInWindow
      | kFrameRowsRange \<Rightarrow>
          if exceed_window then kExceedWindow else if before_window then kBeforeWindow else kInWindow)"

text \<open>\<open>int64_t sub = key + offset; sub < 0 ? 0 : sub\<close>: the sum is unsigned and wraps.\<close>

definition offset_ts :: "u64 \<Rightarrow> i64 \<Rightarrow> u64" where
  "offset_ts key offset = (let sub = key + offset in if sint sub < 0 then 0 else sub)"

subsection \<open>Windows\<close>

record Window =
  w_table :: MemTimeTable
  w_history :: MemTimeTable
  w_range :: WindowRange
  w_exclude_current_time :: bool
  w_instance_not_in_window :: bool

definition Window_new :: "WindowRange \<Rightarrow> Window" where
  "Window_new r = \<lparr>w_table = [], w_history = [], w_range = r, w_exclude_current_time = False,
     w_instance_not_in_window = False\<rparr>"

definition PopBackData :: "Window \<Rightarrow> Window option" where
  "PopBackData w = map_option (\<lambda>t. w\<lparr>w_table := t\<rparr>) (pop_back (w_table w))"

definition HistoryWindow_PopFrontData :: "Window \<Rightarrow> Window option" where
  "HistoryWindow_PopFrontData w =
     (if w_history w = [] then map_option (\<lambda>t. w\<lparr>w_table := t\<rparr>) (pop_front (w_table w))
      else map_option (\<lambda>t. w\<lparr>w_history := t\<rparr>) (pop_front (w_history w)))"

definition CurrentHistoryWindow_PopFrontData :: "Window \<Rightarrow> Window option" where
  "CurrentHistoryWindow_PopFrontData w = map_option (\<lambda>t. w\<lparr>w_table := t\<rparr>) (pop_front (w_table w))"

definition PopEffectiveData :: "Window \<Rightarrow> Window option" where
  "PopEffectiveData w =
     (if w_table w \<noteq> [] then map_option (\<lambda>t. w\<lparr>w_table := t\<rparr>) (pop_front (w_table w)) else Some w)"

text \<open>The two loops of \<open>BufferEffectiveWindow\<close>, on \<open>cur_size\<close>.\<close>

fun cap_loop :: "u64 \<Rightarrow> nat \<Rightarrow> MemTimeTable \<Rightarrow> (nat \<times> MemTimeTable) option" where
  "cap_loop max_size 0 table = Some (0, table)"
| "cap_loop max_size (Suc n) table =
     (if max_size > 0 \<and> Suc n > unat max_size then do { t \<leftarrow> pop_back table; cap_loop max_size n t }
      else Some (Suc n, table))"

fun slide_loop :: "WindowRange \<Rightarrow> u64 \<Rightarrow> nat \<Rightarrow> MemTimeTable \<Rightarrow> MemTimeTable option" where
  "slide_loop r start_ts 0 table = Some table"
| "slide_loop r start_ts (Suc n) table =
     (if table = [] then None
      else if (wr_frame_type r = kFrameRows \<or> wr_frame_type r = kFrameRowsMergeRowsRange) \<and>
              Suc n \<le> unat (wr_start_row r + 1)
      then Some table
      else if wr_frame_type r = kFrameRows \<or> fst (last table) < start_ts
      then do { t \<leftarrow> pop_back table; slide_loop r start_ts n t }
      else Some table)"

definition BufferEffectiveWindow :: "u64 \<Rightarrow> Row \<Rightarrow> u64 \<Rightarrow> Window \<Rightarrow> Window option" where
  "BufferEffectiveWindow key row start_ts w = do {
     let t = (key, row) # w_table w;
     (cur_size, t) \<leftarrow> cap_loop (wr_max_size (w_range w)) (length t) t;
     t \<leftarrow> slide_loop (w_range w) start_ts cur_size t;
     Some (w\<lparr>w_table := t\<rparr>)
   }"

text \<open>The loop of \<open>BufferCurrentHistoryBuffer\<close>, on the number of rows in the buffer.\<close>

fun history_loop :: "u64 \<Rightarrow> u64 \<Rightarrow> nat \<Rightarrow> Window \<Rightarrow> Window option" where
  "history_loop end_ts start_ts 0 w = Some w"
| "history_loop end_ts start_ts (Suc n) w =
     (if fst (last (w_history w)) > end_ts then Some w
      else do {
        let back = last (w_history w);
        w \<leftarrow> BufferEffectiveWindow (fst back) (snd back) start_ts w;
        h \<leftarrow> pop_back (w_history w);
        history_loop end_ts start_ts n (w\<lparr>w_history := h\<rparr>)
      })"

definition BufferCurrentHistoryBuffer :: "u64 \<Rightarrow> Row \<Rightarrow> u64 \<Rightarrow> Window \<Rightarrow> Window option" where
  "BufferCurrentHistoryBuffer key row end_ts w = do {
     let w = w\<lparr>w_history := (key, row) # w_history w\<rparr>;
     let start_ts = offset_ts key (wr_start_offset (w_range w));
     history_loop end_ts start_ts (length (w_history w)) w
   }"

definition BufferCurrentTimeBuffer :: "u64 \<Rightarrow> Row \<Rightarrow> u64 \<Rightarrow> Window \<Rightarrow> Window option" where
  "BufferCurrentTimeBuffer key row start_ts w =
     (if \<not> w_exclude_current_time w then BufferEffectiveWindow key row start_ts w
      else do {
        w \<leftarrow> PopEffectiveData w;
        w \<leftarrow> BufferCurrentHistoryBuffer key row (key - 1) w;
        BufferEffectiveWindow key row start_ts w
      })"

definition front_exceeds :: "u64 \<Rightarrow> Window \<Rightarrow> bool" where
  "front_exceeds key w = (case w_table w of [] \<Rightarrow> False | p # _ \<Rightarrow> fst p > key)"

definition HistoryWindow_BufferData :: "u64 \<Rightarrow> Row \<Rightarrow> Window \<Rightarrow> (bool \<times> Window) option" where
  "HistoryWindow_BufferData key row w =
     (if front_exceeds key w then Some (False, w)
      else if length (w_table w) < unat (wr_start_row (w_range w))
      then let start_ts = offset_ts key (wr_start_offset (w_range w)) in
           map_option (Pair True)
             (if wr_end_offset (w_range w) = 0 then BufferCurrentTimeBuffer key row start_ts w
              else BufferEffectiveWindow key row start_ts w)
      else if wr_end_offset (w_range w) = 0
      then let start_ts = offset_ts key (wr_start_offset (w_range w)) in
           map_option (Pair True) (BufferCurrentTimeBuffer key row start_ts w)
      else let end_ts = offset_ts key (wr_end_offset (w_range w)) in
           map_option (Pair True) (BufferCurrentHistoryBuffer key row end_ts w))"

definition CurrentHistoryWindow_BufferData :: "u64 \<Rightarrow> Row \<Rightarrow> Window \<Rightarrow> (bool \<times> Window) option" where
  "CurrentHistoryWindow_BufferData key row w =
     (if front_exceeds key w then Some (False, w)
      else let start_ts = offset_ts key (wr_start_offset (w_range w)) in
           map_option (Pair True)
             (if w_exclude_current_time w then BufferCurrentTimeBuffer key row start_ts w
              else BufferEffectiveWindow key row start_ts w))"

text \<open>\<open>BufferData\<close> and \<open>PopFrontData\<close> are virtual: the class of the window says which one runs.\<close>

datatype WindowClass = HistoryWindow | CurrentHistoryWindow

definition BufferData :: "WindowClass \<Rightarrow> u64 \<Rightarrow> Row \<Rightarrow> Window \<Rightarrow> (bool \<times> Window) option" where
  "BufferData c = (case c of HistoryWindow \<Rightarrow> HistoryWindow_BufferData | CurrentHistoryWindow \<Rightarrow> CurrentHistoryWindow_BufferData)"

definition PopFrontData :: "WindowClass \<Rightarrow> Window \<Rightarrow> Window option" where
  "PopFrontData c = (case c of HistoryWindow \<Rightarrow> HistoryWindow_PopFrontData | CurrentHistoryWindow \<Rightarrow> CurrentHistoryWindow_PopFrontData)"

subsection \<open>The reference\<close>

definition in_range_len :: "u64 \<Rightarrow> MemTimeTable \<Rightarrow> nat" where
  "in_range_len start_ts xs = length (takeWhile (\<lambda>p. start_ts \<le> fst p) xs)"

text \<open>How many of the newest rows a frame has that starts at time \<open>start_ts\<close>.\<close>

definition frame_len :: "WindowRange \<Rightarrow> u64 \<Rightarrow> MemTimeTable \<Rightarrow> nat" where
  "frame_len r start_ts xs =
     (let n = (case wr_frame_type r of
                 kFrameRows \<Rightarrow> unat (wr_start_row r + 1)
               | kFrameRowsRange \<Rightarrow> in_range_len start_ts xs
               | kFrameRowsMergeRowsRange \<Rightarrow> max (unat (wr_start_row r + 1)) (in_range_len start_ts xs))
      in if wr_max_size r > 0 then min (unat (wr_max_size r)) n else n)"

definition window_spec :: "WindowRange \<Rightarrow> u64 \<Rightarrow> MemTimeTable \<Rightarrow> MemTimeTable" where
  "window_spec r start_ts xs = take (frame_len r start_ts xs) xs"

abbreviation newest_first :: "MemTimeTable \<Rightarrow> bool" where
  "newest_first xs \<equiv> sorted_wrt (\<lambda>p q. fst q \<le> fst p) xs"

subsection \<open>One row into the window\<close>

lemma cap_loop_take:
  "n = length t \<Longrightarrow> cap_loop m n t =
     Some (let t' = (if m > 0 then take (unat m) t else t) in (length t', t'))"
proof (induction m n t rule: cap_loop.induct)
  case (2 m n t)
  show ?case
  proof (cases "m > 0 \<and> Suc n > unat m")
    case True
    then have t: "pop_back t = Some (butlast t)" "n = length (butlast t)"
      using 2(2) by (auto simp: pop_back_def)
    have "take (unat m) (butlast t) = take (unat m) t"
      using True 2(2) by (simp add: take_butlast)
    with 2(1) [OF True t] True show ?thesis by (simp add: t(1) Let_def min_def)
  next
    case False
    then have "cap_loop m (Suc n) t = Some (Suc n, t)" by auto
    then show ?thesis using False 2(2) by (auto simp: Let_def)
  qed
qed simp

lemma newest_first_butlast: "newest_first t \<Longrightarrow> newest_first (butlast t)"
  by (simp add: butlast_conv_take sorted_wrt_take)

lemma in_range_len_Cons: "in_range_len s (p # t) = (if s \<le> fst p then Suc (in_range_len s t) else 0)"
  by (simp add: in_range_len_def)

lemma in_range_len_Nil [simp]: "in_range_len s [] = 0"
  by (simp add: in_range_len_def)

lemma in_range_len_le: "in_range_len s t \<le> length t"
  by (simp add: in_range_len_def length_takeWhile_le)

lemma in_range_len_take: "in_range_len s (take n t) = min n (in_range_len s t)"
  by (induction t arbitrary: n) (auto simp: in_range_len_Cons take_Cons split: nat.splits)

lemma in_range_len_full:
  assumes "newest_first t" and "t \<noteq> []"
  shows "in_range_len s t = length t \<longleftrightarrow> s \<le> fst (last t)"
proof -
  have "fst (last t) \<le> fst q" if "q \<in> set t" for q
    using assms that
  proof (induction t)
    case (Cons p t)
    then show ?case by (cases "t = []") auto
  qed simp
  moreover have "last t \<in> set t" using assms(2) by simp
  ultimately have "(\<forall>q \<in> set t. s \<le> fst q) \<longleftrightarrow> s \<le> fst (last t)" by (meson order.trans)
  moreover have "in_range_len s t = length t \<longleftrightarrow> (\<forall>q \<in> set t. s \<le> fst q)"
    by (induction t) (auto simp: in_range_len_Cons)
  ultimately show ?thesis by simp
qed

lemma slide_loop_take:
  assumes "newest_first t" and "n = length t"
  shows "slide_loop r s n t = Some (take (case wr_frame_type r of
                 kFrameRows \<Rightarrow> unat (wr_start_row r + 1)
               | kFrameRowsRange \<Rightarrow> in_range_len s t
               | kFrameRowsMergeRowsRange \<Rightarrow> max (unat (wr_start_row r + 1)) (in_range_len s t)) t)"
  using assms
proof (induction r s n t rule: slide_loop.induct)
  case (2 r s n t)
  then have t: "t \<noteq> []" "pop_back t = Some (butlast t)" "n = length (butlast t)" "newest_first (butlast t)"
    by (auto simp: pop_back_def newest_first_butlast)
  have le: "in_range_len s t \<le> length t" by (rule in_range_len_le)
  have full: "in_range_len s t = length t \<longleftrightarrow> s \<le> fst (last t)"
    using 2 t by (intro in_range_len_full)
  have b: "in_range_len s (butlast t) = min n (in_range_len s t)"
    using 2(3) by (simp add: butlast_conv_take in_range_len_take)
  have tk: "take k (butlast t) = take k t" if "k \<le> n" for k
    using that 2(3) by (simp add: take_butlast)
  have l: "length t = Suc n" using 2(3) by simp
  show ?case
  proof (cases "((wr_frame_type r = kFrameRows \<or> wr_frame_type r = kFrameRowsMergeRowsRange) \<and>
              Suc n \<le> unat (wr_start_row r + 1)) \<or> \<not> (wr_frame_type r = kFrameRows \<or> fst (last t) < s)")
    case True
    then have "slide_loop r s (Suc n) t = Some t" using t(1) by auto
    with True full le l show ?thesis by (cases "wr_frame_type r") (auto simp: not_less)
  next
    case False
    then have "slide_loop r s (Suc n) t = slide_loop r s n (butlast t)" using t(1,2) by auto
    moreover note 2(1) [OF t(1) _ _ t(2) t(4) t(3)]
    ultimately show ?thesis
      using False full le l b by (cases "wr_frame_type r") (auto simp: tk not_le not_less)
  qed
qed simp

lemma window_spec_take: "frame_len r s xs \<le> n \<Longrightarrow> window_spec r s (take n xs) = window_spec r s xs"
  by (cases "wr_frame_type r")
    (auto simp: window_spec_def frame_len_def in_range_len_take Let_def min_def max_def split: if_splits)

lemma BufferEffectiveWindow_spec:
  assumes "newest_first ((key, row) # w_table w)"
  shows "BufferEffectiveWindow key row s w = Some (w\<lparr>w_table := window_spec (w_range w) s ((key, row) # w_table w)\<rparr>)"
proof -
  let ?xs = "(key, row) # w_table w"
  define m where "m = wr_max_size (w_range w)"
  define t where "t = (if m > 0 then take (unat m) ?xs else ?xs)"
  have "newest_first t" unfolding t_def using assms by (auto simp: sorted_wrt_take simp del: sorted_wrt.simps)
  from slide_loop_take [OF this refl, of "w_range w" s]
  have "BufferEffectiveWindow key row s w = Some (w\<lparr>w_table := take (case wr_frame_type (w_range w) of
                 kFrameRows \<Rightarrow> unat (wr_start_row (w_range w) + 1)
               | kFrameRowsRange \<Rightarrow> in_range_len s t
               | kFrameRowsMergeRowsRange \<Rightarrow> max (unat (wr_start_row (w_range w) + 1)) (in_range_len s t)) t\<rparr>)"
    using cap_loop_take [of "length ?xs" ?xs m] by (simp add: BufferEffectiveWindow_def m_def t_def Let_def)
  then show ?thesis
    unfolding t_def m_def
    by (cases "wr_frame_type (w_range w)")
      (auto simp: window_spec_def frame_len_def in_range_len_take Let_def min_def max_def
        simp del: take_Suc_Cons split: if_splits)
qed

lemma in_range_len_mono: "s \<le> s' \<Longrightarrow> in_range_len s' xs \<le> in_range_len s xs"
  by (induction xs) (auto simp: in_range_len_Cons)

lemma in_range_len_Suc: "s \<le> s' \<Longrightarrow> in_range_len s' (x # xs) \<le> Suc (in_range_len s xs)"
  by (simp add: in_range_len_Cons in_range_len_mono)

lemma in_range_len_swap: "s \<le> s' \<Longrightarrow> s \<le> fst y \<Longrightarrow> in_range_len s' (x # xs) \<le> in_range_len s (y # xs)"
  by (simp add: in_range_len_Cons in_range_len_mono)

lemma frame_len_Suc:
  assumes "s \<le> s'" shows "frame_len r s' (x # xs) \<le> Suc (frame_len r s xs)"
  using in_range_len_Suc [OF assms, of x xs] by (cases "wr_frame_type r") (auto simp: frame_len_def Let_def)

lemma frame_len_swap:
  assumes "s \<le> s'" and "s \<le> fst y" shows "frame_len r s' (x # xs) \<le> frame_len r s (y # xs)"
  using in_range_len_swap [OF assms, of x xs] by (cases "wr_frame_type r") (auto simp: frame_len_def Let_def)

text \<open>Pushing onto the window of an earlier start gives the window of the whole history.\<close>

lemma window_spec_push:
  assumes "frame_len r s (x # xs) \<le> Suc c"
  shows "window_spec r s (x # take c xs) = window_spec r s (x # xs)"
  using window_spec_take [OF assms] by simp

lemma sint64: "sint (w :: u64) = (if uint w < 2 ^ 63 then uint w else uint w - 2 ^ 64)"
proof -
  have "sint w = (uint w + 2 ^ 63) mod 2 ^ 64 - 2 ^ 63"
    by (simp only: sint_uint signed_take_bit_eq_take_bit_shift) (simp add: take_bit_eq_mod)
  moreover have "0 \<le> uint w" "uint w < 2 ^ 64" using uint_lt2p [of w] by simp_all
  moreover have "(uint w + 2 ^ 63) mod 2 ^ 64 = uint w + 2 ^ 63 - 2 ^ 64" if "2 ^ 63 \<le> uint w"
    using that calculation by (subst mod_pos_geq) simp_all
  ultimately show ?thesis by simp
qed

lemma sint64_nonneg: "0 \<le> sint (w :: u64) \<longleftrightarrow> uint w < 2 ^ 63" "0 \<le> sint (w :: u64) \<Longrightarrow> uint w = sint w"
  using uint_lt2p [of w] by (simp_all add: sint64 split: if_splits)

lemma offset_ts_int:
  assumes "0 \<le> sint key" and "sint off \<le> 0"
  shows "uint (offset_ts key off) = max 0 (uint key + sint off)"
proof -
  have k: "uint key = sint key" using assms(1) by (rule sint64_nonneg)
  have b: "sint key < 2 ^ 63" "- (2 ^ 63) \<le> sint off" using sint_lt [of key] sint_ge [of off] by simp_all
  have "sint (key + off) = sint key + sint off"
    using assms b by (subst sint_word_ariths) (simp add: signed_take_bit_int_eq_self_iff)
  then show ?thesis using k by (auto simp: offset_ts_def Let_def max_def sint64_nonneg(2))
qed

lemma offset_ts_mono:
  assumes "0 \<le> sint key" and "sint off \<le> 0" and "key' \<le> key"
  shows "offset_ts key' off \<le> offset_ts key off"
proof -
  have "0 \<le> sint key'" using assms(1,3) by (simp add: sint64_nonneg(1) word_le_def)
  then show ?thesis
    using assms offset_ts_int [of key off] offset_ts_int [of key' off] by (auto simp: word_le_def)
qed

lemma offset_ts_le:
  assumes "0 \<le> sint key" and "sint off \<le> 0"
  shows "offset_ts key off \<le> key"
  using offset_ts_int [OF assms] assms by (auto simp: word_le_def)

lemma newest_first_sub: "newest_first (x # xs) \<Longrightarrow> newest_first (x # take c xs)"
  by (auto simp: sorted_wrt_take dest: in_set_takeD)

lemma newest_first_rev: "sorted (map fst rows) \<longleftrightarrow> newest_first (rev rows)"
  by (simp add: sorted_map sorted_wrt_rev)

lemma frame_pos:
  assumes "wr_frame_type r = kFrameRows \<Longrightarrow> wr_start_row r + 1 \<noteq> 0" and "s \<le> fst x"
  shows "0 < frame_len r s (x # xs)"
proof -
  have "0 < unat (wr_start_row r + 1)" if "wr_start_row r + 1 \<noteq> 0" using that by (simp add: unat_gt_0)
  moreover have "0 < unat (wr_max_size r)" if "wr_max_size r > 0" using that by (simp add: unat_gt_0)
  ultimately show ?thesis
    using assms by (cases "wr_frame_type r") (auto simp: frame_len_def Let_def in_range_len_Cons less_max_iff_disj)
qed

subsection \<open>Rows in order of time\<close>

lemma fold_opt_append: "fold_opt f (xs @ ys) s = Option.bind (fold_opt f xs s) (fold_opt f ys)"
  by (induction xs arbitrary: s) (auto split: bind_splits)

text \<open>Buffering a list of rows, all of which are accepted.\<close>

definition buffer_all :: "(u64 \<Rightarrow> Row \<Rightarrow> Window \<Rightarrow> (bool \<times> Window) option) \<Rightarrow> MemTimeTable \<Rightarrow> Window \<Rightarrow> Window option" where
  "buffer_all bd = fold_opt (\<lambda>(key, row) w. do { (ok, w') \<leftarrow> bd key row w; if ok then Some w' else None })"

lemma buffer_all_snoc:
  "buffer_all bd (rows @ [(key, row)]) w =
     do { w \<leftarrow> buffer_all bd rows w; (ok, w') \<leftarrow> bd key row w; if ok then Some w' else None }"
  by (simp add: buffer_all_def fold_opt_append case_prod_unfold split: bind_splits)

lemma not_front_exceeds:
  assumes "w_table w = take c xs" and "\<forall>p \<in> set xs. fst p \<le> key"
  shows "\<not> front_exceeds key w"
  using assms by (cases xs; cases c) (auto simp: front_exceeds_def)

lemma current_window_all:
  assumes "rows \<noteq> []" and "sorted (map fst rows)" and "0 \<le> sint (fst (last rows))" and "sint (wr_start_offset r) \<le> 0"
    and "w_range w = r" and "w_table w = []" and "\<not> w_exclude_current_time w"
  shows "buffer_all CurrentHistoryWindow_BufferData rows w =
    Some (w\<lparr>w_table := window_spec r (offset_ts (fst (last rows)) (wr_start_offset r)) (rev rows)\<rparr>)"
  using assms(1-3)
proof (induction rows rule: rev_induct)
  case (snoc x rows)
  obtain key row where x: "x = (key, row)" by force
  let ?s = "offset_ts key (wr_start_offset r)"
  have n: "newest_first ((key, row) # rev rows)" using snoc.prems(2) x newest_first_rev [of "rows @ [x]"] by simp
  have k: "0 \<le> sint key" using snoc.prems x by simp
  have step: "CurrentHistoryWindow_BufferData key row w' = Some (True, w\<lparr>w_table := window_spec r ?s ((key, row) # rev rows)\<rparr>)"
    if "w' = w\<lparr>w_table := take c (rev rows)\<rparr>" "frame_len r ?s ((key, row) # rev rows) \<le> Suc c" for w' c
  proof -
    have "\<not> front_exceeds key w'" using n that(1) by (intro not_front_exceeds [of _ c "rev rows"]) auto
    moreover have "BufferEffectiveWindow key row ?s w' = Some (w\<lparr>w_table := window_spec r ?s ((key, row) # rev rows)\<rparr>)"
      using BufferEffectiveWindow_spec [of key row w' ?s] newest_first_sub [OF n, of c] window_spec_push [OF that(2)]
        that(1) assms(5) by simp
    ultimately show ?thesis using that(1) assms(5,7) by (simp add: CurrentHistoryWindow_BufferData_def)
  qed
  show ?case
  proof (cases "rows = []")
    case True
    then show ?thesis
      using step [of w "frame_len r ?s [(key, row)]"] assms(6) x
      by (simp add: buffer_all_def)
  next
    case False
    let ?prev = "offset_ts (fst (last rows)) (wr_start_offset r)"
    have le: "fst (last rows) \<le> key" using n False by simp
    then have "0 \<le> sint (fst (last rows))" using k by (simp add: sint64_nonneg(1) word_le_def)
    moreover have "sorted (map fst rows)" using snoc.prems(2) by (simp add: sorted_append)
    moreover have "?prev \<le> ?s" using k assms(4) le by (rule offset_ts_mono)
    ultimately show ?thesis
      using snoc.IH [OF False] x frame_len_Suc [of ?prev ?s r "(key, row)" "rev rows"]
        step [of _ "frame_len r ?prev (rev rows)"]
      by (simp add: buffer_all_snoc window_spec_def)
  qed
qed simp

subsection \<open>Rows that wait in the buffer\<close>

text \<open>Rows \<open>B\<close> of the buffer not after \<open>end_ts\<close> move, oldest first, into a window that has the newest
  \<open>c\<close> of the rows \<open>L\<close> before them.\<close>

lemma history_loop_spec:
  assumes "w_history w = A @ B" and "\<forall>p \<in> set A. end_ts < fst p" and "\<forall>p \<in> set B. fst p \<le> end_ts"
    and "w_table w = take c L" and "newest_first (B @ L)"
    and "\<And>x. frame_len (w_range w) s (x # L) \<le> Suc c"
  shows "\<exists>c'. history_loop end_ts s (length (A @ B)) w =
      Some (w\<lparr>w_history := A, w_table := take c' (B @ L)\<rparr>) \<and>
    (\<forall>x. frame_len (w_range w) s (x # B @ L) \<le> Suc c')"
  using assms
proof (induction B arbitrary: w L c rule: rev_induct)
  case Nil
  have "history_loop end_ts s (length A) w = Some w"
  proof (cases "A = []")
    case False
    then obtain n where "length A = Suc n" by (cases A) auto
    moreover have "end_ts < fst (last A)" using Nil(2) False by simp
    ultimately show ?thesis using Nil(1) by simp
  qed simp
  moreover have "w = w\<lparr>w_history := A, w_table := take c L\<rparr>" using Nil(1,4) by simp
  ultimately show ?case using Nil(6) by auto
next
  case (snoc b B)
  let ?r = "w_range w"
  have n: "newest_first (b # L)" using snoc.prems(5) by (simp add: sorted_wrt_append)
  define w1 where "w1 = w\<lparr>w_table := window_spec ?r s (b # L)\<rparr>"
  have e: "BufferEffectiveWindow (fst b) (snd b) s w = Some w1"
    using BufferEffectiveWindow_spec [of "fst b" "snd b" w s] newest_first_sub [OF n, of c] snoc.prems(4,6)
    by (simp add: w1_def window_spec_push)
  have "history_loop end_ts s (length (A @ B @ [b])) w =
      history_loop end_ts s (length (A @ B)) (w1\<lparr>w_history := A @ B\<rparr>)"
    using e snoc.prems(1,3) by (auto simp: pop_back_def w1_def butlast_append not_less)
  moreover have "\<exists>c'. history_loop end_ts s (length (A @ B)) (w1\<lparr>w_history := A @ B\<rparr>) =
      Some ((w1\<lparr>w_history := A @ B\<rparr>)\<lparr>w_history := A, w_table := take c' (B @ b # L)\<rparr>) \<and>
    (\<forall>x. frame_len (w_range (w1\<lparr>w_history := A @ B\<rparr>)) s (x # B @ b # L) \<le> Suc c')"
  proof (rule snoc.IH)
    show "w_table (w1\<lparr>w_history := A @ B\<rparr>) = take (frame_len ?r s (b # L)) (b # L)"
      by (simp add: w1_def window_spec_def)
    show "frame_len (w_range (w1\<lparr>w_history := A @ B\<rparr>)) s (x # b # L) \<le> Suc (frame_len ?r s (b # L))" for x
      by (simp add: w1_def frame_len_Suc)
  qed (use snoc.prems in auto)
  ultimately show ?case by (auto simp: w1_def)
qed

lemma newest_first_cut:
  "newest_first xs \<Longrightarrow> filter (\<lambda>p. e < fst p) xs @ filter (\<lambda>p. fst p \<le> e) xs = xs"
proof (induction xs)
  case (Cons x xs)
  show ?case
  proof (cases "e < fst x")
    case True
    then show ?thesis using Cons by auto
  next
    case False
    then have "filter (\<lambda>p. e < fst p) xs = []" using Cons.prems by (force simp: filter_empty_conv)
    with Cons False show ?thesis by auto
  qed
qed simp

lemma newest_first_split:
  assumes "newest_first xs" and "e \<le> e'"
  shows "filter (\<lambda>p. e < fst p \<and> fst p \<le> e') xs @ filter (\<lambda>p. fst p \<le> e) xs = filter (\<lambda>p. fst p \<le> e') xs"
    and "filter (\<lambda>p. e' < fst p) xs @ filter (\<lambda>p. e < fst p \<and> fst p \<le> e') xs = filter (\<lambda>p. e < fst p) xs"
proof -
  have c: "(fst p \<le> e' \<and> fst p \<le> e) = (fst p \<le> e)" "(e < fst p \<and> e' < fst p) = (e' < fst p)"
    "(fst p \<le> e' \<and> e < fst p) = (e < fst p \<and> fst p \<le> e')" for p :: "u64 \<times> Row"
    using assms(2) by auto
  show "filter (\<lambda>p. e < fst p \<and> fst p \<le> e') xs @ filter (\<lambda>p. fst p \<le> e) xs = filter (\<lambda>p. fst p \<le> e') xs"
    using newest_first_cut [OF sorted_wrt_filter [OF assms(1), of "\<lambda>p. fst p \<le> e'"], of e]
    by (simp add: c)
  show "filter (\<lambda>p. e' < fst p) xs @ filter (\<lambda>p. e < fst p \<and> fst p \<le> e') xs = filter (\<lambda>p. e < fst p) xs"
    using newest_first_cut [OF sorted_wrt_filter [OF assms(1), of "\<lambda>p. e < fst p"], of e']
    by (simp add: c)
qed

lemma le_minus_one: "0 < (k :: u64) \<Longrightarrow> x \<le> k - 1 \<longleftrightarrow> x < k" "0 < k \<Longrightarrow> k - 1 < x \<longleftrightarrow> k \<le> x"
proof -
  assume k: "0 < k"
  then have "unat (k - 1) = unat k - 1" "0 < unat k" by (auto simp: unat_minus_one unat_gt_0)
  then show "x \<le> k - 1 \<longleftrightarrow> x < k" "k - 1 < x \<longleftrightarrow> k \<le> x"
    by (auto simp: word_le_nat_alt word_less_nat_alt)
qed

lemma exclude_step:
  assumes "w_exclude_current_time w" and "w_history w = A @ B"
    and "PopEffectiveData w = Some (w\<lparr>w_table := take c L\<rparr>)"
    and "0 < key" and "\<forall>p \<in> set A. key - 1 < fst p" and "\<forall>p \<in> set B. fst p \<le> key - 1"
    and "newest_first ((key, row) # B @ L)"
    and "s = offset_ts key (wr_start_offset (w_range w))" and "\<And>x. frame_len (w_range w) s (x # L) \<le> Suc c"
  shows "BufferCurrentTimeBuffer key row s w =
    Some (w\<lparr>w_history := (key, row) # A, w_table := window_spec (w_range w) s ((key, row) # B @ L)\<rparr>)"
proof -
  define w1 where "w1 = w\<lparr>w_table := take c L, w_history := ((key, row) # A) @ B\<rparr>"
  have k: "key - 1 < key" using assms(4) by (simp add: le_minus_one)
  have "\<exists>c'. history_loop (key - 1) s (length (((key, row) # A) @ B)) w1 =
      Some (w1\<lparr>w_history := (key, row) # A, w_table := take c' (B @ L)\<rparr>) \<and>
    (\<forall>x. frame_len (w_range w1) s (x # B @ L) \<le> Suc c')"
    by (rule history_loop_spec) (use assms k in \<open>auto simp: w1_def\<close>)
  then obtain c' where c': "history_loop (key - 1) s (length (((key, row) # A) @ B)) w1 =
      Some (w1\<lparr>w_history := (key, row) # A, w_table := take c' (B @ L)\<rparr>)"
    "\<And>x. frame_len (w_range w1) s (x # B @ L) \<le> Suc c'" by blast
  have "BufferCurrentHistoryBuffer key row (key - 1) (w\<lparr>w_table := take c L\<rparr>) =
      Some (w1\<lparr>w_history := (key, row) # A, w_table := take c' (B @ L)\<rparr>)"
    using c'(1) assms(2,8) by (simp add: BufferCurrentHistoryBuffer_def w1_def Let_def)
  then show ?thesis
    using assms(1,3) newest_first_sub [OF assms(7), of c'] window_spec_push [OF c'(2)]
    by (simp add: BufferCurrentTimeBuffer_def BufferEffectiveWindow_spec w1_def)
qed

lemma exclude_window_all:
  assumes "rows \<noteq> []" and "sorted (map fst rows)" and "\<forall>p \<in> set rows. 0 < fst p" and "0 \<le> sint (fst (last rows))"
    and "sint (wr_start_offset r) \<le> 0" and "wr_frame_type r = kFrameRows \<Longrightarrow> wr_start_row r + 1 \<noteq> 0"
    and "w_range w = r" and "w_table w = []" and "w_history w = []" and "w_exclude_current_time w"
  shows "buffer_all CurrentHistoryWindow_BufferData rows w =
    Some (w\<lparr>w_history := filter (\<lambda>p. fst (last rows) - 1 < fst p) (rev rows),
      w_table := window_spec r (offset_ts (fst (last rows)) (wr_start_offset r))
        (last rows # filter (\<lambda>p. fst p \<le> fst (last rows) - 1) (rev rows))\<rparr>)"
  using assms(1-4)
proof (induction rows rule: rev_induct)
  case (snoc x rows)
  obtain key row where x: "x = (key, row)" by (cases x)
  let ?s = "offset_ts key (wr_start_offset r)"
  have n: "newest_first ((key, row) # rev rows)" using snoc.prems(2) x newest_first_rev [of "rows @ [x]"] by simp
  have k: "0 < key" "0 \<le> sint key" using snoc.prems x by simp_all
  show ?case
  proof (cases "rows = []")
    case True
    have "BufferCurrentTimeBuffer key row ?s w =
        Some (w\<lparr>w_history := (key, row) # [], w_table := window_spec (w_range w) ?s ((key, row) # [] @ [])\<rparr>)"
    proof (rule exclude_step)
      show "PopEffectiveData w = Some (w\<lparr>w_table := take (frame_len r ?s []) []\<rparr>)"
        using assms(8) by (simp add: PopEffectiveData_def)
      show "frame_len (w_range w) ?s (x # []) \<le> Suc (frame_len r ?s [])" for x
        using assms(7) by (simp add: frame_len_Suc)
    qed (use assms(7,9,10) k(1) in simp_all)
    then have "CurrentHistoryWindow_BufferData key row w =
        Some (True, w\<lparr>w_history := [(key, row)], w_table := window_spec r ?s [(key, row)]\<rparr>)"
      using assms(7,8,10) by (simp add: CurrentHistoryWindow_BufferData_def front_exceeds_def)
    then show ?thesis using True x k(1) by (simp add: buffer_all_def le_minus_one)
  next
    case False
    define k0 where "k0 = fst (last rows)"
    let ?prev = "offset_ts k0 (wr_start_offset r)"
    let ?L = "filter (\<lambda>p. fst p \<le> k0 - 1) (rev rows)"
    define N where "N = frame_len r ?prev (last rows # ?L)"
    define w0 where "w0 = w\<lparr>w_history := filter (\<lambda>p. k0 - 1 < fst p) (rev rows),
      w_table := window_spec r ?prev (last rows # ?L)\<rparr>"
    have le: "k0 \<le> key" "0 < k0" using n False snoc.prems by (auto simp: k0_def)
    have "k0 - 1 \<le> key - 1" using k le by (simp add: le_minus_one)
    moreover have "0 \<le> sint k0" using k le by (simp add: sint64_nonneg(1) word_le_def)
    ultimately have k0: "0 \<le> sint k0" "k0 - 1 \<le> key - 1" by blast+
    have ih: "buffer_all CurrentHistoryWindow_BufferData rows w = Some w0"
      unfolding w0_def k0_def
    proof (rule snoc.IH [OF False])
      show "0 \<le> sint (fst (last rows))" using k0(1) by (simp only: k0_def)
    qed (use snoc.prems in \<open>auto simp: sorted_append\<close>)
    have s: "?prev \<le> ?s" "?prev \<le> k0" using offset_ts_mono [OF k(2) assms(5) le(1)] offset_ts_le [OF k0(1) assms(5)] .
    have N: "0 < N" unfolding N_def by (rule frame_pos) (use assms(6) s(2) in \<open>auto simp: k0_def\<close>)
    have t: "w_table w0 = last rows # take (N - 1) ?L"
      using N by (cases N) (simp_all add: w0_def window_spec_def N_def [symmetric])
    have "BufferCurrentTimeBuffer key row ?s w0 =
        Some (w0\<lparr>w_history := (key, row) # filter (\<lambda>p. key - 1 < fst p) (rev rows),
          w_table := window_spec (w_range w0) ?s
            ((key, row) # filter (\<lambda>p. k0 - 1 < fst p \<and> fst p \<le> key - 1) (rev rows) @ ?L)\<rparr>)"
    proof (rule exclude_step)
      show "w_history w0 = filter (\<lambda>p. key - 1 < fst p) (rev rows) @
          filter (\<lambda>p. k0 - 1 < fst p \<and> fst p \<le> key - 1) (rev rows)"
        using n k0(2) by (simp add: newest_first_split w0_def)
      show "PopEffectiveData w0 = Some (w0\<lparr>w_table := take (N - 1) ?L\<rparr>)"
        by (simp add: PopEffectiveData_def t pop_front_def)
      show "newest_first ((key, row) # filter (\<lambda>p. k0 - 1 < fst p \<and> fst p \<le> key - 1) (rev rows) @ ?L)"
        using n k0(2) by (simp add: newest_first_split sorted_wrt_filter)
      show "frame_len (w_range w0) ?s (x # ?L) \<le> Suc (N - 1)" for x
        using frame_len_swap [of ?prev ?s "last rows" r x ?L] s N assms(7) by (simp add: w0_def N_def k0_def)
    qed (use k assms in \<open>auto simp: w0_def\<close>)
    moreover have "\<not> front_exceeds key w0" using le by (simp add: front_exceeds_def t k0_def)
    ultimately have "CurrentHistoryWindow_BufferData key row w0 =
        Some (True, w0\<lparr>w_history := (key, row) # filter (\<lambda>p. key - 1 < fst p) (rev rows),
          w_table := window_spec r ?s ((key, row) # filter (\<lambda>p. fst p \<le> key - 1) (rev rows))\<rparr>)"
      using n k0(2) assms(7,10) by (simp add: CurrentHistoryWindow_BufferData_def newest_first_split w0_def)
    then show ?thesis
      using ih x k(1) by (simp add: buffer_all_snoc w0_def le_minus_one)
  qed
qed simp

subsection \<open>Windows that end before the current row\<close>




subsection \<open>Any sequence of calls\<close>

inductive window_step :: "WindowClass \<Rightarrow> Window \<Rightarrow> Window \<Rightarrow> bool" for c where
  step_buffer: "BufferData c key row w = Some (ok, w') \<Longrightarrow> window_step c w w'"
| step_pop_back: "PopBackData w = Some w' \<Longrightarrow> window_step c w w'"
| step_pop_front: "PopFrontData c w = Some w' \<Longrightarrow> window_step c w w'"

inductive_cases window_stepE: "window_step c w w'"

text \<open>The frames for which the invariant holds: a \<open>HistoryWindow\<close> with an end offset buffers the newest rows apart.\<close>

definition ends_at_row :: "WindowClass \<Rightarrow> WindowRange \<Rightarrow> bool" where
  "ends_at_row c r \<longleftrightarrow> c = HistoryWindow \<longrightarrow> wr_end_offset r = 0"

definition window_inv :: "WindowRange \<Rightarrow> Window \<Rightarrow> bool" where
  "window_inv r w \<longleftrightarrow> w_range w = r \<and> \<not> w_exclude_current_time w \<and> w_history w = [] \<and> newest_first (w_table w) \<and>
     (wr_max_size r = 0 \<or> length (w_table w) \<le> unat (wr_max_size r)) \<and>
     (wr_frame_type r \<noteq> kFrameRows \<or> length (w_table w) \<le> unat (wr_start_row r + 1))"

lemma window_spec_bounds:
  "wr_max_size r = 0 \<or> length (window_spec r s xs) \<le> unat (wr_max_size r)"
  "wr_frame_type r \<noteq> kFrameRows \<or> length (window_spec r s xs) \<le> unat (wr_start_row r + 1)"
  by (auto simp: window_spec_def frame_len_def Let_def word_gt_0)

lemma BufferData_plain:
  assumes "window_inv r w" and "ends_at_row c r"
  shows "BufferData c key row w =
    (if front_exceeds key w then Some (False, w)
     else map_option (Pair True) (BufferEffectiveWindow key row (offset_ts key (wr_start_offset r)) w))"
  using assms
  by (auto simp: BufferData_def window_inv_def ends_at_row_def HistoryWindow_BufferData_def BufferCurrentTimeBuffer_def
      CurrentHistoryWindow_BufferData_def Let_def split: WindowClass.splits)

lemma front_exceeds_newest:
  assumes "newest_first (w_table w)"
  shows "front_exceeds key w \<longleftrightarrow> \<not> (\<forall>p \<in> set (w_table w). fst p \<le> key)"
  using assms by (cases "w_table w") (auto simp: front_exceeds_def not_le intro: order_trans)

lemma window_inv_buffer:
  assumes "window_inv r w" and "ends_at_row c r"
  shows "\<exists>w'. BufferData c key row w = Some (\<forall>p \<in> set (w_table w). fst p \<le> key, w') \<and> window_inv r w'"
proof -
  have "newest_first (w_table w)" using assms by (simp add: window_inv_def)
  note fr = front_exceeds_newest [OF this, of key]
  show ?thesis
  proof (cases "front_exceeds key w")
    case True
    then show ?thesis using assms fr by (simp add: BufferData_plain)
  next
    case False
    then have n: "newest_first ((key, row) # w_table w)" using fr assms by (auto simp: window_inv_def)
    then have "newest_first (window_spec r s ((key, row) # w_table w))" for s
      unfolding window_spec_def by (rule sorted_wrt_take)
    then show ?thesis
      using False fr assms window_spec_bounds [of r]
      by (simp add: BufferData_plain BufferEffectiveWindow_spec [OF n]) (simp add: window_inv_def)
  qed
qed

lemma window_inv_step:
  assumes "window_step c w w'" and "window_inv r w" and "ends_at_row c r"
  shows "window_inv r w'"
  using assms(1)
proof (rule window_stepE)
  fix key row ok assume "BufferData c key row w = Some (ok, w')"
  then show ?thesis using window_inv_buffer [OF assms(2,3), of key row] by simp
next
  assume "PopBackData w = Some w'"
  then show ?thesis using assms(2) newest_first_butlast [of "w_table w"]
    by (auto simp: PopBackData_def pop_back_def window_inv_def split: if_splits)
next
  assume "PopFrontData c w = Some w'"
  then show ?thesis using assms(2)
    by (auto simp: PopFrontData_def HistoryWindow_PopFrontData_def CurrentHistoryWindow_PopFrontData_def pop_front_def
        window_inv_def split: list.splits WindowClass.splits)
qed

lemma window_inv_reachable: "(window_step c)\<^sup>*\<^sup>* (Window_new r) w \<Longrightarrow> ends_at_row c r \<Longrightarrow> window_inv r w"
proof (induction rule: rtranclp_induct)
  case base
  show ?case by (simp add: window_inv_def Window_new_def)
next
  case (step y z)
  then show ?case by (auto intro: window_inv_step)
qed

subsection \<open>Buffering in any state\<close>

text \<open>No loop takes from an empty deque, whatever the window holds, and no row is made up.\<close>

lemma slide_loop_prefix: "n = length t \<Longrightarrow> \<exists>k. slide_loop r s n t = Some (take k t)"
proof (induction r s n t rule: slide_loop.induct)
  case (2 r s n t)
  have t: "t \<noteq> []" "pop_back t = Some (butlast t)" "n = length (butlast t)" using 2(2) by (auto simp: pop_back_def)
  have all: "\<exists>k. Some t = Some (take k t)" by (intro exI [of _ "length t"]) simp
  have less: "\<exists>k. Some (take j (butlast t)) = Some (take k t)" for j by (auto simp: butlast_conv_take)
  show ?case
    using 2(1) [OF t(1) _ _ t(2,3)] t(1,2) all less by (simp del: option.inject) (metis (no_types, lifting))
qed (auto intro: exI [of _ 0])

lemma BufferEffectiveWindow_total:
  "\<exists>k. BufferEffectiveWindow key row s w = Some (w\<lparr>w_table := take k ((key, row) # w_table w)\<rparr>)"
proof -
  let ?t = "(key, row) # w_table w"
  define m where "m = wr_max_size (w_range w)"
  define j where "j = (if m > 0 then unat m else length ?t)"
  have j: "cap_loop m (length ?t) ?t = Some (length (take j ?t), take j ?t)"
    using cap_loop_take [OF refl, of m ?t] by (simp add: j_def Let_def del: take_Suc_Cons)
  obtain k where "slide_loop (w_range w) s (length (take j ?t)) (take j ?t) = Some (take k (take j ?t))"
    using slide_loop_prefix by blast
  then show ?thesis using j by (auto simp: BufferEffectiveWindow_def m_def Let_def simp del: take_Suc_Cons)
qed

definition window_rows :: "Window \<Rightarrow> (u64 \<times> Row) set" where
  "window_rows w = set (w_table w) \<union> set (w_history w)"

lemma BufferEffectiveWindow_rows:
  "\<exists>w'. BufferEffectiveWindow key row s w = Some w' \<and> w_history w' = w_history w \<and>
     window_rows w' \<subseteq> insert (key, row) (window_rows w)"
  using BufferEffectiveWindow_total [of key row s w] by (fastforce simp: window_rows_def dest: in_set_takeD)

lemma history_loop_rows:
  "n = length (w_history w) \<Longrightarrow> \<exists>w'. history_loop e s n w = Some w' \<and> window_rows w' \<subseteq> window_rows w"
proof (induction n arbitrary: w)
  case (Suc n)
  let ?b = "last (w_history w)"
  have b: "?b \<in> set (w_history w)" using Suc.prems by (cases "w_history w") auto
  obtain v where v: "BufferEffectiveWindow (fst ?b) (snd ?b) s w = Some v" "w_history v = w_history w"
    "window_rows v \<subseteq> insert ?b (window_rows w)"
    using BufferEffectiveWindow_rows [of "fst ?b" "snd ?b" s w] by auto
  let ?v = "v\<lparr>w_history := butlast (w_history w)\<rparr>"
  have n: "n = length (w_history ?v)" by (simp flip: Suc.prems)
  have sub: "window_rows ?v \<subseteq> window_rows w" using v(3) b by (auto simp: window_rows_def dest: in_set_butlastD)
  obtain w' where "history_loop e s n ?v = Some w'" "window_rows w' \<subseteq> window_rows ?v"
    using Suc.IH [of ?v] n by auto
  moreover have "w_history w \<noteq> []" using Suc.prems by auto
  ultimately show ?case using sub v(1,2) by (auto simp: pop_back_def Let_def)
qed simp

lemma BufferCurrentHistoryBuffer_rows:
  "\<exists>w'. BufferCurrentHistoryBuffer key row e w = Some w' \<and> window_rows w' \<subseteq> insert (key, row) (window_rows w)"
  using history_loop_rows [OF refl, of e _ "w\<lparr>w_history := (key, row) # w_history w\<rparr>"]
  by (fastforce simp: BufferCurrentHistoryBuffer_def window_rows_def Let_def)

lemma BufferCurrentTimeBuffer_rows:
  "\<exists>w'. BufferCurrentTimeBuffer key row s w = Some w' \<and> window_rows w' \<subseteq> insert (key, row) (window_rows w)"
proof (cases "w_exclude_current_time w")
  case False
  then show ?thesis using BufferEffectiveWindow_rows [of key row s w] by (auto simp: BufferCurrentTimeBuffer_def)
next
  case True
  obtain u where u: "PopEffectiveData w = Some u" "window_rows u \<subseteq> window_rows w"
    by (cases "w_table w") (auto simp: PopEffectiveData_def pop_front_def window_rows_def)
  obtain v where v: "BufferCurrentHistoryBuffer key row (key - 1) u = Some v"
    "window_rows v \<subseteq> insert (key, row) (window_rows u)"
    using BufferCurrentHistoryBuffer_rows by blast
  obtain w' where "BufferEffectiveWindow key row s v = Some w'" "window_rows w' \<subseteq> insert (key, row) (window_rows v)"
    using BufferEffectiveWindow_rows by blast
  then show ?thesis using True u v by (auto simp: BufferCurrentTimeBuffer_def)
qed

lemma BufferData_rows:
  assumes "\<not> front_exceeds key w"
  shows "\<exists>w'. BufferData c key row w = Some (True, w') \<and> window_rows w' \<subseteq> insert (key, row) (window_rows w)"
proof -
  let ?s = "offset_ts key (wr_start_offset (w_range w))" and ?e = "offset_ts key (wr_end_offset (w_range w))"
  have "BufferData c key row w \<in> map_option (Pair True) ` {BufferEffectiveWindow key row ?s w,
      BufferCurrentTimeBuffer key row ?s w, BufferCurrentHistoryBuffer key row ?e w}"
    using assms by (auto simp: BufferData_def HistoryWindow_BufferData_def CurrentHistoryWindow_BufferData_def Let_def
        split: WindowClass.splits)
  then show ?thesis
    using BufferEffectiveWindow_rows [of key row ?s w] BufferCurrentTimeBuffer_rows [of key row ?s w]
      BufferCurrentHistoryBuffer_rows [of key row ?e w] by auto
qed

subsection \<open>Properties\<close>

text \<open>C18. Refinement of the window's contract: after rows in order of time, the window kept incrementally by
  \<open>CurrentHistoryWindow\<close> is the frame of the last row over the whole history, whatever the frame: the last
  \<open>start_row + 1\<close> rows, the rows not before \<open>key + start_offset\<close>, or the longer of the two, never more than
  \<open>max_size\<close>. No row is refused and nothing is taken from an empty deque.\<close>

theorem current_window_refines:
  assumes "rows \<noteq> []" and "sorted (map fst rows)" and "0 \<le> sint (fst (last rows))" and "sint (wr_start_offset r) \<le> 0"
  shows "buffer_all CurrentHistoryWindow_BufferData rows (Window_new r) =
    Some ((Window_new r)\<lparr>w_table := window_spec r (offset_ts (fst (last rows)) (wr_start_offset r)) (rev rows)\<rparr>)"
  by (rule current_window_all) (use assms in \<open>simp_all add: Window_new_def\<close>)

theorem current_window_refines_witness:
  "map_option w_table (buffer_all CurrentHistoryWindow_BufferData [(2, mem_row), (5, mem_row), (13, mem_row)]
      (Window_new (CreateRowsRangeWindow (- 10) 0 0))) = Some [(13, mem_row), (5, mem_row)]"
  using current_window_refines [of "[(2, mem_row), (5, mem_row), (13, mem_row)]" "CreateRowsRangeWindow (- 10) 0 0"]
  by (simp add: CreateRowsRangeWindow_def WindowRange_new_def window_spec_def frame_len_def in_range_len_def
      offset_ts_def)

text \<open>C19. With \<open>EXCLUDE CURRENT_TIME\<close> the window of a row is that row and the frame's rows of strictly earlier
  times; the rows of the current time wait in the buffer. Times are positive, and a rows frame does not
  count \<open>2^64\<close> rows.\<close>

theorem exclude_current_time_window:
  assumes "rows \<noteq> []" and "sorted (map fst rows)" and "\<forall>p \<in> set rows. 0 < fst p" and "0 \<le> sint (fst (last rows))"
    and "sint (wr_start_offset r) \<le> 0" and "wr_frame_type r = kFrameRows \<Longrightarrow> wr_start_row r + 1 \<noteq> 0"
  shows "buffer_all CurrentHistoryWindow_BufferData rows ((Window_new r)\<lparr>w_exclude_current_time := True\<rparr>) =
    Some ((Window_new r)\<lparr>w_exclude_current_time := True,
      w_history := filter (\<lambda>p. fst (last rows) \<le> fst p) (rev rows),
      w_table := window_spec r (offset_ts (fst (last rows)) (wr_start_offset r))
        (last rows # filter (\<lambda>p. fst p < fst (last rows)) (rev rows))\<rparr>)"
proof -
  have "0 < fst (last rows)" using assms(1,3) by simp
  then show ?thesis
    using exclude_window_all [OF assms, of "(Window_new r)\<lparr>w_exclude_current_time := True\<rparr>"]
    by (simp add: Window_new_def le_minus_one)
qed

theorem exclude_current_time_window_witness:
  "map_option w_table (buffer_all CurrentHistoryWindow_BufferData [(1, mem_row), (5, mem_row), (5, mem_row)]
      ((Window_new (CreateRowsWindow 3))\<lparr>w_exclude_current_time := True\<rparr>)) = Some [(5, mem_row), (1, mem_row)]"
  using exclude_current_time_window [of "[(1, mem_row), (5, mem_row), (5, mem_row)]" "CreateRowsWindow 3"]
  by (simp add: CreateRowsWindow_def WindowRange_new_def window_spec_def frame_len_def)



text \<open>Nothing removes the rows before the frame's start while no row moves from the buffer: at time 11 the
  window from 10 to 2 before still has the row of time 0.\<close>

lemma history_window_stale_row:
  "map_option w_table (buffer_all HistoryWindow_BufferData [(0, mem_row), (10, mem_row), (11, mem_row)]
      (Window_new (CreateRowsRangeWindow (- 10) (- 2) 0))) = Some [(0, mem_row)]"
  by (simp add: buffer_all_def HistoryWindow_BufferData_def BufferCurrentHistoryBuffer_def Window_new_def
      CreateRowsRangeWindow_def WindowRange_new_def front_exceeds_def offset_ts_def BufferEffectiveWindow_def pop_back_def Let_def)

text \<open>\<open>key - 1\<close> wraps at time 0: the row is moved into the window and then added again.\<close>

lemma exclude_current_time_zero_twice:
  "map_option w_table (CurrentHistoryWindow_BufferData 0 mem_row
      ((Window_new (CreateRowsWindow 3))\<lparr>w_exclude_current_time := True\<rparr>) \<bind> (\<lambda>(ok, w). Some w)) =
    Some [(0, mem_row), (0, mem_row)]"
  by (simp add: CurrentHistoryWindow_BufferData_def BufferCurrentTimeBuffer_def PopEffectiveData_def
      BufferCurrentHistoryBuffer_def Window_new_def CreateRowsWindow_def WindowRange_new_def front_exceeds_def
      offset_ts_def BufferEffectiveWindow_def pop_back_def Let_def)

text \<open>C22. Without an end offset the two window classes buffer a row the same way, in every state and with or
  without \<open>EXCLUDE CURRENT_TIME\<close>.\<close>

theorem window_variants_agree:
  assumes "wr_end_offset (w_range w) = 0"
  shows "HistoryWindow_BufferData key row w = CurrentHistoryWindow_BufferData key row w"
  using assms by (simp add: HistoryWindow_BufferData_def CurrentHistoryWindow_BufferData_def BufferCurrentTimeBuffer_def Let_def)

theorem window_variants_agree_witness:
  "HistoryWindow_BufferData 7 mem_row (Window_new (CreateRowsWindow 3)) =
     CurrentHistoryWindow_BufferData 7 mem_row (Window_new (CreateRowsWindow 3))"
  by (rule window_variants_agree) (simp add: Window_new_def CreateRowsWindow_def WindowRange_new_def)

text \<open>C21. Without \<open>EXCLUDE CURRENT_TIME\<close>, whatever sequence of rows, in order or not, and of removals a window
  has seen, its rows are newest first, no more than \<open>max_size\<close> where that is set and no more than \<open>start_row + 1\<close>
  in a rows frame, and the next row is buffered when it is at least as new as every row in the window and
  refused otherwise, never undefined. This is for a \<open>CurrentHistoryWindow\<close> of any frame, and for a \<open>HistoryWindow\<close>
  whose frame has no end offset.\<close>

theorem window_invariant:
  assumes "(window_step c)\<^sup>*\<^sup>* (Window_new r) w" and "c = HistoryWindow \<Longrightarrow> wr_end_offset r = 0"
  shows "newest_first (w_table w) \<and>
    (wr_max_size r = 0 \<or> length (w_table w) \<le> unat (wr_max_size r)) \<and>
    (wr_frame_type r \<noteq> kFrameRows \<or> length (w_table w) \<le> unat (wr_start_row r + 1)) \<and>
    (\<exists>w'. BufferData c key row w = Some (\<forall>p \<in> set (w_table w). fst p \<le> key, w'))"
proof -
  have e: "ends_at_row c r" using assms(2) by (simp add: ends_at_row_def)
  show ?thesis
    using window_inv_reachable [OF assms(1) e] window_inv_buffer [OF _ e, of w key row] by (auto simp: window_inv_def)
qed

theorem window_invariant_witness:
  "length (w_table ((Window_new (CreateRowsWindow 3))\<lparr>w_table := [(7, mem_row)]\<rparr>)) \<le> 4"
proof -
  let ?w = "(Window_new (CreateRowsWindow 3))\<lparr>w_table := [(7, mem_row)]\<rparr>"
  have "window_step HistoryWindow (Window_new (CreateRowsWindow 3)) ?w"
    by (rule step_buffer [of _ 7 mem_row _ True])
      (simp add: BufferData_def HistoryWindow_BufferData_def BufferCurrentTimeBuffer_def BufferEffectiveWindow_def
        Window_new_def front_exceeds_def CreateRowsWindow_def WindowRange_new_def Let_def)
  then have "(window_step HistoryWindow)\<^sup>*\<^sup>* (Window_new (CreateRowsWindow 3)) ?w" by (rule r_into_rtranclp)
  moreover have "wr_end_offset (CreateRowsWindow 3) = 0" by (simp add: CreateRowsWindow_def WindowRange_new_def)
  ultimately show ?thesis using window_invariant [of HistoryWindow "CreateRowsWindow 3" ?w] by simp
qed

text \<open>C23. The start or end of a frame is \<open>key + offset\<close>, clamped at 0, with no wrap-around, for every time that
  is a non-negative \<open>int64\<close> and every offset that is not positive, down to the least \<open>int64\<close>.\<close>

theorem offset_ts_bounds:
  assumes "0 \<le> sint key" and "sint off \<le> 0"
  shows "uint (offset_ts key off) = max 0 (uint key + sint off) \<and> offset_ts key off \<le> key"
  using offset_ts_int [OF assms] offset_ts_le [OF assms] by simp

theorem offset_ts_bounds_witness:
  "uint (offset_ts 5 (- 9223372036854775808)) = 0"
  using offset_ts_bounds [of 5 "- 9223372036854775808"] by simp

text \<open>C24. In every state of a window of either class, reached or not, of any frame and with or without
  \<open>EXCLUDE CURRENT_TIME\<close>, \<open>BufferData\<close> ends with a result, its loops never taking from an empty deque: a row older
  than the row at the front of the deque is refused and leaves the window as it was, every other row is accepted,
  and then the deque and the buffer hold only rows they had before and the new one.\<close>

theorem BufferData_refuses:
  "if w_table w \<noteq> [] \<and> key < fst (hd (w_table w)) then BufferData c key row w = Some (False, w)
   else \<exists>w'. BufferData c key row w = Some (True, w') \<and>
     set (w_table w') \<union> set (w_history w') \<subseteq> insert (key, row) (set (w_table w) \<union> set (w_history w))"
proof (cases "front_exceeds key w")
  case True
  then show ?thesis
    by (cases "w_table w") (auto simp: front_exceeds_def BufferData_def HistoryWindow_BufferData_def
        CurrentHistoryWindow_BufferData_def split: WindowClass.splits)
next
  case False
  then have "\<not> (w_table w \<noteq> [] \<and> key < fst (hd (w_table w)))" by (cases "w_table w") (auto simp: front_exceeds_def)
  then show ?thesis using BufferData_rows [OF False, of c row] by (auto simp: window_rows_def)
qed

end
