(* ===== verification/Data_Handlers.thy ===== *)
theory Data_Handlers
  imports Window_Buffer
begin

text \<open>
  The data handlers of \<open>catalog.h\<close> and the wrappers of \<open>catalog_wrapper.h\<close>. A table handler is the table
  of its virtual functions: the operations of its iterators, the iterator \<open>GetIterator\<close> returns
  (\<open>None\<close> for a null pointer), its order, \<open>At\<close> and \<open>GetCount\<close>. The wrappers change that table. The
  predicate \<open>table_has\<close> is the contract a client relies on: the entries a traversal from \<open>SeekToFirst\<close>
  visits. Names, schemas and index hints are left out.
\<close>

subsection \<open>Iterators of the in-memory tables\<close>

text \<open>The dynamic type of an iterator, and the dispatch of a virtual call.\<close>

datatype mem_iter = TimeIt MemTimeTableIterator | RowIt MemTableIterator

definition mem_iter_ops :: "(mem_iter, Row) iter_ops" where
  "mem_iter_ops =
     \<lparr>op_Valid = (\<lambda>it. case it of TimeIt i \<Rightarrow> op_Valid MemTimeTableIterator_ops i
                                  | RowIt i \<Rightarrow> op_Valid MemTableIterator_ops i),
      op_Next = (\<lambda>it. case it of TimeIt i \<Rightarrow> map_option TimeIt (op_Next MemTimeTableIterator_ops i)
                                 | RowIt i \<Rightarrow> map_option RowIt (op_Next MemTableIterator_ops i)),
      op_GetKey = (\<lambda>it. case it of TimeIt i \<Rightarrow> op_GetKey MemTimeTableIterator_ops i
                                   | RowIt i \<Rightarrow> op_GetKey MemTableIterator_ops i),
      op_GetValue = (\<lambda>it. case it of TimeIt i \<Rightarrow> op_GetValue MemTimeTableIterator_ops i
                                     | RowIt i \<Rightarrow> op_GetValue MemTableIterator_ops i),
      op_Seek = (\<lambda>k it. case it of TimeIt i \<Rightarrow> map_option TimeIt (op_Seek MemTimeTableIterator_ops k i)
                                   | RowIt i \<Rightarrow> map_option RowIt (op_Seek MemTableIterator_ops k i)),
      op_SeekToFirst = (\<lambda>it. case it of TimeIt i \<Rightarrow> map_option TimeIt (op_SeekToFirst MemTimeTableIterator_ops i)
                                        | RowIt i \<Rightarrow> map_option RowIt (op_SeekToFirst MemTableIterator_ops i))\<rparr>"

definition mi_ok :: "mem_iter \<Rightarrow> bool" where
  "mi_ok it = (case it of TimeIt i \<Rightarrow> ti_ok i | RowIt i \<Rightarrow> bi_ok i)"

definition mi_rest :: "mem_iter \<Rightarrow> MemTimeTable" where
  "mi_rest it = (case it of TimeIt i \<Rightarrow> ti_rest i | RowIt i \<Rightarrow> bi_entries i (bi_pos i))"

definition mi_whole :: "mem_iter \<Rightarrow> MemTimeTable" where
  "mi_whole it = (case it of TimeIt i \<Rightarrow> ti_whole i | RowIt i \<Rightarrow> bi_entries i (bi_start i))"

interpretation mi: rows_iterator mem_iter_ops mi_ok mi_rest mi_whole
proof
  fix it assume i: "mi_ok it"
  show "op_Valid mem_iter_ops it \<longleftrightarrow> mi_rest it \<noteq> []"
    using i by (cases it) (simp_all add: mem_iter_ops_def mi_ok_def mi_rest_def ti.valid_rest bi.valid_rest)
  show "\<exists>it'. op_SeekToFirst mem_iter_ops it = Some it' \<and> mi_ok it' \<and> mi_rest it' = mi_whole it \<and> mi_whole it' = mi_whole it"
    using i ti.first_rest bi.first_rest
    by (cases it) (fastforce simp: mem_iter_ops_def mi_ok_def mi_rest_def mi_whole_def)+
  fix p ps assume "mi_rest it = p # ps"
  then show "\<exists>it'. op_Next mem_iter_ops it = Some it' \<and> mi_ok it' \<and> mi_rest it' = ps \<and> mi_whole it' = mi_whole it"
    using i ti.next_rest bi.next_rest
    by (cases it) (fastforce simp: mem_iter_ops_def mi_ok_def mi_rest_def mi_whole_def)+
next
  fix it k v ps assume "mi_ok it" "mi_rest it = (k, v) # ps"
  then show "op_GetKey mem_iter_ops it = Some k \<and> op_GetValue mem_iter_ops it = Some v"
    using ti.at_rest bi.at_rest by (cases it) (auto simp: mem_iter_ops_def mi_ok_def mi_rest_def)
qed

subsection \<open>Projecting and filtering iterators\<close>

text \<open>\<open>IteratorProjectWrapper\<close> and \<open>IteratorFilterWrapper\<close>; \<open>fn\<close> and \<open>pred\<close> are the function objects with
  their parameter row applied.\<close>

definition Project_ops :: "(Row \<Rightarrow> Row option) \<Rightarrow> ('it, Row) iter_ops \<Rightarrow> ('it, Row) iter_ops" where
  "Project_ops fn ops =
     \<lparr>op_Valid = op_Valid ops, op_Next = op_Next ops, op_GetKey = op_GetKey ops,
      op_GetValue = (\<lambda>it. do { row \<leftarrow> op_GetValue ops it; fn row }),
      op_Seek = op_Seek ops, op_SeekToFirst = op_SeekToFirst ops\<rparr>"

partial_function (option) filter_skip :: "('it, Row) iter_ops \<Rightarrow> (Row \<Rightarrow> bool option) \<Rightarrow> 'it \<Rightarrow> 'it option" where
  "filter_skip ops pred it =
     (if op_Valid ops it then do {
        row \<leftarrow> op_GetValue ops it;
        b \<leftarrow> pred row;
        if b then Some it else do { it' \<leftarrow> op_Next ops it; filter_skip ops pred it' }
      } else Some it)"

definition Filter_ops :: "(Row \<Rightarrow> bool option) \<Rightarrow> ('it, Row) iter_ops \<Rightarrow> ('it, Row) iter_ops" where
  "Filter_ops pred ops =
     \<lparr>op_Valid = (\<lambda>it. op_Valid ops it \<and> (op_GetValue ops it \<bind> pred) = Some True),
      op_Next = (\<lambda>it. do { it' \<leftarrow> op_Next ops it; filter_skip ops pred it' }),
      op_GetKey = op_GetKey ops, op_GetValue = op_GetValue ops,
      op_Seek = (\<lambda>k it. do { it' \<leftarrow> op_Seek ops k it; filter_skip ops pred it' }),
      op_SeekToFirst = (\<lambda>it. do { it' \<leftarrow> op_SeekToFirst ops it; filter_skip ops pred it' })\<rparr>"

abbreviation holds :: "(Row \<Rightarrow> bool option) \<Rightarrow> u64 \<times> Row \<Rightarrow> bool" where
  "holds pred p \<equiv> pred (snd p) = Some True"

text \<open>The function object is defined on every row it meets.\<close>

definition defined_on :: "(Row \<Rightarrow> 'a option) \<Rightarrow> (u64 \<times> Row) list \<Rightarrow> bool" where
  "defined_on f xs \<longleftrightarrow> (\<forall>p \<in> set xs. f (snd p) \<noteq> None)"

lemma defined_on_simps [simp]:
  "defined_on f []" "defined_on f (p # xs) \<longleftrightarrow> f (snd p) \<noteq> None \<and> defined_on f xs"
  by (simp_all add: defined_on_def)

definition filter_rest :: "(Row \<Rightarrow> bool option) \<Rightarrow> (u64 \<times> Row) list \<Rightarrow> (u64 \<times> Row) list" where
  "filter_rest pred xs = (case xs of [] \<Rightarrow> [] | p # _ \<Rightarrow> if holds pred p then filter (holds pred) xs else [])"

lemma filter_rest_dropWhile: "filter_rest pred (dropWhile (\<lambda>p. \<not> holds pred p) xs) = filter (holds pred) xs"
  by (induction xs) (simp_all add: filter_rest_def)

context rows_iterator
begin

lemma filter_skip_rest:
  "ok it \<Longrightarrow> defined_on pred (rest it) \<Longrightarrow>
     \<exists>it'. filter_skip ops pred it = Some it' \<and> ok it' \<and> rest it' = dropWhile (\<lambda>p. \<not> holds pred p) (rest it) \<and>
       whole it' = whole it"
proof (induction "rest it" arbitrary: it)
  case Nil
  then show ?case by (subst filter_skip.simps) (simp add: valid_rest)
next
  case (Cons p ps)
  note r = Cons.hyps(2) [symmetric]
  have v: "op_GetValue ops it = Some (snd p)" "op_Valid ops it"
    using at_rest [OF Cons.prems(1), of "fst p" "snd p"] valid_rest [OF Cons.prems(1)] r by simp_all
  obtain it' where it': "op_Next ops it = Some it'" "ok it'" "rest it' = ps" "whole it' = whole it"
    using next_rest [OF Cons.prems(1) r] by auto
  obtain b where "pred (snd p) = Some b" using Cons.prems(2) r by auto
  then show ?case
    using Cons.hyps(1) [of it'] Cons.prems v it' r by (subst filter_skip.simps) auto
qed

lemma filter_iterator:
  "rows_iterator (Filter_ops pred ops)
     (\<lambda>it. ok it \<and> defined_on pred (rest it) \<and> defined_on pred (whole it))
     (\<lambda>it. filter_rest pred (rest it)) (\<lambda>it. filter (holds pred) (whole it))"
proof
  fix it assume i: "ok it \<and> defined_on pred (rest it) \<and> defined_on pred (whole it)"
  show "op_Valid (Filter_ops pred ops) it \<longleftrightarrow> filter_rest pred (rest it) \<noteq> []"
  proof (cases "rest it")
    case Nil
    then show ?thesis using i by (simp add: Filter_ops_def valid_rest filter_rest_def)
  next
    case (Cons p ps)
    then show ?thesis
      using i at_rest [of it "fst p" "snd p" ps] by (auto simp: Filter_ops_def valid_rest filter_rest_def)
  qed
  obtain it1 where it1: "op_SeekToFirst ops it = Some it1" "ok it1" "rest it1 = whole it" "whole it1 = whole it"
    using first_rest i by blast
  then obtain it2 where "filter_skip ops pred it1 = Some it2" "ok it2"
      "rest it2 = dropWhile (\<lambda>p. \<not> holds pred p) (whole it)" "whole it2 = whole it"
    using filter_skip_rest [of it1 pred] i by auto
  moreover have "defined_on pred (dropWhile (\<lambda>p. \<not> holds pred p) (whole it))"
    using i by (auto simp: defined_on_def dest: set_dropWhileD)
  ultimately show "\<exists>it'. op_SeekToFirst (Filter_ops pred ops) it = Some it' \<and>
      (ok it' \<and> defined_on pred (rest it') \<and> defined_on pred (whole it')) \<and>
      filter_rest pred (rest it') = filter (holds pred) (whole it) \<and>
      filter (holds pred) (whole it') = filter (holds pred) (whole it)"
    using it1 i by (simp add: Filter_ops_def filter_rest_dropWhile)
  fix p ps assume "filter_rest pred (rest it) = p # ps"
  then obtain qs where q: "rest it = p # qs" "filter (holds pred) qs = ps"
    by (auto simp: filter_rest_def split: list.splits if_splits)
  obtain it1 where it1: "op_Next ops it = Some it1" "ok it1" "rest it1 = qs" "whole it1 = whole it"
    using next_rest q(1) i by blast
  then obtain it2 where "filter_skip ops pred it1 = Some it2" "ok it2"
      "rest it2 = dropWhile (\<lambda>p. \<not> holds pred p) qs" "whole it2 = whole it"
    using filter_skip_rest [of it1 pred] i q(1) by auto
  moreover have "defined_on pred (dropWhile (\<lambda>p. \<not> holds pred p) qs)"
    using i q(1) by (auto simp: defined_on_def dest: set_dropWhileD)
  ultimately show "\<exists>it'. op_Next (Filter_ops pred ops) it = Some it' \<and>
      (ok it' \<and> defined_on pred (rest it') \<and> defined_on pred (whole it')) \<and>
      filter_rest pred (rest it') = ps \<and> filter (holds pred) (whole it') = filter (holds pred) (whole it)"
    using it1 i q(2) by (simp add: Filter_ops_def filter_rest_dropWhile)
next
  fix it k v ps
  assume "ok it \<and> defined_on pred (rest it) \<and> defined_on pred (whole it)" "filter_rest pred (rest it) = (k, v) # ps"
  then show "op_GetKey (Filter_ops pred ops) it = Some k \<and> op_GetValue (Filter_ops pred ops) it = Some v"
    using at_rest by (auto simp: Filter_ops_def filter_rest_def split: list.splits if_splits)
qed

lemma project_iterator:
  "rows_iterator (Project_ops fn ops)
     (\<lambda>it. ok it \<and> defined_on fn (rest it) \<and> defined_on fn (whole it))
     (\<lambda>it. map (\<lambda>(k, r). (k, the (fn r))) (rest it)) (\<lambda>it. map (\<lambda>(k, r). (k, the (fn r))) (whole it))"
proof
  fix it assume i: "ok it \<and> defined_on fn (rest it) \<and> defined_on fn (whole it)"
  show "op_Valid (Project_ops fn ops) it \<longleftrightarrow> map (\<lambda>(k, r). (k, the (fn r))) (rest it) \<noteq> []"
    using i by (simp add: Project_ops_def valid_rest)
  show "\<exists>it'. op_SeekToFirst (Project_ops fn ops) it = Some it' \<and>
      (ok it' \<and> defined_on fn (rest it') \<and> defined_on fn (whole it')) \<and>
      map (\<lambda>(k, r). (k, the (fn r))) (rest it') = map (\<lambda>(k, r). (k, the (fn r))) (whole it) \<and>
      map (\<lambda>(k, r). (k, the (fn r))) (whole it') = map (\<lambda>(k, r). (k, the (fn r))) (whole it)"
    using i first_rest [of it] by (auto simp: Project_ops_def)
  fix p ps assume "map (\<lambda>(k, r). (k, the (fn r))) (rest it) = p # ps"
  then obtain q qs where q: "rest it = q # qs" "map (\<lambda>(k, r). (k, the (fn r))) qs = ps" by auto
  then show "\<exists>it'. op_Next (Project_ops fn ops) it = Some it' \<and>
      (ok it' \<and> defined_on fn (rest it') \<and> defined_on fn (whole it')) \<and>
      map (\<lambda>(k, r). (k, the (fn r))) (rest it') = ps \<and>
      map (\<lambda>(k, r). (k, the (fn r))) (whole it') = map (\<lambda>(k, r). (k, the (fn r))) (whole it)"
    using i next_rest [of it q qs] by (auto simp: Project_ops_def)
next
  fix it k v ps
  assume "ok it \<and> defined_on fn (rest it) \<and> defined_on fn (whole it)"
    "map (\<lambda>(k, r). (k, the (fn r))) (rest it) = (k, v) # ps"
  then show "op_GetKey (Project_ops fn ops) it = Some k \<and> op_GetValue (Project_ops fn ops) it = Some v"
    using at_rest [of it] by (auto simp: Project_ops_def)
qed

end

subsection \<open>Handlers\<close>

record TableHandler =
  th_ops :: "(mem_iter, Row) iter_ops"
  th_iter :: "mem_iter option"
  th_order :: OrderType
  th_At :: "u64 \<Rightarrow> Row option"
  th_GetCount :: "u64 option"

text \<open>\<open>GetIterator\<close> and then \<open>SeekToFirst\<close>, as every client does: a null iterator is \<open>Some None\<close>.\<close>

definition th_first :: "TableHandler \<Rightarrow> mem_iter option option" where
  "th_first t = (case th_iter t of None \<Rightarrow> Some None | Some it \<Rightarrow> map_option Some (op_SeekToFirst (th_ops t) it))"

definition time_table :: "MemTimeTableHandler \<Rightarrow> TableHandler" where
  "time_table h =
     \<lparr>th_ops = mem_iter_ops, th_iter = Some (TimeIt (MemTimeTableIterator_new (mt_table h))),
      th_order = mt_order_type h, th_At = (\<lambda>pos. Some (mt_At h pos)), th_GetCount = Some (mt_GetCount h)\<rparr>"

definition row_table :: "MemTableHandler \<Rightarrow> TableHandler" where
  "row_table h =
     \<lparr>th_ops = mem_iter_ops, th_iter = Some (RowIt (MemTableIterator_new (tb_table h))),
      th_order = tb_order_type h, th_At = (\<lambda>pos. Some (tb_At h pos)), th_GetCount = Some (tb_GetCount h)\<rparr>"

definition segment_table :: "MemPartitionHandler \<Rightarrow> byte list \<Rightarrow> TableHandler" where
  "segment_table h key =
     \<lparr>th_ops = mem_iter_ops,
      th_iter = (case sg_GetIterator h key of None \<Rightarrow> None | Some it \<Rightarrow> map_option TimeIt it),
      th_order = mp_order_type h, th_At = sg_At h key, th_GetCount = sg_GetCount h key\<rparr>"

definition TableProjectWrapper :: "(Row \<Rightarrow> Row option) \<Rightarrow> TableHandler \<Rightarrow> TableHandler" where
  "TableProjectWrapper fn t =
     t\<lparr>th_ops := Project_ops fn (th_ops t), th_At := (\<lambda>pos. do { row \<leftarrow> th_At t pos; fn row })\<rparr>"

text \<open>\<open>TableFilterWrapper\<close> inherits \<open>At\<close> and \<open>GetCount\<close> of \<open>ListV\<close>, which start from the iterator as it was
  constructed.\<close>

definition TableFilterWrapper :: "(Row \<Rightarrow> bool option) \<Rightarrow> TableHandler \<Rightarrow> TableHandler" where
  "TableFilterWrapper pred t =
     t\<lparr>th_ops := Filter_ops pred (th_ops t),
       th_At := (\<lambda>pos. case th_iter t of None \<Rightarrow> Some Row_default
                       | Some it \<Rightarrow> ListV_At (Filter_ops pred (th_ops t)) Row_default it pos),
       th_GetCount := (case th_iter t of None \<Rightarrow> None
                       | Some it \<Rightarrow> ListV_GetCount (Filter_ops pred (th_ops t)) it 0)\<rparr>"

text \<open>A partition handler: what its window iterator visits (the key and the segment's iterator, with
  operations \<open>ph_ops\<close>), \<open>GetSegment\<close> and the order.\<close>

record PartitionHandler =
  ph_ops :: "(mem_iter, Row) iter_ops"
  ph_windows :: "(byte list \<times> mem_iter option) list"
  ph_segment :: "byte list \<Rightarrow> TableHandler"
  ph_order :: OrderType

definition mem_partition :: "MemPartitionHandler \<Rightarrow> PartitionHandler" where
  "mem_partition h =
     \<lparr>ph_ops = mem_iter_ops,
      ph_windows = map (\<lambda>(k, t). (k, Some (TimeIt (MemTimeTableIterator_new t)))) (mp_partitions h),
      ph_segment = segment_table h, ph_order = mp_order_type h\<rparr>"

definition PartitionProjectWrapper :: "(Row \<Rightarrow> Row option) \<Rightarrow> PartitionHandler \<Rightarrow> PartitionHandler" where
  "PartitionProjectWrapper fn p =
     p\<lparr>ph_ops := Project_ops fn (ph_ops p), ph_segment := (\<lambda>key. TableProjectWrapper fn (ph_segment p key))\<rparr>"

definition PartitionFilterWrapper :: "(Row \<Rightarrow> bool option) \<Rightarrow> PartitionHandler \<Rightarrow> PartitionHandler" where
  "PartitionFilterWrapper pred p =
     p\<lparr>ph_ops := Filter_ops pred (ph_ops p), ph_segment := (\<lambda>key. TableFilterWrapper pred (ph_segment p key))\<rparr>"

datatype DataHandler = RowH Row | TableH TableHandler | PartitionH PartitionHandler

datatype HandlerType = kRowHandler | kTableHandler | kPartitionHandler

definition GetHanlderType :: "DataHandler \<Rightarrow> HandlerType" where
  "GetHanlderType d = (case d of RowH _ \<Rightarrow> kRowHandler | TableH _ \<Rightarrow> kTableHandler | PartitionH _ \<Rightarrow> kPartitionHandler)"

text \<open>\<open>RowProjectWrapper::GetValue\<close> and \<open>RowCombineWrapper::GetValue\<close>; the latter computes its value once.\<close>

definition RowProjectWrapper_GetValue :: "(Row \<Rightarrow> Row option) \<Rightarrow> Row \<Rightarrow> Row option" where
  "RowProjectWrapper_GetValue fn row = (if Row_empty row then Some row else fn row)"

record RowCombineWrapper =
  rc_running :: bool
  rc_value :: Row

definition RowCombine_value :: "nat \<Rightarrow> nat \<Rightarrow> Row option \<Rightarrow> DataHandler option \<Rightarrow> Row option" where
  "RowCombine_value left_slices right_slices left right =
     (case left of None \<Rightarrow> Some Row_default
      | Some left_row \<Rightarrow>
          (case right of
             None \<Rightarrow> Row_concat left_slices left_row right_slices Row_default
           | Some (RowH right_row) \<Rightarrow> Row_concat left_slices left_row right_slices right_row
           | Some (TableH t) \<Rightarrow> do {
               it \<leftarrow> th_first t;
               case it of None \<Rightarrow> Row_concat left_slices left_row right_slices Row_default
               | Some i \<Rightarrow> do { v \<leftarrow> op_GetValue (th_ops t) i; Row_concat left_slices left_row right_slices v }
             }
           | Some (PartitionH _) \<Rightarrow> Row_concat left_slices left_row right_slices Row_default))"

definition RowCombine_GetValue ::
  "nat \<Rightarrow> nat \<Rightarrow> Row option \<Rightarrow> DataHandler option \<Rightarrow> RowCombineWrapper \<Rightarrow> (Row \<times> RowCombineWrapper) option" where
  "RowCombine_GetValue left_slices right_slices left right w =
     (if \<not> rc_running w then Some (rc_value w, w)
      else map_option (\<lambda>v. (v, \<lparr>rc_running = False, rc_value = v\<rparr>))
             (RowCombine_value left_slices right_slices left right))"

text \<open>Lists of handlers, one per request of a batch; a null pointer is \<open>None\<close>.\<close>

datatype DataHandlerList = DataHandlerVector "DataHandler option list" | DataHandlerRepeater "DataHandler option" nat

fun dl_GetSize :: "DataHandlerList \<Rightarrow> nat" where
  "dl_GetSize (DataHandlerVector hs) = length hs"
| "dl_GetSize (DataHandlerRepeater h n) = n"

fun dl_Get :: "DataHandlerList \<Rightarrow> nat \<Rightarrow> DataHandler option" where
  "dl_Get (DataHandlerVector hs) idx = (if idx < length hs then hs ! idx else None)"
| "dl_Get (DataHandlerRepeater h n) idx = (if idx < n then h else None)"

subsection \<open>The contract of a table\<close>

text \<open>\<open>table_has t xs\<close>: \<open>t\<close> has an iterator, and traversing it from the first entry gives \<open>xs\<close>.\<close>

definition table_has :: "TableHandler \<Rightarrow> MemTimeTable \<Rightarrow> bool" where
  "table_has t xs \<longleftrightarrow> (\<exists>ok rest whole it. rows_iterator (th_ops t) ok rest whole \<and> th_iter t = Some it \<and>
     ok it \<and> set (rest it) \<subseteq> set xs \<and> whole it = xs)"

lemma table_hasE:
  assumes "table_has t xs"
  obtains ok rest whole it where "rows_iterator (th_ops t) ok rest whole" "th_iter t = Some it" "ok it" "whole it = xs"
    "\<exists>it'. op_SeekToFirst (th_ops t) it = Some it' \<and> th_first t = Some (Some it') \<and> ok it' \<and> rest it' = xs \<and> whole it' = xs"
proof -
  obtain ok rest whole it where r: "rows_iterator (th_ops t) ok rest whole" "th_iter t = Some it" "ok it" "whole it = xs"
    using assms by (auto simp: table_has_def)
  then obtain it' where "op_SeekToFirst (th_ops t) it = Some it'" "ok it'" "rest it' = xs" "whole it' = xs"
    using row_iterator.first_rest [OF rows_iterator.axioms] by metis
  with r that show thesis by (auto simp: th_first_def)
qed

text \<open>The traversal every client makes.\<close>

lemma table_loop:
  assumes "table_has t xs"
  obtains it where "th_first t = Some (Some it)"
    "\<And>body s. iter_loop (th_ops t) body it s = fold_opt (\<lambda>(k, v). body k v) xs s"
    "op_Valid (th_ops t) it \<longleftrightarrow> xs \<noteq> []" "\<And>k v ys. xs = (k, v) # ys \<Longrightarrow> op_GetKey (th_ops t) it = Some k \<and> op_GetValue (th_ops t) it = Some v"
proof -
  obtain ok rest whole it it' where r: "rows_iterator (th_ops t) ok rest whole" "th_first t = Some (Some it')" "ok it'" "rest it' = xs"
    using table_hasE [OF assms] by metis
  note i = rows_iterator.axioms [OF r(1)]
  show thesis
  proof
    show "th_first t = Some (Some it')" by fact
    show "iter_loop (th_ops t) body it' s = fold_opt (\<lambda>(k, v). body k v) xs s" for body s
      using row_iterator.loop_rest [OF i r(3)] r(4) by simp
    show "op_Valid (th_ops t) it' \<longleftrightarrow> xs \<noteq> []" using row_iterator.valid_rest [OF i r(3)] r(4) by simp
    show "op_GetKey (th_ops t) it' = Some k \<and> op_GetValue (th_ops t) it' = Some v" if "xs = (k, v) # ys" for k v ys
      using row_iterator.at_rest [OF i r(3)] r(4) that by simp
  qed
qed

lemma table_hasI:
  assumes "th_ops t = mem_iter_ops" and "th_iter t = Some it" and "mi_ok it" and "set (mi_rest it) \<subseteq> set xs"
    and "mi_whole it = xs"
  shows "table_has t xs"
  unfolding table_has_def
proof (intro exI conjI)
  show "rows_iterator (th_ops t) mi_ok mi_rest mi_whole" unfolding assms(1) by unfold_locales
qed (use assms in simp_all)

lemma time_table_has [simp]: "table_has (time_table h) (mt_table h)"
  by (rule table_hasI [of _ "TimeIt (MemTimeTableIterator_new (mt_table h))"])
    (simp_all add: time_table_def mi_ok_def mi_rest_def mi_whole_def ti_new)

text \<open>A row table has its rows under their positions.\<close>

definition row_entries :: "Row list \<Rightarrow> MemTimeTable" where
  "row_entries rows = map (\<lambda>i. (of_nat i, rows ! i)) [0..<length rows]"

lemma row_entries_snd [simp]: "map snd (row_entries rows) = rows" "length (row_entries rows) = length rows"
  by (simp_all add: row_entries_def comp_def map_nth)

lemma row_table_has [simp]: "table_has (row_table h) (row_entries (tb_table h))"
  by (rule table_hasI [of _ "RowIt (MemTableIterator_new (tb_table h))"])
    (simp_all add: row_table_def mi_ok_def mi_rest_def mi_whole_def bi_ok_def MemTableIterator_new_def bi_entries_def row_entries_def)

lemma segment_table_has:
  "seg_find key (mp_partitions h) = Some t \<Longrightarrow> table_has (segment_table h key) t"
  "seg_find key (mp_partitions h) = None \<Longrightarrow> th_iter (segment_table h key) = None"
proof -
  show "table_has (segment_table h key) t" if "seg_find key (mp_partitions h) = Some t"
    by (rule table_hasI [of _ "TimeIt (MemTimeTableIterator_new t)"])
      (use that in \<open>simp_all add: segment_table_def sg_GetIterator_find mi_ok_def mi_rest_def mi_whole_def ti_new\<close>)
  show "th_iter (segment_table h key) = None" if "seg_find key (mp_partitions h) = None"
    using that by (simp add: segment_table_def sg_GetIterator_find)
qed

lemma project_wrapper_has:
  assumes "table_has t xs" and "defined_on fn xs"
  shows "table_has (TableProjectWrapper fn t) (map (\<lambda>(k, r). (k, the (fn r))) xs)"
proof -
  obtain ok rest whole it where r: "rows_iterator (th_ops t) ok rest whole" "th_iter t = Some it"
    "ok it" "set (rest it) \<subseteq> set xs" "whole it = xs" using assms(1) unfolding table_has_def by blast
  have d: "defined_on fn (rest it)" using assms(2) r(4) by (auto simp: defined_on_def)
  show ?thesis
    unfolding table_has_def
    by (intro exI conjI, simp add: TableProjectWrapper_def, rule rows_iterator.project_iterator [OF r(1)])
      (use r d assms(2) in \<open>auto simp: TableProjectWrapper_def\<close>)
qed

lemma filter_wrapper_has:
  assumes "table_has t xs" and "defined_on pred xs"
  shows "table_has (TableFilterWrapper pred t) (filter (holds pred) xs)"
proof -
  obtain ok rest whole it where r: "rows_iterator (th_ops t) ok rest whole" "th_iter t = Some it"
    "ok it" "set (rest it) \<subseteq> set xs" "whole it = xs" using assms(1) unfolding table_has_def by blast
  have d: "defined_on pred (rest it)" using assms(2) r(4) by (auto simp: defined_on_def)
  have "set (filter_rest pred (rest it)) \<subseteq> set (filter (holds pred) xs)"
    using r(4) by (auto simp: filter_rest_def split: list.splits if_splits)
  with r d assms(2) show ?thesis
    unfolding table_has_def
    by (intro exI [of _ "\<lambda>it. ok it \<and> defined_on pred (rest it) \<and> defined_on pred (whole it)"]
        exI [of _ "\<lambda>it. filter_rest pred (rest it)"] exI [of _ "\<lambda>it. filter (holds pred) (whole it)"] exI [of _ it])
      (simp add: TableFilterWrapper_def rows_iterator.filter_iterator)
qed

text \<open>A filtered table counts no row when its first row is filtered out.\<close>

lemma filter_wrapper_count:
  assumes "pred (snd p) = Some False" and "defined_on pred ps"
  shows "th_GetCount (TableFilterWrapper pred (time_table \<lparr>mt_table = p # ps, mt_order_type = o'\<rparr>)) = Some 0"
proof -
  let ?it = "TimeIt (MemTimeTableIterator_new (p # ps))"
  have "mi_ok ?it \<and> defined_on pred (mi_rest ?it) \<and> defined_on pred (mi_whole ?it)"
    using assms by (simp add: mi_ok_def mi_rest_def mi_whole_def ti_new)
  then have "ListV_GetCount (Filter_ops pred mem_iter_ops) ?it 0 = Some (0 + of_nat (length (filter_rest pred (mi_rest ?it))))"
    by (intro row_iterator.GetCount_rest [OF rows_iterator.axioms [OF mi.filter_iterator]])
  then show ?thesis
    using assms by (simp add: TableFilterWrapper_def time_table_def mi_rest_def ti_new filter_rest_def)
qed

end
