(* ===== verification/Row_Codec.thy ===== *)
theory Row_Codec
  imports Type_Codec
begin

text \<open>
  The row codec of \<open>include/codec/fe_row_codec.h\<close> and \<open>src/codec/fe_row_codec.cc\<close>: the layout of
  a row, \<open>RowBuilder\<close>, which appends the columns of a row to a buffer in order, \<open>RowView\<close>, which
  reads them back, and \<open>RowFormat\<close>, the column table the code generator uses. A row buffer is a
  six byte header (two version bytes and the size), the null bitmap, the fixed-width fields, one
  address per string column, and the bodies of the strings.
\<close>

subsection \<open>Layout\<close>

definition BitMapSize :: "bool \<Rightarrow> u32 \<Rightarrow> u32" where
  "BitMapSize spark sz =
     (if spark then (drop_bit 6 sz + (if sz AND 0x7f \<noteq> 0 then 1 else 0)) * 8
      else drop_bit 3 sz + (if sz AND 0x07 \<noteq> 0 then 1 else 0))"

fun DEFAULT_TYPE_SIZE_MAP :: "fe_type \<Rightarrow> u8 option" where
  "DEFAULT_TYPE_SIZE_MAP kBool = Some 1"
| "DEFAULT_TYPE_SIZE_MAP kInt16 = Some 2"
| "DEFAULT_TYPE_SIZE_MAP kInt32 = Some 4"
| "DEFAULT_TYPE_SIZE_MAP kFloat = Some 4"
| "DEFAULT_TYPE_SIZE_MAP kInt64 = Some 8"
| "DEFAULT_TYPE_SIZE_MAP kTimestamp = Some 8"
| "DEFAULT_TYPE_SIZE_MAP kDate = Some 4"
| "DEFAULT_TYPE_SIZE_MAP kDouble = Some 8"
| "DEFAULT_TYPE_SIZE_MAP _ = None"

fun SPARK_UNSAFEROW_TYPE_SIZE_MAP :: "fe_type \<Rightarrow> u8 option" where
  "SPARK_UNSAFEROW_TYPE_SIZE_MAP kBool = Some 8"
| "SPARK_UNSAFEROW_TYPE_SIZE_MAP kInt16 = Some 8"
| "SPARK_UNSAFEROW_TYPE_SIZE_MAP kInt32 = Some 8"
| "SPARK_UNSAFEROW_TYPE_SIZE_MAP kFloat = Some 8"
| "SPARK_UNSAFEROW_TYPE_SIZE_MAP kInt64 = Some 8"
| "SPARK_UNSAFEROW_TYPE_SIZE_MAP kTimestamp = Some 8"
| "SPARK_UNSAFEROW_TYPE_SIZE_MAP kDate = Some 8"
| "SPARK_UNSAFEROW_TYPE_SIZE_MAP kDouble = Some 8"
| "SPARK_UNSAFEROW_TYPE_SIZE_MAP _ = None"

definition GetTypeSizeMap :: "bool \<Rightarrow> fe_type \<Rightarrow> u8 option" where
  "GetTypeSizeMap spark =
     (if spark then SPARK_UNSAFEROW_TYPE_SIZE_MAP else DEFAULT_TYPE_SIZE_MAP)"

definition GetBitmapSize :: "bool \<Rightarrow> u32 \<Rightarrow> u32" where
  "GetBitmapSize spark column_size = BitMapSize spark column_size"

definition GetStartOffset :: "bool \<Rightarrow> i32 \<Rightarrow> u32" where
  "GetStartOffset spark column_count = HEADER_LENGTH + BitMapSize spark column_count"

subsection \<open>RowBuilder\<close>

record RowBuilder =
  rb_schema :: Schema
  rb_buf :: "buffer option"
  rb_cnt :: u32
  rb_size :: u32
  rb_str_field_cnt :: u32
  rb_str_addr_length :: u32
  rb_str_field_start_offset :: u32
  rb_str_offset :: u32
  rb_offset_vec :: "u32 list"

text \<open>The body of the constructor's loop on \<open>str_field_cnt_\<close>, \<open>str_field_start_offset_\<close> and
  \<open>offset_vec_\<close>; a column of an unsupported type is logged and leaves no offset.\<close>

definition rb_column :: "bool \<Rightarrow> ColumnDef \<Rightarrow> u32 \<times> u32 \<times> u32 list \<Rightarrow> u32 \<times> u32 \<times> u32 list" where
  "rb_column spark column = (\<lambda>(cnt, start, vec).
     if col_type column = kVarchar then (cnt + 1, start, vec @ [cnt])
     else case GetTypeSizeMap spark (col_type column) of
            None \<Rightarrow> (cnt, start, vec)
          | Some n \<Rightarrow> (cnt, start + ucast n, vec @ [start]))"

definition RowBuilder_new :: "bool \<Rightarrow> Schema \<Rightarrow> RowBuilder" where
  "RowBuilder_new spark schema =
     (case fold (rb_column spark) schema
             (0, HEADER_LENGTH + BitMapSize spark (of_nat (length schema)), []) of
        (cnt, start, vec) \<Rightarrow>
          \<lparr>rb_schema = schema, rb_buf = None, rb_cnt = 0, rb_size = 0, rb_str_field_cnt = cnt,
           rb_str_addr_length = 0, rb_str_field_start_offset = start, rb_str_offset = 0,
           rb_offset_vec = vec\<rparr>)"

text \<open>\<open>SetBuffer\<close>: the caller's buffer becomes the builder's, with the header and a zero bitmap.\<close>

definition SetBuffer :: "bool \<Rightarrow> RowBuilder \<Rightarrow> buffer option \<Rightarrow> u32 \<Rightarrow> (bool \<times> RowBuilder) option" where
  "SetBuffer spark b buf sz =
     (if buf = None \<or> sz = 0 \<or> sz < rb_str_field_start_offset b + rb_str_field_cnt b
      then Some (False, b)
      else do {
        m \<leftarrow> buf;
        m1 \<leftarrow> store_word m 0 1 (1 :: u8);
        m2 \<leftarrow> store_word m1 1 1 (1 :: u8);
        m3 \<leftarrow> store_word m2 VERSION_LENGTH 4 sz;
        m4 \<leftarrow> store_bytes m3 HEADER_LENGTH
                (replicate (unat (BitMapSize spark (of_nat (length (rb_schema b))))) 0);
        Some (True,
          b\<lparr>rb_buf := Some m4, rb_size := sz, rb_cnt := 0,
            rb_str_addr_length := ucast (GetAddrLength sz),
            rb_str_offset := rb_str_field_start_offset b + ucast (GetAddrLength sz) * rb_str_field_cnt b\<rparr>)
      })"

definition CalTotalLength :: "RowBuilder \<Rightarrow> u32 \<Rightarrow> u32" where
  "CalTotalLength b string_length =
     (if rb_schema b = [] then 0
      else let total_length = rb_str_field_start_offset b + string_length; cnt = rb_str_field_cnt b in
        if total_length + cnt \<le> UINT8_MAX then total_length + cnt
        else if total_length + cnt * 2 \<le> UINT16_MAX then total_length + cnt * 2
        else if total_length + cnt * 3 \<le> UINT24_MAX then total_length + cnt * 3
        else if total_length + cnt * 4 \<le> UINT32_MAX then total_length + cnt * 4
        else 0)"

definition rb_Check :: "bool \<Rightarrow> RowBuilder \<Rightarrow> fe_type \<Rightarrow> bool option" where
  "rb_Check spark b t =
     (if sint (rb_cnt b) \<ge> int (length (rb_schema b)) then Some False
      else do {
        column \<leftarrow> vec_at (rb_schema b) (unat (rb_cnt b));
        if col_type column \<noteq> t then Some False
        else if col_type column \<noteq> kVarchar \<and> GetTypeSizeMap spark (col_type column) = None
        then Some False
        else Some True
      })"

definition AppendNULL :: "RowBuilder \<Rightarrow> (bool \<times> RowBuilder) option" where
  "AppendNULL b = do {
     m \<leftarrow> rb_buf b;
     let a = HEADER_LENGTH + unat (drop_bit 3 (rb_cnt b));
     old \<leftarrow> (load_word m a 1 :: u8 option);
     m1 \<leftarrow> store_word m a 1 (old OR push_bit (unat (rb_cnt b AND 7)) 1);
     column \<leftarrow> vec_at (rb_schema b) (unat (rb_cnt b));
     m2 \<leftarrow> (if col_type column = kVarchar then do {
              idx \<leftarrow> vec_at (rb_offset_vec b) (unat (rb_cnt b));
              FillNullStringOffset m1 (rb_str_field_start_offset b) (rb_str_addr_length b) idx (rb_str_offset b)
            } else Some m1);
     Some (True, b\<lparr>rb_buf := Some m2, rb_cnt := rb_cnt b + 1\<rparr>)
   }"

text \<open>The fixed-width appends: the type check, the store at the column's offset, the next column.\<close>

definition append_prim :: "bool \<Rightarrow> fe_type \<Rightarrow> byte list \<Rightarrow> RowBuilder \<Rightarrow> (bool \<times> RowBuilder) option" where
  "append_prim spark t bs b = do {
     ok \<leftarrow> rb_Check spark b t;
     if \<not> ok then Some (False, b)
     else do {
       m \<leftarrow> rb_buf b;
       off \<leftarrow> vec_at (rb_offset_vec b) (unat (rb_cnt b));
       m1 \<leftarrow> store_bytes m (unat off) bs;
       Some (True, b\<lparr>rb_buf := Some m1, rb_cnt := rb_cnt b + 1\<rparr>)
     }
   }"

definition rb_AppendBool :: "bool \<Rightarrow> bool \<Rightarrow> RowBuilder \<Rightarrow> (bool \<times> RowBuilder) option" where
  "rb_AppendBool spark val = append_prim spark kBool (le_bytes 1 (if val then 1 else 0 :: u8))"
definition rb_AppendInt32 :: "bool \<Rightarrow> i32 \<Rightarrow> RowBuilder \<Rightarrow> (bool \<times> RowBuilder) option" where
  "rb_AppendInt32 spark val = append_prim spark kInt32 (le_bytes 4 val)"
definition rb_AppendInt16 :: "bool \<Rightarrow> i16 \<Rightarrow> RowBuilder \<Rightarrow> (bool \<times> RowBuilder) option" where
  "rb_AppendInt16 spark val = append_prim spark kInt16 (le_bytes 2 val)"
definition rb_AppendTimestamp :: "bool \<Rightarrow> i64 \<Rightarrow> RowBuilder \<Rightarrow> (bool \<times> RowBuilder) option" where
  "rb_AppendTimestamp spark val = append_prim spark kTimestamp (le_bytes 8 val)"
definition rb_AppendInt64 :: "bool \<Rightarrow> i64 \<Rightarrow> RowBuilder \<Rightarrow> (bool \<times> RowBuilder) option" where
  "rb_AppendInt64 spark val = append_prim spark kInt64 (le_bytes 8 val)"
definition rb_AppendFloat :: "bool \<Rightarrow> u32 \<Rightarrow> RowBuilder \<Rightarrow> (bool \<times> RowBuilder) option" where
  "rb_AppendFloat spark val = append_prim spark kFloat (le_bytes 4 val)"
definition rb_AppendDouble :: "bool \<Rightarrow> u64 \<Rightarrow> RowBuilder \<Rightarrow> (bool \<times> RowBuilder) option" where
  "rb_AppendDouble spark val = append_prim spark kDouble (le_bytes 8 val)"

definition rb_AppendDate ::
  "bool \<Rightarrow> i32 \<Rightarrow> i32 \<Rightarrow> i32 \<Rightarrow> RowBuilder \<Rightarrow> (bool \<times> RowBuilder) option" where
  "rb_AppendDate spark year month day b =
     (if sint year < 1900 \<or> sint year > 9999 then Some (False, b)
      else if sint month < 1 \<or> sint month > 12 then Some (False, b)
      else if sint day < 1 \<or> sint day > 31 then Some (False, b)
      else append_prim spark kDate (le_bytes 4 (date_data year month day)) b)"

definition rb_AppendString ::
  "bool \<Rightarrow> byte list option \<Rightarrow> u32 \<Rightarrow> RowBuilder \<Rightarrow> (bool \<times> RowBuilder) option" where
  "rb_AppendString spark val len b =
     (if val = None then Some (False, b)
      else do {
        ok \<leftarrow> rb_Check spark b kVarchar;
        if \<not> ok then Some (False, b)
        else if rb_str_offset b + len > rb_size b then Some (False, b)
        else do {
          m \<leftarrow> rb_buf b;
          idx \<leftarrow> vec_at (rb_offset_vec b) (unat (rb_cnt b));
          m1 \<leftarrow> store_bytes m (unat (rb_str_field_start_offset b) + unat (rb_str_addr_length b * idx))
                  (addr_bytes (rb_str_addr_length b) (rb_str_offset b));
          v \<leftarrow> val;
          bs \<leftarrow> load_bytes v 0 (unat len);
          m2 \<leftarrow> (if len \<noteq> 0 then store_bytes m1 (unat (rb_str_offset b)) bs else Some m1);
          Some (True, b\<lparr>rb_buf := Some m2, rb_str_offset := rb_str_offset b + len,
                        rb_cnt := rb_cnt b + 1\<rparr>)
        }
      })"

subsection \<open>RowView\<close>

record RowView =
  rv_str_addr_length :: u8
  rv_is_valid :: bool
  rv_string_field_cnt :: u32
  rv_str_field_start_offset :: u32
  rv_size :: u32
  rv_row :: "buffer option"
  rv_schema :: Schema
  rv_offset_vec :: "u32 list"

text \<open>The loop of \<open>Init\<close>, which stops at the first column of an unsupported type: whether it
  finished, \<open>offset\<close>, \<open>string_field_cnt_\<close> and \<open>offset_vec_\<close>.\<close>

fun rv_init_columns :: "bool \<Rightarrow> Schema \<Rightarrow> u32 \<Rightarrow> u32 \<Rightarrow> u32 list \<Rightarrow> bool \<times> u32 \<times> u32 \<times> u32 list" where
  "rv_init_columns spark [] offset cnt vec = (True, offset, cnt, vec)"
| "rv_init_columns spark (column # cs) offset cnt vec =
     (if col_type column = kVarchar then rv_init_columns spark cs offset (cnt + 1) (vec @ [cnt])
      else case GetTypeSizeMap spark (col_type column) of
             None \<Rightarrow> (False, offset, cnt, vec)
           | Some n \<Rightarrow> rv_init_columns spark cs (offset + ucast n) cnt (vec @ [offset]))"

definition rv_Init :: "bool \<Rightarrow> RowView \<Rightarrow> bool \<times> RowView" where
  "rv_Init spark v =
     (case rv_init_columns spark (rv_schema v)
             (HEADER_LENGTH + BitMapSize spark (of_nat (length (rv_schema v))))
             (rv_string_field_cnt v) (rv_offset_vec v) of
        (True, offset, cnt, vec) \<Rightarrow>
          (True, v\<lparr>rv_string_field_cnt := cnt, rv_offset_vec := vec, rv_str_field_start_offset := offset\<rparr>)
      | (False, offset, cnt, vec) \<Rightarrow>
          (False, v\<lparr>rv_string_field_cnt := cnt, rv_offset_vec := vec, rv_is_valid := False\<rparr>))"

definition RowView_default :: RowView where
  "RowView_default =
     \<lparr>rv_str_addr_length = 0, rv_is_valid = False, rv_string_field_cnt = 0,
      rv_str_field_start_offset = 0, rv_size = 0, rv_row = None, rv_schema = [], rv_offset_vec = []\<rparr>"

definition RowView_schema :: "bool \<Rightarrow> Schema \<Rightarrow> RowView" where
  "RowView_schema spark schema =
     snd (rv_Init spark (RowView_default\<lparr>rv_is_valid := True, rv_schema := schema\<rparr>))"

definition rv_Reset :: "RowView \<Rightarrow> buffer option \<Rightarrow> u32 \<Rightarrow> (bool \<times> RowView) option" where
  "rv_Reset v row sz =
     (if rv_schema v = [] \<or> row = None \<or> sz \<le> HEADER_LENGTH
      then Some (False, v\<lparr>rv_is_valid := False\<rparr>)
      else do {
        m \<leftarrow> row;
        n \<leftarrow> load_word m VERSION_LENGTH 4;
        if n \<noteq> sz then Some (False, v\<lparr>rv_is_valid := False\<rparr>)
        else Some (True, v\<lparr>rv_row := row, rv_size := sz, rv_str_addr_length := GetAddrLength sz,
                          rv_is_valid := True\<rparr>)
      })"

definition rv_Reset_row :: "RowView \<Rightarrow> buffer option \<Rightarrow> (bool \<times> RowView) option" where
  "rv_Reset_row v row =
     (if rv_schema v = [] \<or> row = None then Some (False, v\<lparr>rv_is_valid := False\<rparr>)
      else do {
        m \<leftarrow> row;
        n \<leftarrow> load_word m VERSION_LENGTH 4;
        let v' = v\<lparr>rv_row := row, rv_size := n\<rparr>;
        if n \<le> HEADER_LENGTH then Some (False, v'\<lparr>rv_is_valid := False\<rparr>)
        else Some (True, v'\<lparr>rv_str_addr_length := GetAddrLength n, rv_is_valid := True\<rparr>)
      })"

definition RowView_new :: "bool \<Rightarrow> Schema \<Rightarrow> buffer option \<Rightarrow> u32 \<Rightarrow> RowView option" where
  "RowView_new spark schema row sz =
     (let v = RowView_default\<lparr>rv_is_valid := True, rv_schema := schema, rv_row := row, rv_size := sz\<rparr> in
      if schema = [] then Some (v\<lparr>rv_is_valid := False\<rparr>)
      else case rv_Init spark v of
             (True, v') \<Rightarrow> map_option snd (rv_Reset v' row sz)
           | (False, v') \<Rightarrow> Some v')"

definition rv_CheckValid :: "RowView \<Rightarrow> u32 \<Rightarrow> fe_type \<Rightarrow> bool option" where
  "rv_CheckValid v idx t =
     (if rv_row v = None \<or> \<not> rv_is_valid v then Some False
      else if sint idx \<ge> int (length (rv_schema v)) then Some False
      else do {
        column \<leftarrow> vec_at (rv_schema v) (unat idx);
        Some (col_type column = t)
      })"

definition RowView_IsNULL :: "buffer option \<Rightarrow> u32 \<Rightarrow> bool option" where
  "RowView_IsNULL row idx = do {
     m \<leftarrow> row;
     b \<leftarrow> (load_word m (HEADER_LENGTH + unat (drop_bit 3 idx)) 1 :: u8 option);
     Some (b AND push_bit (unat (idx AND 7)) 1 \<noteq> 0)
   }"

definition RowView_GetSize :: "buffer option \<Rightarrow> u32 option" where
  "RowView_GetSize row = do { m \<leftarrow> row; load_word m VERSION_LENGTH 4 }"

text \<open>The unsafe readers: \<open>offset_vec_.at(idx)\<close>, then the field reader at that offset.\<close>

definition rv_unsafe :: "RowView \<Rightarrow> (buffer \<Rightarrow> u32 \<Rightarrow> 'v option) \<Rightarrow> u32 \<Rightarrow> 'v option" where
  "rv_unsafe v rd idx = do {
     offset \<leftarrow> vec_at (rv_offset_vec v) (unat idx);
     m \<leftarrow> rv_row v;
     rd m offset
   }"

definition GetBoolUnsafe :: "RowView \<Rightarrow> u32 \<Rightarrow> bool option" where
  "GetBoolUnsafe v idx = map_option (\<lambda>x. x = 1) (rv_unsafe v GetBoolFieldUnsafe idx)"
definition GetInt32Unsafe :: "RowView \<Rightarrow> u32 \<Rightarrow> i32 option" where
  "GetInt32Unsafe v idx = rv_unsafe v GetInt32FieldUnsafe idx"
definition GetInt64Unsafe :: "RowView \<Rightarrow> u32 \<Rightarrow> i64 option" where
  "GetInt64Unsafe v idx = rv_unsafe v GetInt64FieldUnsafe idx"
definition GetDateUnsafe :: "RowView \<Rightarrow> u32 \<Rightarrow> i32 option" where
  "GetDateUnsafe v idx = rv_unsafe v GetInt32FieldUnsafe idx"
definition GetTimestampUnsafe :: "RowView \<Rightarrow> u32 \<Rightarrow> i64 option" where
  "GetTimestampUnsafe v idx = rv_unsafe v GetInt64FieldUnsafe idx"
definition GetInt16Unsafe :: "RowView \<Rightarrow> u32 \<Rightarrow> i16 option" where
  "GetInt16Unsafe v idx = rv_unsafe v GetInt16FieldUnsafe idx"
definition GetFloatUnsafe :: "RowView \<Rightarrow> u32 \<Rightarrow> u32 option" where
  "GetFloatUnsafe v idx = rv_unsafe v GetFloatFieldUnsafe idx"
definition GetDoubleUnsafe :: "RowView \<Rightarrow> u32 \<Rightarrow> u64 option" where
  "GetDoubleUnsafe v idx = rv_unsafe v GetDoubleFieldUnsafe idx"

text \<open>\<open>next_str_field_offset\<close>: the next string's index, 0 for the last string of the row.\<close>

definition next_str_field :: "u32 \<Rightarrow> u32 \<Rightarrow> u32" where
  "next_str_field field_offset string_field_cnt =
     (if field_offset < string_field_cnt - 1 then field_offset + 1 else 0)"

text \<open>\<open>GetStringUnsafe\<close> ignores the reader's code, so \<open>val\<close> and \<open>length\<close> must have been written.\<close>

definition GetStringUnsafe :: "bool \<Rightarrow> RowView \<Rightarrow> u32 \<Rightarrow> byte list option" where
  "GetStringUnsafe spark v idx = do {
     field_offset \<leftarrow> vec_at (rv_offset_vec v) (unat idx);
     (ret, out) \<leftarrow> GetStrFieldUnsafe spark (rv_row v) idx field_offset
                    (next_str_field field_offset (rv_string_field_cnt v))
                    (rv_str_field_start_offset v) (ucast (rv_str_addr_length v));
     (val, len) \<leftarrow> out;
     m \<leftarrow> rv_row v;
     load_bytes m val (unat len)
   }"

text \<open>The checked readers return the code, and the value where the code is 0.\<close>

definition rv_get :: "RowView \<Rightarrow> fe_type \<Rightarrow> 'v option \<Rightarrow> u32 \<Rightarrow> (int \<times> 'v option) option" where
  "rv_get v t rd idx = do {
     ok \<leftarrow> rv_CheckValid v idx t;
     if \<not> ok then Some (-1, None)
     else do {
       null \<leftarrow> RowView_IsNULL (rv_row v) idx;
       if null then Some (1, None) else do { x \<leftarrow> rd; Some (0, Some x) }
     }
   }"

definition rv_GetBool :: "RowView \<Rightarrow> u32 \<Rightarrow> (int \<times> bool option) option" where
  "rv_GetBool v idx = rv_get v kBool (GetBoolUnsafe v idx) idx"
definition rv_GetInt32 :: "RowView \<Rightarrow> u32 \<Rightarrow> (int \<times> i32 option) option" where
  "rv_GetInt32 v idx = rv_get v kInt32 (GetInt32Unsafe v idx) idx"
definition rv_GetTimestamp :: "RowView \<Rightarrow> u32 \<Rightarrow> (int \<times> i64 option) option" where
  "rv_GetTimestamp v idx = rv_get v kTimestamp (GetTimestampUnsafe v idx) idx"
definition rv_GetInt64 :: "RowView \<Rightarrow> u32 \<Rightarrow> (int \<times> i64 option) option" where
  "rv_GetInt64 v idx = rv_get v kInt64 (GetInt64Unsafe v idx) idx"
definition rv_GetInt16 :: "RowView \<Rightarrow> u32 \<Rightarrow> (int \<times> i16 option) option" where
  "rv_GetInt16 v idx = rv_get v kInt16 (GetInt16Unsafe v idx) idx"
definition rv_GetFloat :: "RowView \<Rightarrow> u32 \<Rightarrow> (int \<times> u32 option) option" where
  "rv_GetFloat v idx = rv_get v kFloat (GetFloatUnsafe v idx) idx"
definition rv_GetDouble :: "RowView \<Rightarrow> u32 \<Rightarrow> (int \<times> u64 option) option" where
  "rv_GetDouble v idx = rv_get v kDouble (GetDoubleUnsafe v idx) idx"

text \<open>\<open>GetDate(idx, date)\<close>: \<open>has_date\<close> says whether the caller passed a pointer; with none, the
  final store through it has no defined result.\<close>

definition rv_GetDate_raw :: "RowView \<Rightarrow> u32 \<Rightarrow> bool \<Rightarrow> (int \<times> i32 option) option" where
  "rv_GetDate_raw v idx has_date =
     (if has_date then Some (-1, None)
      else do {
        ok \<leftarrow> rv_CheckValid v idx kDate;
        if \<not> ok then Some (-1, None)
        else do {
          null \<leftarrow> RowView_IsNULL (rv_row v) idx;
          if null then Some (1, None) else None
        }
      })"

definition GetYearUnsafe :: "i32 \<Rightarrow> i32" where
  "GetYearUnsafe days = 1900 + signed_drop_bit 16 days"
definition GetMonthUnsafe :: "i32 \<Rightarrow> i32" where
  "GetMonthUnsafe days = 1 + (signed_drop_bit 8 days AND 0xFF)"
definition GetDayUnsafe :: "i32 \<Rightarrow> i32" where
  "GetDayUnsafe days = days AND 0xFF"

text \<open>\<open>GetDate(idx, year, month, day)\<close>: the result of \<open>Decode\<close> is not checked, so the outputs stay
  unwritten (the inner \<open>None\<close>) for a negative stored date.\<close>

definition rv_GetDate :: "RowView \<Rightarrow> u32 \<Rightarrow> (int \<times> (i32 \<times> i32 \<times> i32) option) option" where
  "rv_GetDate v idx = do {
     ok \<leftarrow> rv_CheckValid v idx kDate;
     if \<not> ok then Some (-1, None)
     else do {
       null \<leftarrow> RowView_IsNULL (rv_row v) idx;
       if null then Some (1, None) else do { d \<leftarrow> GetDateUnsafe v idx; Some (0, Date_Decode d) }
     }
   }"

definition rv_GetString :: "bool \<Rightarrow> RowView \<Rightarrow> u32 \<Rightarrow> (int \<times> (nat \<times> u32) option) option" where
  "rv_GetString spark v idx = do {
     ok \<leftarrow> rv_CheckValid v idx kVarchar;
     if \<not> ok then Some (-1, None)
     else do {
       sz \<leftarrow> RowView_GetSize (rv_row v);
       if sz \<le> HEADER_LENGTH then Some (-1, None)
       else do {
         null \<leftarrow> RowView_IsNULL (rv_row v) idx;
         if null then Some (1, None)
         else do {
           field_offset \<leftarrow> vec_at (rv_offset_vec v) (unat idx);
           GetStrFieldUnsafe spark (rv_row v) idx field_offset
             (next_str_field field_offset (rv_string_field_cnt v))
             (rv_str_field_start_offset v) (ucast (rv_str_addr_length v))
         }
       }
     }
   }"

subsection \<open>RowView readers by type\<close>

text \<open>A value as \<open>GetValue\<close> writes it through its \<open>void*\<close>, and as the builder takes it.\<close>

datatype cell =
  VBool bool | VInt16 i16 | VInt32 i32 | VInt64 i64 | VTimestamp i64 | VDate i32 i32 i32
| VFloat u32 | VDouble u64 | VString "byte list"

definition rv_GetValue :: "RowView \<Rightarrow> buffer option \<Rightarrow> u32 \<Rightarrow> fe_type \<Rightarrow> (int \<times> cell option) option" where
  "rv_GetValue v row idx t =
     (if rv_schema v = [] \<or> row = None then Some (-1, None)
      else if sint idx \<ge> int (length (rv_schema v)) then Some (-1, None)
      else do {
        column \<leftarrow> vec_at (rv_schema v) (unat idx);
        if col_type column \<noteq> t then Some (-1, None)
        else do {
          sz \<leftarrow> RowView_GetSize row;
          if sz \<le> HEADER_LENGTH then Some (-1, None)
          else do {
            null \<leftarrow> RowView_IsNULL row idx;
            if null then Some (1, None)
            else do {
              m \<leftarrow> row;
              offset \<leftarrow> vec_at (rv_offset_vec v) (unat idx);
              case t of
                kBool \<Rightarrow> do { x \<leftarrow> GetBoolFieldUnsafe m offset; Some (0, Some (VBool (x = 1))) }
              | kInt16 \<Rightarrow> do { x \<leftarrow> GetInt16FieldUnsafe m offset; Some (0, Some (VInt16 x)) }
              | kDate \<Rightarrow> do { x \<leftarrow> GetInt32FieldUnsafe m offset; Some (0, Some (VInt32 x)) }
              | kInt32 \<Rightarrow> do { x \<leftarrow> GetInt32FieldUnsafe m offset; Some (0, Some (VInt32 x)) }
              | kTimestamp \<Rightarrow> do { x \<leftarrow> GetInt64FieldUnsafe m offset; Some (0, Some (VInt64 x)) }
              | kInt64 \<Rightarrow> do { x \<leftarrow> GetInt64FieldUnsafe m offset; Some (0, Some (VInt64 x)) }
              | kFloat \<Rightarrow> do { x \<leftarrow> GetFloatFieldUnsafe m offset; Some (0, Some (VFloat x)) }
              | kDouble \<Rightarrow> do { x \<leftarrow> GetDoubleFieldUnsafe m offset; Some (0, Some (VDouble x)) }
              | _ \<Rightarrow> Some (-1, None)
            }
          }
        }
      })"

text \<open>
  \<open>GetInteger\<close>: the code and \<open>*val\<close> (\<open>None\<close> where it is not written). Only the \<open>kInt16\<close> branch
  keeps the code of \<open>GetValue\<close>; in the others \<open>ret\<close> stays 0 and \<open>tmp_val\<close> keeps its initial 0
  when nothing was read.
\<close>

definition rv_GetInteger :: "RowView \<Rightarrow> buffer option \<Rightarrow> u32 \<Rightarrow> fe_type \<Rightarrow> (int \<times> i64 option) option" where
  "rv_GetInteger v row idx t =
     (case t of
        kInt16 \<Rightarrow> do {
          (ret, x) \<leftarrow> rv_GetValue v row idx t;
          Some (ret, if ret = 0 then (case x of Some (VInt16 w) \<Rightarrow> Some (scast w) | _ \<Rightarrow> Some 0) else None)
        }
      | kDate \<Rightarrow> do {
          (_, x) \<leftarrow> rv_GetValue v row idx t;
          Some (0, case x of Some (VInt32 w) \<Rightarrow> Some (scast w) | _ \<Rightarrow> Some 0)
        }
      | kInt32 \<Rightarrow> do {
          (_, x) \<leftarrow> rv_GetValue v row idx t;
          Some (0, case x of Some (VInt32 w) \<Rightarrow> Some (scast w) | _ \<Rightarrow> Some 0)
        }
      | kTimestamp \<Rightarrow> do {
          (_, x) \<leftarrow> rv_GetValue v row idx t;
          Some (0, case x of Some (VInt64 w) \<Rightarrow> Some w | _ \<Rightarrow> Some 0)
        }
      | kInt64 \<Rightarrow> do {
          (_, x) \<leftarrow> rv_GetValue v row idx t;
          Some (0, case x of Some (VInt64 w) \<Rightarrow> Some w | _ \<Rightarrow> Some 0)
        }
      | _ \<Rightarrow> Some (-1, None))"

definition GetPrimaryFieldOffset :: "RowView \<Rightarrow> u32 \<Rightarrow> i32 option" where
  "GetPrimaryFieldOffset v idx = vec_at (rv_offset_vec v) (unat idx)"

definition rv_GetValue_str ::
  "bool \<Rightarrow> RowView \<Rightarrow> buffer option \<Rightarrow> u32 \<Rightarrow> (int \<times> (nat \<times> u32) option) option" where
  "rv_GetValue_str spark v row idx =
     (if rv_schema v = [] \<or> row = None then Some (-1, None)
      else if sint idx \<ge> int (length (rv_schema v)) then Some (-1, None)
      else do {
        column \<leftarrow> vec_at (rv_schema v) (unat idx);
        if col_type column \<noteq> kVarchar then Some (-1, None)
        else do {
          sz \<leftarrow> RowView_GetSize row;
          if sz \<le> HEADER_LENGTH then Some (-1, None)
          else do {
            null \<leftarrow> RowView_IsNULL row idx;
            if null then Some (1, None)
            else do {
              field_offset \<leftarrow> vec_at (rv_offset_vec v) (unat idx);
              GetStrFieldUnsafe spark row idx field_offset
                (next_str_field field_offset (rv_string_field_cnt v))
                (rv_str_field_start_offset v) (ucast (GetAddrLength sz))
            }
          }
        }
      })"

text \<open>\<open>snprintf(date, 11, "%4d-%.2d-%.2d", year, month, day)\<close> and the string made of it.\<close>

definition date_string :: "i32 \<times> i32 \<times> i32 \<Rightarrow> byte list" where
  "date_string = (\<lambda>(year, month, day).
     take 10 (fmt_width4 (unat year) @ bytes_of ''-'' @ fmt_prec2 (unat month) @ bytes_of ''-'' @
              fmt_prec2 (unat day)))"

text \<open>A value as text when its reader returned 0, and \<open>"NA"\<close> otherwise; \<open>std::to_string\<close> of a
  \<open>float\<close> and of a \<open>double\<close> are parameters.\<close>

definition shown :: "('v \<Rightarrow> byte list) \<Rightarrow> (int \<times> 'v option) option \<Rightarrow> byte list option" where
  "shown f r = do {
     (ret, x) \<leftarrow> r;
     if ret = 0 then map_option f x else Some (bytes_of ''NA'')
   }"

definition rv_GetAsString ::
  "(u32 \<Rightarrow> byte list) \<Rightarrow> (u64 \<Rightarrow> byte list) \<Rightarrow> bool \<Rightarrow> RowView \<Rightarrow> u32 \<Rightarrow> byte list option" where
  "rv_GetAsString fmt_float fmt_double spark v idx =
     (if rv_schema v = [] \<or> rv_row v = None \<or> rv_size v = 0 then Some (bytes_of ''NA'')
      else if sint idx \<ge> int (length (rv_schema v)) then Some (bytes_of ''NA'')
      else do {
        null \<leftarrow> RowView_IsNULL (rv_row v) idx;
        if null then Some (bytes_of ''NULL'')
        else do {
          column \<leftarrow> vec_at (rv_schema v) (unat idx);
          case col_type column of
            kInt32 \<Rightarrow> shown (\<lambda>x. to_string_int (sint x)) (rv_GetInt32 v idx)
          | kInt64 \<Rightarrow> shown (\<lambda>x. to_string_int (sint x)) (rv_GetInt64 v idx)
          | kInt16 \<Rightarrow> shown (\<lambda>x. to_string_int (sint x)) (rv_GetInt16 v idx)
          | kFloat \<Rightarrow> shown fmt_float (rv_GetFloat v idx)
          | kDouble \<Rightarrow> shown fmt_double (rv_GetDouble v idx)
          | kBool \<Rightarrow> shown (\<lambda>x. if x then bytes_of ''true'' else bytes_of ''false'') (rv_GetBool v idx)
          | kVarchar \<Rightarrow> do {
              (ret, out) \<leftarrow> rv_GetString spark v idx;
              if ret = 0 then do {
                (val, len) \<leftarrow> out;
                m \<leftarrow> rv_row v;
                load_bytes m val (if len > 4096 then 4096 else unat len)
              } else Some (bytes_of ''NA'')
            }
          | kTimestamp \<Rightarrow> shown (\<lambda>x. to_string_int (sint x)) (rv_GetTimestamp v idx)
          | kDate \<Rightarrow> shown date_string (rv_GetDate v idx)
          | _ \<Rightarrow> Some (bytes_of ''NA'')
        }
      })"

fun join_strings :: "byte list \<Rightarrow> byte list list \<Rightarrow> byte list" where
  "join_strings sep [] = []"
| "join_strings sep [x] = x"
| "join_strings sep (x # y # ys) = x @ sep @ join_strings sep (y # ys)"

definition rv_GetRowString ::
  "(u32 \<Rightarrow> byte list) \<Rightarrow> (u64 \<Rightarrow> byte list) \<Rightarrow> bool \<Rightarrow> RowView \<Rightarrow> byte list option" where
  "rv_GetRowString fmt_float fmt_double spark v =
     (if rv_schema v = [] then Some (bytes_of ''NA'')
      else map_option (join_strings (bytes_of '', ''))
             (those (map (\<lambda>i. rv_GetAsString fmt_float fmt_double spark v (of_nat i))
                         [0..<length (rv_schema v)])))"

subsection \<open>RowFormat\<close>

record ColInfo =
  ci_type :: fe_type
  ci_idx :: u32
  ci_offset :: u32
  ci_name :: string

record StringColInfo = ColInfo +
  str_next_offset :: u32
  str_start_offset :: u32

text \<open>\<open>infos_dict_\<close> is a finite map, \<open>next_str_pos_\<close> the entries of its map in key order.\<close>

record RowFormat =
  rf_schema :: Schema
  rf_infos :: "ColInfo list"
  rf_infos_dict :: "string \<rightharpoonup> nat"
  rf_next_str_pos :: "(u32 \<times> u32) list"
  rf_str_field_start_offset :: u32

fun rf_columns :: "bool \<Rightarrow> nat \<Rightarrow> Schema \<Rightarrow> u32 \<Rightarrow> u32 \<Rightarrow> RowFormat \<Rightarrow> RowFormat" where
  "rf_columns spark i [] offset cnt f = f\<lparr>rf_str_field_start_offset := offset\<rparr>"
| "rf_columns spark i (column # cs) offset cnt f =
     (if col_type column = kVarchar then
        rf_columns spark (Suc i) cs offset (cnt + 1)
          (f\<lparr>rf_infos := rf_infos f @ [\<lparr>ci_type = col_type column, ci_idx = of_nat i, ci_offset = cnt,
                                       ci_name = col_name column\<rparr>],
             rf_infos_dict := (rf_infos_dict f)(col_name column \<mapsto> i),
             rf_next_str_pos := rf_next_str_pos f @ [(cnt, cnt)]\<rparr>)
      else case GetTypeSizeMap spark (col_type column) of
             None \<Rightarrow> rf_columns spark (Suc i) cs offset cnt f
           | Some n \<Rightarrow>
               rf_columns spark (Suc i) cs (offset + ucast n) cnt
                 (f\<lparr>rf_infos := rf_infos f @ [\<lparr>ci_type = col_type column, ci_idx = of_nat i,
                                              ci_offset = offset, ci_name = col_name column\<rparr>],
                    rf_infos_dict := (rf_infos_dict f)(col_name column \<mapsto> i)\<rparr>))"

text \<open>The second loop, from the last key down: every entry takes the value of the entry after it.\<close>

fun link_next :: "u32 \<Rightarrow> (u32 \<times> u32) list \<Rightarrow> (u32 \<times> u32) list" where
  "link_next next_pos [] = []"
| "link_next next_pos ((k, tmp) # rest) = (k, next_pos) # link_next tmp rest"

definition RowFormat_new :: "bool \<Rightarrow> Schema option \<Rightarrow> RowFormat" where
  "RowFormat_new spark schema =
     (let f0 = \<lparr>rf_schema = [], rf_infos = [], rf_infos_dict = Map.empty, rf_next_str_pos = [],
                rf_str_field_start_offset = 0\<rparr>
      in case schema of None \<Rightarrow> f0
         | Some cs \<Rightarrow>
             let f = rf_columns spark 0 cs (GetStartOffset spark (of_nat (length cs))) 0 (f0\<lparr>rf_schema := cs\<rparr>)
             in f\<lparr>rf_next_str_pos := rev (link_next 0 (rev (rf_next_str_pos f)))\<rparr>)"

definition GetColumnInfo :: "RowFormat \<Rightarrow> nat \<Rightarrow> ColInfo option" where
  "GetColumnInfo f idx = (if idx < length (rf_infos f) then Some (rf_infos f ! idx) else None)"

definition GetStringColumnInfo :: "bool \<Rightarrow> RowFormat \<Rightarrow> nat \<Rightarrow> StringColInfo option" where
  "GetStringColumnInfo spark f idx =
     (if idx \<ge> length (rf_infos f) then None
      else let info = rf_infos f ! idx in
        case map_of (rf_next_str_pos f) (ci_offset info) of
          None \<Rightarrow> None
        | Some next_offset \<Rightarrow>
            Some (ColInfo.extend info
              \<lparr>str_next_offset = next_offset,
               str_start_offset = (if spark then BitMapSize spark (of_nat (length (rf_schema f)))
                                   else rf_str_field_start_offset f)\<rparr>))"

end
