(* ===== verification/Row_Layout.thy ===== *)
theory Row_Layout
  imports Row_Codec
begin

text \<open>
  The layout of a row as numbers, and the proof that \<open>RowBuilder\<close>, \<open>RowView\<close> and \<open>RowFormat\<close>
  compute the same one. The locale \<open>layout_provider\<close> is the contract the three constructors
  share; its lemmas say where a column lies in the buffer without wrap-around.
\<close>

subsection \<open>The layout as numbers\<close>

abbreviation is_str :: "ColumnDef \<Rightarrow> bool" where
  "is_str c \<equiv> col_type c = kVarchar"

definition type_size :: "bool \<Rightarrow> fe_type \<Rightarrow> nat" where
  "type_size spark t = (case GetTypeSizeMap spark t of None \<Rightarrow> 0 | Some n \<Rightarrow> unat n)"

definition supported :: "Schema \<Rightarrow> bool" where
  "supported cs = list_all (\<lambda>c. is_str c \<or> DEFAULT_TYPE_SIZE_MAP (col_type c) \<noteq> None) cs"

definition bitmap_bytes :: "bool \<Rightarrow> Schema \<Rightarrow> nat" where
  "bitmap_bytes spark cs = unat (BitMapSize spark (of_nat (length cs)))"

definition str_cnt :: "Schema \<Rightarrow> nat \<Rightarrow> nat" where
  "str_cnt cs k = length (filter is_str (take k cs))"

definition fix_size :: "bool \<Rightarrow> Schema \<Rightarrow> nat" where
  "fix_size spark cs = sum_list (map (\<lambda>c. type_size spark (col_type c)) cs)"

definition fix_off :: "bool \<Rightarrow> Schema \<Rightarrow> nat \<Rightarrow> nat" where
  "fix_off spark cs k = 6 + bitmap_bytes spark cs + fix_size spark (take k cs)"

fun col_offsets :: "bool \<Rightarrow> nat \<Rightarrow> nat \<Rightarrow> Schema \<Rightarrow> nat list" where
  "col_offsets spark a b [] = []"
| "col_offsets spark a b (c # cs) =
     (if is_str c then a # col_offsets spark (Suc a) b cs
      else b # col_offsets spark a (b + type_size spark (col_type c)) cs)"

lemma type_size_kVarchar [simp]: "type_size spark kVarchar = 0"
  by (simp add: type_size_def GetTypeSizeMap_def)

lemma supported_Cons [simp]:
  "supported (c # cs) \<longleftrightarrow> (is_str c \<or> DEFAULT_TYPE_SIZE_MAP (col_type c) \<noteq> None) \<and> supported cs"
  by (simp add: supported_def)

lemma size_map_domain: "GetTypeSizeMap spark t = None \<longleftrightarrow> DEFAULT_TYPE_SIZE_MAP t = None"
  by (cases t) (auto simp: GetTypeSizeMap_def)

lemma type_size_pos: "DEFAULT_TYPE_SIZE_MAP t \<noteq> None \<Longrightarrow> 0 < type_size spark t"
  by (cases t) (auto simp: type_size_def GetTypeSizeMap_def)

lemma supported_size:
  assumes "supported (c # cs)" "\<not> is_str c"
  shows "GetTypeSizeMap spark (col_type c) = Some (of_nat (type_size spark (col_type c)))"
proof -
  have "GetTypeSizeMap spark (col_type c) \<noteq> None" using assms by (auto simp: size_map_domain)
  then show ?thesis by (auto simp: type_size_def)
qed

lemma length_col_offsets [simp]: "length (col_offsets spark a b cs) = length cs"
  by (induction cs arbitrary: a b) auto

lemma str_cnt_0 [simp]: "str_cnt cs 0 = 0"
  by (simp add: str_cnt_def)

lemma str_cnt_Suc: "k < length cs \<Longrightarrow> str_cnt cs (Suc k) = str_cnt cs k + (if is_str (cs ! k) then 1 else 0)"
  by (simp add: str_cnt_def take_Suc_conv_app_nth)

lemma fix_size_append: "fix_size spark (xs @ ys) = fix_size spark xs + fix_size spark ys"
  by (simp add: fix_size_def)

lemma fix_off_Suc:
  "k < length cs \<Longrightarrow> fix_off spark cs (Suc k) = fix_off spark cs k + type_size spark (col_type (cs ! k))"
  by (simp add: fix_off_def take_Suc_conv_app_nth fix_size_append) (simp add: fix_size_def)

lemma fix_off_mono: "i \<le> j \<Longrightarrow> fix_off spark cs i \<le> fix_off spark cs j"
proof -
  assume "i \<le> j"
  then obtain d where "j = i + d" using le_Suc_ex by blast
  then show ?thesis by (simp add: fix_off_def take_add fix_size_append)
qed

lemma str_cnt_mono: "i \<le> j \<Longrightarrow> str_cnt cs i \<le> str_cnt cs j"
proof -
  assume "i \<le> j"
  then obtain d where "j = i + d" using le_Suc_ex by blast
  then show ?thesis by (simp add: str_cnt_def take_add)
qed

lemma str_cnt_less:
  assumes "j < k" "k \<le> length cs" "is_str (cs ! j)"
  shows "str_cnt cs j < str_cnt cs k"
proof -
  have "str_cnt cs (Suc j) = str_cnt cs j + 1" using assms by (simp add: str_cnt_Suc)
  moreover have "str_cnt cs (Suc j) \<le> str_cnt cs k" using assms by (intro str_cnt_mono) simp
  ultimately show ?thesis by simp
qed

lemma str_cnt_le: "str_cnt cs k \<le> length cs"
  unfolding str_cnt_def by (rule order_trans [OF length_filter_le]) simp

lemma str_cnt_Cons:
  "str_cnt (c # cs) (Suc k) = (if is_str c then Suc (str_cnt cs k) else str_cnt cs k)"
  by (simp add: str_cnt_def)

lemma nth_col_offsets:
  "j < length cs \<Longrightarrow>
   col_offsets spark a b cs ! j =
     (if is_str (cs ! j) then a + str_cnt cs j else b + fix_size spark (take j cs))"
proof (induction cs arbitrary: a b j)
  case Nil
  then show ?case by simp
next
  case (Cons c cs)
  then show ?case
    by (cases j) (auto simp: str_cnt_Cons fix_size_def)
qed

subsection \<open>The size of the null bitmap\<close>

lemma unat_drop_bit_u32: "unat (drop_bit k (w :: u32)) = unat w div 2 ^ k"
  unfolding unat_drop_bit_eq by (simp add: drop_bit_eq_div)

lemma u32_and_mask_eq_0: "(w :: u32) AND mask k = 0 \<longleftrightarrow> unat w mod 2 ^ k = 0" if "k < 32"
proof -
  have "unat (w AND mask k) = unat w mod 2 ^ k"
    unfolding take_bit_eq_mask [symmetric] unsigned_take_bit_eq
    by (simp add: take_bit_eq_mod)
  then show ?thesis by (metis unat_0_iff)
qed

lemma BitMapSize_default:
  assumes "n < 2 ^ 32"
  shows "unat (BitMapSize False (of_nat n)) = (n + 7) div 8"
proof -
  have n: "unat (of_nat n :: u32) = n" using assms by (simp add: unat_of_nat_less)
  have m: "(of_nat n :: u32) AND 7 = 0 \<longleftrightarrow> n mod 8 = 0"
    using u32_and_mask_eq_0 [of 3 "of_nat n"] n by (simp add: mask_eq_exp_minus_1)
  have d: "unat (drop_bit 3 (of_nat n :: u32)) = n div 8"
    using n by (simp add: unat_drop_bit_u32)
  have "n div 8 + 1 < 2 ^ 32" using assms by simp
  then have "unat (drop_bit 3 (of_nat n :: u32) + 1) = n div 8 + 1"
    using d by (subst unat_plus_less) auto
  then show ?thesis using m d by (auto simp: BitMapSize_def) presburger+
qed

lemma BitMapSize_spark:
  assumes "n < 2 ^ 32"
  shows "n \<le> 8 * unat (BitMapSize True (of_nat n))"
proof -
  have n: "unat (of_nat n :: u32) = n" using assms by (simp add: unat_of_nat_less)
  have m: "(of_nat n :: u32) AND 0x7F = 0 \<longleftrightarrow> n mod 128 = 0"
    using u32_and_mask_eq_0 [of 7 "of_nat n"] n by (simp add: mask_eq_exp_minus_1)
  have d: "unat (drop_bit 6 (of_nat n :: u32)) = n div 64"
    using n by (simp add: unat_drop_bit_u32)
  let ?x = "drop_bit 6 (of_nat n :: u32) + (if (of_nat n :: u32) AND 0x7F \<noteq> 0 then 1 else 0)"
  have x: "unat ?x = n div 64 + (if n mod 128 = 0 then 0 else 1)"
    using d m assms by (auto simp: unat_plus_less)
  then have "unat (?x * 8) = (n div 64 + (if n mod 128 = 0 then 0 else 1)) * 8"
    using assms by (subst unat_mult_less) auto
  then have "unat (BitMapSize True (of_nat n)) = (n div 64 + (if n mod 128 = 0 then 0 else 1)) * 8"
    by (simp add: BitMapSize_def)
  then show ?thesis by auto
qed

subsection \<open>The contract of a layout\<close>

text \<open>
  What the three constructors promise for a schema of supported types: the number of string
  columns, the offset behind the fixed-width fields, and per column the index of its string or
  the offset of its field, as 32-bit words.
\<close>

locale layout_provider =
  fixes spark :: bool
    and cnt :: "Schema \<Rightarrow> u32"
    and start :: "Schema \<Rightarrow> u32"
    and offs :: "Schema \<Rightarrow> u32 list"
  assumes cnt_eq: "supported cs \<Longrightarrow> cnt cs = of_nat (str_cnt cs (length cs))"
    and start_eq: "supported cs \<Longrightarrow> start cs = of_nat (fix_off spark cs (length cs))"
    and offs_eq: "supported cs \<Longrightarrow> offs cs = map of_nat (col_offsets spark 0 (fix_off spark cs 0) cs)"
begin

lemma length_offs: "supported cs \<Longrightarrow> length (offs cs) = length cs"
  by (simp add: offs_eq)

lemma nth_offs:
  "supported cs \<Longrightarrow> j < length cs \<Longrightarrow>
   offs cs ! j = (if is_str (cs ! j) then of_nat (str_cnt cs j) else of_nat (fix_off spark cs j))"
  by (simp add: offs_eq nth_col_offsets fix_off_def fix_size_def)

lemma unat_cnt:
  "supported cs \<Longrightarrow> length cs < 2 ^ 32 \<Longrightarrow> unat (cnt cs) = str_cnt cs (length cs)"
  using str_cnt_le [of cs "length cs"] by (simp add: cnt_eq unat_of_nat_less)

lemma unat_start:
  "supported cs \<Longrightarrow> fix_off spark cs (length cs) < 2 ^ 32 \<Longrightarrow>
   unat (start cs) = fix_off spark cs (length cs)"
  by (simp add: start_eq unat_of_nat_less)

lemma unat_offs_fixed:
  assumes "supported cs" "j < length cs" "\<not> is_str (cs ! j)" "fix_off spark cs (length cs) < 2 ^ 32"
  shows "unat (offs cs ! j) = fix_off spark cs j"
proof -
  have "fix_off spark cs j \<le> fix_off spark cs (length cs)" using assms(2) by (intro fix_off_mono) simp
  with assms show ?thesis by (simp add: nth_offs unat_of_nat_less)
qed

lemma unat_offs_str:
  assumes "supported cs" "j < length cs" "is_str (cs ! j)" "length cs < 2 ^ 32"
  shows "unat (offs cs ! j) = str_cnt cs j"
  using assms str_cnt_le [of cs j] by (simp add: nth_offs unat_of_nat_less)

end

subsection \<open>The three constructors\<close>

lemma bitmap_word: "BitMapSize spark (of_nat (length cs)) = of_nat (bitmap_bytes spark cs)"
  by (simp add: bitmap_bytes_def)

lemma header_word: "6 + BitMapSize spark (of_nat (length cs)) = of_nat (fix_off spark cs 0)"
  by (simp add: fix_off_def bitmap_word fix_size_def)

lemma offset_word_add:
  "(b :: u32) + ucast (of_nat (type_size spark t) :: u8) = b + of_nat (type_size spark t)"
  by (cases t; cases spark) (auto simp: type_size_def GetTypeSizeMap_def)

lemma fold_rb_column:
  "supported cs \<Longrightarrow>
   fold (rb_column spark) cs (of_nat a, of_nat b, vec) =
     (of_nat (a + str_cnt cs (length cs)), of_nat (b + fix_size spark cs),
      vec @ map of_nat (col_offsets spark a b cs))"
proof (induction cs arbitrary: a b vec)
  case Nil
  then show ?case by (simp add: fix_size_def)
next
  case (Cons c cs)
  show ?case
  proof (cases "is_str c")
    case True
    then show ?thesis
      using Cons.IH [of "Suc a" b] Cons.prems
      by (simp add: rb_column_def str_cnt_Cons fix_size_def add.commute)
  next
    case False
    then show ?thesis
      using Cons.IH [of a "b + type_size spark (col_type c)"] Cons.prems False supported_size [OF Cons.prems False, of spark]
      by (simp add: rb_column_def str_cnt_Cons fix_size_def add.assoc offset_word_add)
  qed
qed

lemma rv_init_columns_supported:
  "supported cs \<Longrightarrow>
   rv_init_columns spark cs (of_nat b) (of_nat a) vec =
     (True, of_nat (b + fix_size spark cs), of_nat (a + str_cnt cs (length cs)),
      vec @ map of_nat (col_offsets spark a b cs))"
proof (induction cs arbitrary: a b vec)
  case Nil
  then show ?case by (simp add: fix_size_def)
next
  case (Cons c cs)
  show ?case
  proof (cases "is_str c")
    case True
    then show ?thesis
      using Cons.IH [of b "Suc a"] Cons.prems
      by (simp add: str_cnt_Cons fix_size_def add.commute)
  next
    case False
    then show ?thesis
      using Cons.IH [of "b + type_size spark (col_type c)" a] Cons.prems False supported_size [OF Cons.prems False, of spark]
      by (simp add: str_cnt_Cons fix_size_def add.assoc offset_word_add)
  qed
qed

lemma RowBuilder_new_supported:
  assumes "supported cs"
  shows "RowBuilder_new spark cs =
    \<lparr>rb_schema = cs, rb_buf = None, rb_cnt = 0, rb_size = 0,
     rb_str_field_cnt = of_nat (str_cnt cs (length cs)), rb_str_addr_length = 0,
     rb_str_field_start_offset = of_nat (fix_off spark cs (length cs)), rb_str_offset = 0,
     rb_offset_vec = map of_nat (col_offsets spark 0 (fix_off spark cs 0) cs)\<rparr>"
  using fold_rb_column [OF assms, of spark 0 "fix_off spark cs 0" "[]"]
  by (simp add: RowBuilder_new_def header_word) (simp add: fix_off_def fix_size_def)

lemma rv_Init_supported:
  assumes "supported (rv_schema v)" "rv_string_field_cnt v = 0" "rv_offset_vec v = []"
  shows "rv_Init spark v =
    (True, v\<lparr>rv_string_field_cnt := of_nat (str_cnt (rv_schema v) (length (rv_schema v))),
             rv_offset_vec := map of_nat (col_offsets spark 0 (fix_off spark (rv_schema v) 0) (rv_schema v)),
             rv_str_field_start_offset := of_nat (fix_off spark (rv_schema v) (length (rv_schema v)))\<rparr>)"
  using rv_init_columns_supported [OF assms(1), of spark "fix_off spark (rv_schema v) 0" 0 "[]"] assms(2,3)
  by (simp add: rv_Init_def header_word) (simp add: fix_off_def fix_size_def)

lemma RowView_schema_supported:
  assumes "supported cs"
  shows "RowView_schema spark cs =
    RowView_default\<lparr>rv_is_valid := True, rv_schema := cs,
       rv_string_field_cnt := of_nat (str_cnt cs (length cs)),
       rv_offset_vec := map of_nat (col_offsets spark 0 (fix_off spark cs 0) cs),
       rv_str_field_start_offset := of_nat (fix_off spark cs (length cs))\<rparr>"
  using assms by (simp add: RowView_schema_def rv_Init_supported RowView_default_def)

lemma rf_columns_supported:
  "supported cs \<Longrightarrow>
   map ci_offset (rf_infos (rf_columns spark i cs (of_nat b) (of_nat a) f)) =
     map ci_offset (rf_infos f) @ map of_nat (col_offsets spark a b cs) \<and>
   rf_str_field_start_offset (rf_columns spark i cs (of_nat b) (of_nat a) f) = of_nat (b + fix_size spark cs) \<and>
   rf_next_str_pos (rf_columns spark i cs (of_nat b) (of_nat a) f) =
     rf_next_str_pos f @ map (\<lambda>k. (of_nat k, of_nat k)) [a..<a + str_cnt cs (length cs)] \<and>
   rf_schema (rf_columns spark i cs (of_nat b) (of_nat a) f) = rf_schema f"
proof (induction cs arbitrary: i a b f)
  case Nil
  then show ?case by (simp add: fix_size_def)
next
  case (Cons c cs)
  show ?case
  proof (cases "is_str c")
    case True
    then show ?thesis
      using Cons.IH [where a = "Suc a" and b = b] Cons.prems
      by (simp add: str_cnt_Cons fix_size_def add.commute upt_conv_Cons del: upt_Suc)
  next
    case False
    then show ?thesis
      using Cons.IH [where a = a and b = "b + type_size spark (col_type c)"] Cons.prems False
        supported_size [OF Cons.prems False, of spark]
      by (simp add: str_cnt_Cons fix_size_def add.assoc offset_word_add)
  qed
qed

lemma link_next_upt:
  "rev (link_next p (rev (map (\<lambda>k. (of_nat k, of_nat k)) [0..<n]))) =
     map (\<lambda>k. (of_nat k, if Suc k = n then p else of_nat (Suc k))) [0..<n]"
  by (induction n arbitrary: p) auto

lemma RowFormat_new_supported:
  assumes "supported cs"
  shows "map ci_offset (rf_infos (RowFormat_new spark (Some cs)))
           = map of_nat (col_offsets spark 0 (fix_off spark cs 0) cs)"
    and "rf_str_field_start_offset (RowFormat_new spark (Some cs)) = of_nat (fix_off spark cs (length cs))"
    and "rf_next_str_pos (RowFormat_new spark (Some cs)) =
           map (\<lambda>k. (of_nat k, if Suc k = str_cnt cs (length cs) then 0 else of_nat (Suc k)))
               [0..<str_cnt cs (length cs)]"
    and "rf_schema (RowFormat_new spark (Some cs)) = cs"
  using rf_columns_supported [OF assms, where a = 0 and b = "fix_off spark cs 0"]
  by (simp_all add: RowFormat_new_def GetStartOffset_def header_word link_next_upt Let_def)
     (simp add: fix_off_def fix_size_def)

interpretation rb: layout_provider spark
  "\<lambda>cs. rb_str_field_cnt (RowBuilder_new spark cs)"
  "\<lambda>cs. rb_str_field_start_offset (RowBuilder_new spark cs)"
  "\<lambda>cs. rb_offset_vec (RowBuilder_new spark cs)" for spark
  by unfold_locales (simp_all add: RowBuilder_new_supported)

interpretation rv: layout_provider spark
  "\<lambda>cs. rv_string_field_cnt (RowView_schema spark cs)"
  "\<lambda>cs. rv_str_field_start_offset (RowView_schema spark cs)"
  "\<lambda>cs. rv_offset_vec (RowView_schema spark cs)" for spark
  by unfold_locales (simp_all add: RowView_schema_supported)

interpretation rf: layout_provider spark
  "\<lambda>cs. of_nat (length (rf_next_str_pos (RowFormat_new spark (Some cs))))"
  "\<lambda>cs. rf_str_field_start_offset (RowFormat_new spark (Some cs))"
  "\<lambda>cs. map ci_offset (rf_infos (RowFormat_new spark (Some cs)))" for spark
  by unfold_locales (simp_all add: RowFormat_new_supported)

subsection \<open>Agreement\<close>

lemma map_of_of_nat_upt:
  assumes "s < n" "n \<le> 2 ^ 32"
  shows "map_of (map (\<lambda>k. (of_nat k :: u32, g k)) [0..<n]) (of_nat s) = Some (g s)"
  using assms
proof (induction n)
  case 0
  then show ?case by simp
next
  case (Suc n)
  show ?case
  proof (cases "s = n")
    case True
    have "(of_nat n :: u32) \<notin> of_nat ` {0..<n}"
    proof
      assume "(of_nat n :: u32) \<in> of_nat ` {0..<n}"
      then obtain k where "k < n" "(of_nat n :: u32) = of_nat k" by auto
      then have "unat (of_nat n :: u32) = unat (of_nat k :: u32)" by simp
      then show False using Suc.prems \<open>k < n\<close> by (simp add: unat_of_nat_less)
    qed
    then have "map_of (map (\<lambda>k. (of_nat k :: u32, g k)) [0..<n]) (of_nat n) = None"
      by (auto simp: map_of_eq_None_iff)
    then show ?thesis using True by (simp add: map_add_def)
  next
    case False
    then show ?thesis using Suc by simp
  qed
qed

lemma next_str_field_of_nat:
  assumes "s < n" "n < 2 ^ 32"
  shows "next_str_field (of_nat s) (of_nat n) = (if Suc s = n then 0 else of_nat (Suc s))"
proof -
  have eq: "(of_nat n :: u32) - 1 = of_nat (n - 1)" using assms by (simp add: of_nat_diff)
  have "unat ((of_nat n :: u32) - 1) = n - 1"
    unfolding eq using assms by (intro unat_of_nat_less) simp
  then have "(of_nat s :: u32) < of_nat n - 1 \<longleftrightarrow> s < n - 1"
    using assms by (simp add: word_less_nat_alt unat_of_nat_less)
  then show ?thesis using assms by (auto simp: next_str_field_def add.commute)
qed

text \<open>C3. For every schema of supported column types, \<open>RowBuilder\<close>, \<open>RowView\<close> and \<open>RowFormat\<close> place
  every column at the same offset, and the string column table of \<open>RowFormat\<close> names for each string the same
  successor as \<open>RowView\<close> computes. \<open>RowBuilder\<close> and \<open>RowView\<close> put the string addresses at the same start in both row
  formats. \<open>RowFormat\<close> has that start in the default format only: in the UnsafeRow format it gives the size of
  the null bitmap instead, as its comment says.
\<close>

theorem layouts_agree:
  assumes "supported cs" and "length cs < 2 ^ 32" and "j < length cs"
  shows "rb_offset_vec (RowBuilder_new spark cs) ! j = rv_offset_vec (RowView_schema spark cs) ! j
    \<and> map_option ci_offset (GetColumnInfo (RowFormat_new spark (Some cs)) j)
        = Some (rv_offset_vec (RowView_schema spark cs) ! j)
    \<and> rb_str_field_start_offset (RowBuilder_new spark cs) = rv_str_field_start_offset (RowView_schema spark cs)
    \<and> rb_str_field_cnt (RowBuilder_new spark cs) = rv_string_field_cnt (RowView_schema spark cs)
    \<and> (is_str (cs ! j) \<longrightarrow>
         map_option str_next_offset (GetStringColumnInfo spark (RowFormat_new spark (Some cs)) j)
           = Some (next_str_field (rv_offset_vec (RowView_schema spark cs) ! j)
                                  (rv_string_field_cnt (RowView_schema spark cs)))
         \<and> map_option str_start_offset (GetStringColumnInfo spark (RowFormat_new spark (Some cs)) j)
             = Some (if spark then BitMapSize spark (of_nat (length cs))
                     else rv_str_field_start_offset (RowView_schema spark cs)))"
proof -
  let ?f = "RowFormat_new spark (Some cs)"
  have len: "length (rf_infos ?f) = length cs"
    using rf.length_offs [OF assms(1), of spark] by simp
  have off: "ci_offset (rf_infos ?f ! j) = rv_offset_vec (RowView_schema spark cs) ! j"
    using rf.nth_offs [OF assms(1,3), of spark] rv.nth_offs [OF assms(1,3), of spark] len assms(3) by simp
  have str: "map_of (rf_next_str_pos ?f) (of_nat (str_cnt cs j))
      = Some (next_str_field (of_nat (str_cnt cs j)) (of_nat (str_cnt cs (length cs))))" if "is_str (cs ! j)"
    using str_cnt_less [OF assms(3) _ that] str_cnt_le [of cs "length cs"] assms(1,2)
    by (simp add: RowFormat_new_supported map_of_of_nat_upt next_str_field_of_nat)
  have fst: "rv_offset_vec (RowView_schema spark cs) ! j = of_nat (str_cnt cs j)" if "is_str (cs ! j)"
    using rv.nth_offs [OF assms(1,3), of spark] that by simp
  show ?thesis
    using assms len off str fst
    by (cases spark)
       (auto simp: GetColumnInfo_def GetStringColumnInfo_def Let_def ColInfo.defs rb.nth_offs rv.nth_offs
        rb.start_eq rv.start_eq rb.cnt_eq rv.cnt_eq RowFormat_new_supported(2,4))
qed

subsection \<open>A concrete schema\<close>

definition sample_schema :: Schema where
  "sample_schema = [\<lparr>col_name = ''c0'', col_type = kInt32\<rparr>, \<lparr>col_name = ''c1'', col_type = kVarchar\<rparr>,
     \<lparr>col_name = ''c2'', col_type = kDate\<rparr>, \<lparr>col_name = ''c3'', col_type = kVarchar\<rparr>,
     \<lparr>col_name = ''c4'', col_type = kBool\<rparr>]"

theorem layouts_agree_witness:
  "rb_offset_vec (RowBuilder_new False sample_schema) ! 3 = rv_offset_vec (RowView_schema False sample_schema) ! 3
    \<and> rb_str_field_start_offset (RowBuilder_new False sample_schema)
        = rv_str_field_start_offset (RowView_schema False sample_schema)"
  using layouts_agree [of sample_schema 3 False] by (simp add: sample_schema_def supported_def)

end
