(* ===== verification/Row_Roundtrip.thy ===== *)
theory Row_Roundtrip
  imports Row_Layout Type_Facts
begin

text \<open>
  Encoding a row with \<open>RowBuilder\<close> and reading it with \<open>RowView\<close>. \<open>encode_row\<close> is the sequence of
  calls every client makes: size the row with \<open>CalTotalLength\<close>, hand over a buffer of that size
  with \<open>SetBuffer\<close>, append the columns in order. The invariant \<open>enc_inv\<close> describes the buffer after
  \<open>k\<close> appends; from it every append stays inside the buffer and every column reads back.
\<close>

subsection \<open>Values of a column\<close>

primrec cell_ok :: "fe_type \<Rightarrow> cell \<Rightarrow> bool" where
  "cell_ok t (VBool _) = (t = kBool)"
| "cell_ok t (VInt16 _) = (t = kInt16)"
| "cell_ok t (VInt32 _) = (t = kInt32)"
| "cell_ok t (VInt64 _) = (t = kInt64)"
| "cell_ok t (VTimestamp _) = (t = kTimestamp)"
| "cell_ok t (VFloat _) = (t = kFloat)"
| "cell_ok t (VDouble _) = (t = kDouble)"
| "cell_ok t (VDate y m d) =
     (t = kDate \<and> date_ok y m d)"
| "cell_ok t (VString _) = (t = kVarchar)"

fun cell_bytes :: "cell \<Rightarrow> byte list" where
  "cell_bytes (VBool b) = le_bytes 1 (if b then 1 else 0 :: u8)"
| "cell_bytes (VInt16 x) = le_bytes 2 x"
| "cell_bytes (VInt32 x) = le_bytes 4 x"
| "cell_bytes (VInt64 x) = le_bytes 8 x"
| "cell_bytes (VTimestamp x) = le_bytes 8 x"
| "cell_bytes (VFloat x) = le_bytes 4 x"
| "cell_bytes (VDouble x) = le_bytes 8 x"
| "cell_bytes (VDate y m d) = le_bytes 4 (date_data y m d)"
| "cell_bytes (VString s) = s"

definition row_ok :: "Schema \<Rightarrow> cell option list \<Rightarrow> bool" where
  "row_ok cs vals =
     list_all2 (\<lambda>c v. case v of None \<Rightarrow> True | Some x \<Rightarrow> cell_ok (col_type c) x) cs vals"

definition str_of :: "cell option \<Rightarrow> byte list" where
  "str_of v = (case v of Some (VString s) \<Rightarrow> s | _ \<Rightarrow> [])"

definition strs :: "Schema \<Rightarrow> cell option list \<Rightarrow> byte list list" where
  "strs cs vals = map (\<lambda>(c, v). str_of v) (filter (\<lambda>(c, v). is_str c) (zip cs vals))"

definition str_total :: "Schema \<Rightarrow> cell option list \<Rightarrow> nat" where
  "str_total cs vals = sum_list (map length (strs cs vals))"

subsection \<open>The sequence of calls\<close>

fun rb_append :: "bool \<Rightarrow> cell option \<Rightarrow> RowBuilder \<Rightarrow> (bool \<times> RowBuilder) option" where
  "rb_append spark None b = AppendNULL b"
| "rb_append spark (Some (VBool x)) b = rb_AppendBool spark x b"
| "rb_append spark (Some (VInt16 x)) b = rb_AppendInt16 spark x b"
| "rb_append spark (Some (VInt32 x)) b = rb_AppendInt32 spark x b"
| "rb_append spark (Some (VInt64 x)) b = rb_AppendInt64 spark x b"
| "rb_append spark (Some (VTimestamp x)) b = rb_AppendTimestamp spark x b"
| "rb_append spark (Some (VFloat x)) b = rb_AppendFloat spark x b"
| "rb_append spark (Some (VDouble x)) b = rb_AppendDouble spark x b"
| "rb_append spark (Some (VDate y m d)) b = rb_AppendDate spark y m d b"
| "rb_append spark (Some (VString s)) b = rb_AppendString spark (Some s) (of_nat (length s)) b"

fun append_all :: "bool \<Rightarrow> cell option list \<Rightarrow> RowBuilder \<Rightarrow> (bool \<times> RowBuilder) option" where
  "append_all spark [] b = Some (True, b)"
| "append_all spark (v # vs) b = do {
     (ok, b') \<leftarrow> rb_append spark v b;
     if ok then append_all spark vs b' else Some (False, b')
   }"

definition encode_row ::
  "bool \<Rightarrow> Schema \<Rightarrow> cell option list \<Rightarrow> buffer \<Rightarrow> (bool \<times> RowBuilder) option" where
  "encode_row spark cs vals m0 =
     (let b = RowBuilder_new spark cs in do {
        (ok, b1) \<leftarrow> SetBuffer spark b (Some m0) (CalTotalLength b (of_nat (str_total cs vals)));
        if ok then append_all spark vals b1 else Some (False, b1)
      })"

text \<open>Reading a column with the reader of its type.\<close>

definition as_cell :: "('v \<Rightarrow> cell) \<Rightarrow> (int \<times> 'v option) option \<Rightarrow> (int \<times> cell option) option" where
  "as_cell f r = map_option (\<lambda>(ret, x). (ret, map_option f x)) r"

definition rv_read :: "bool \<Rightarrow> RowView \<Rightarrow> fe_type \<Rightarrow> u32 \<Rightarrow> (int \<times> cell option) option" where
  "rv_read spark v t idx =
     (case t of
        kBool \<Rightarrow> as_cell VBool (rv_GetBool v idx)
      | kInt16 \<Rightarrow> as_cell VInt16 (rv_GetInt16 v idx)
      | kInt32 \<Rightarrow> as_cell VInt32 (rv_GetInt32 v idx)
      | kInt64 \<Rightarrow> as_cell VInt64 (rv_GetInt64 v idx)
      | kTimestamp \<Rightarrow> as_cell VTimestamp (rv_GetTimestamp v idx)
      | kFloat \<Rightarrow> as_cell VFloat (rv_GetFloat v idx)
      | kDouble \<Rightarrow> as_cell VDouble (rv_GetDouble v idx)
      | kDate \<Rightarrow> as_cell (\<lambda>(y, m, d). VDate y m d) (rv_GetDate v idx)
      | kVarchar \<Rightarrow> do {
          (ret, out) \<leftarrow> rv_GetString spark v idx;
          if ret \<noteq> 0 then Some (ret, None)
          else do {
            (val, len) \<leftarrow> out;
            m \<leftarrow> rv_row v;
            s \<leftarrow> load_bytes m val (unat len);
            Some (0, Some (VString s))
          }
        }
      | _ \<Rightarrow> Some (-1, None))"

subsection \<open>Strings of a row\<close>

lemma row_ok_length: "row_ok cs vals \<Longrightarrow> length vals = length cs"
  by (auto simp: row_ok_def list_all2_lengthD)

lemma row_ok_nth: "row_ok cs vals \<Longrightarrow> j < length cs \<Longrightarrow> vals ! j = Some x \<Longrightarrow> cell_ok (col_type (cs ! j)) x"
  by (auto simp: row_ok_def list_all2_conv_all_nth)

lemma length_strs: "length vals = length cs \<Longrightarrow> length (strs cs vals) = str_cnt cs (length cs)"
proof (induction cs arbitrary: vals)
  case Nil
  then show ?case by (simp add: strs_def)
next
  case (Cons c cs)
  then show ?case by (cases vals) (auto simp: strs_def str_cnt_Cons)
qed

lemma nth_strs:
  "length vals = length cs \<Longrightarrow> j < length cs \<Longrightarrow> is_str (cs ! j) \<Longrightarrow>
   strs cs vals ! str_cnt cs j = str_of (vals ! j)"
proof (induction cs arbitrary: vals j)
  case Nil
  then show ?case by simp
next
  case (Cons c cs)
  then obtain v vs where "vals = v # vs" by (cases vals) auto
  with Cons show ?case by (cases j) (auto simp: strs_def str_cnt_Cons)
qed

lemma cell_bytes_length:
  "cell_ok t x \<Longrightarrow> t \<noteq> kVarchar \<Longrightarrow> length (cell_bytes x) \<le> type_size spark t"
  by (cases x; cases spark) (auto simp: type_size_def GetTypeSizeMap_def)

lemma cell_ok_str: "cell_ok kVarchar x \<Longrightarrow> \<exists>s. x = VString s"
  by (cases x) auto

subsection \<open>Addresses\<close>

lemma load_word_byte: "a < length m \<Longrightarrow> (load_word m a (Suc 0) :: u8 option) = Some (m ! a)"
  using load_bytes_one [of a m] by (simp add: load_word_def)

lemma le_bytes_byte [simp]: "le_bytes (Suc 0) (w :: u8) = [w]"
  by (simp add: le_bytes_def)

lemma store_word_byte: "store_word m a (Suc 0) (w :: u8) = store_bytes m a [w]"
  by (simp add: store_word_def)

lemma unat_and_7: "unat ((w :: u32) AND 7) = unat w mod 8"
proof -
  have "w AND 7 = take_bit 3 w" by (simp add: take_bit_eq_mask mask_eq_exp_minus_1)
  then have "unat (w AND 7) = take_bit 3 (unat w)" by (simp only: unsigned_take_bit_eq)
  then show ?thesis by (simp add: take_bit_eq_mod)
qed

lemma unat_u32: "n < 2 ^ 32 \<Longrightarrow> unat (of_nat n :: u32) = n"
  by (rule unat_of_nat_less) simp

lemma u32_le_max [simp]: "(w :: u32) \<le> 4294967295"
  using unsigned_less [of w, where ?'a = nat] by (simp add: word_le_nat_alt)

lemma unat_GetAddrLength: "unat (GetAddrLength sz) \<in> {1, 2, 3, 4}"
  by (simp add: GetAddrLength_def)

lemma addr_bytes_length [len_simps]:
  "length (addr_bytes (ucast (GetAddrLength sz)) off) = unat (GetAddrLength sz)"
  by (simp add: GetAddrLength_def addr_bytes_def)

lemma CalTotalLength_unat:
  assumes "supported cs" and "cs \<noteq> []"
    and "fix_off spark cs (length cs) + S + 4 * str_cnt cs (length cs) < 2 ^ 32"
    and "T = CalTotalLength (RowBuilder_new spark cs) (of_nat S)"
  shows "unat T = fix_off spark cs (length cs) + S + unat (GetAddrLength T) * str_cnt cs (length cs)"
proof -
  define C where "C = str_cnt cs (length cs)"
  define F where "F = fix_off spark cs (length cs)"
  have w: "unat (of_nat F + of_nat S + of_nat C * of_nat a :: u32) = F + S + a * C" if "a \<le> 4" for a
  proof -
    have "C * a \<le> 4 * C" using mult_le_mono2 [OF that, of C] by simp
    then have "F + S + C * a < 2 ^ 32"
      using assms(3) [folded C_def F_def] by linarith
    then have "unat (of_nat (F + S + C * a) :: u32) = F + S + C * a" by (rule unat_u32)
    then show ?thesis by (simp add: mult.commute)
  qed
  define t where "t a = (of_nat F + of_nat S + of_nat C * of_nat a :: u32)" for a :: nat
  have t: "unat (t a) = F + S + a * C" if "a \<le> 4" for a using w [OF that] by (simp add: t_def)
  have T: "T = (if t 1 \<le> 255 then t 1 else if t 2 \<le> 65535 then t 2
             else if t 3 \<le> 16777215 then t 3 else t 4)"
    using assms(1,2,4) unfolding t_def
    by (simp add: CalTotalLength_def RowBuilder_new_supported C_def [symmetric] F_def [symmetric] Let_def)
  have le: "t 1 \<le> 255 \<longleftrightarrow> unat (t 1) \<le> 255" "t 2 \<le> 65535 \<longleftrightarrow> unat (t 2) \<le> 65535"
    "t 3 \<le> 16777215 \<longleftrightarrow> unat (t 3) \<le> 16777215"
    by (simp_all add: word_le_nat_alt)
  have "unat (t 1) \<le> unat (t 2)" "unat (t 2) \<le> unat (t 3)" "unat (t 3) \<le> unat (t 4)"
    by (simp_all add: t)
  then have "(T = t 1 \<and> unat T \<le> 255) \<or> (T = t 2 \<and> 255 < unat T \<and> unat T \<le> 65535)
    \<or> (T = t 3 \<and> 65535 < unat T \<and> unat T \<le> 16777215) \<or> (T = t 4 \<and> 16777215 < unat T)"
    unfolding T le by auto
  then have "unat T = F + S + unat (GetAddrLength T) * C"
    by (elim disjE) (auto simp: GetAddrLength_def word_le_nat_alt t)
  then show ?thesis unfolding C_def F_def .
qed

subsection \<open>The invariant of encoding\<close>

definition body_off :: "bool \<Rightarrow> Schema \<Rightarrow> cell option list \<Rightarrow> nat \<Rightarrow> nat \<Rightarrow> nat" where
  "body_off spark cs vals A s =
     fix_off spark cs (length cs) + A * str_cnt cs (length cs) + sum_list (map length (take s (strs cs vals)))"

definition slot_off :: "bool \<Rightarrow> Schema \<Rightarrow> nat \<Rightarrow> nat \<Rightarrow> nat" where
  "slot_off spark cs A s = fix_off spark cs (length cs) + A * s"

text \<open>The buffer when the null bits of the first \<open>kb\<close> columns and the values of the first \<open>k\<close> are
  written.\<close>

definition enc_mem :: "bool \<Rightarrow> Schema \<Rightarrow> cell option list \<Rightarrow> u32 \<Rightarrow> nat \<Rightarrow> nat \<Rightarrow> buffer \<Rightarrow> bool" where
  "enc_mem spark cs vals T kb k m \<longleftrightarrow>
     length m = unat T \<and> load_bytes m 2 4 = Some (le_bytes 4 T) \<and>
     (\<forall>j<length cs. bit (m ! (6 + j div 8)) (j mod 8) \<longleftrightarrow> j < kb \<and> vals ! j = None) \<and>
     (\<forall>j<k. \<forall>x. vals ! j = Some x \<longrightarrow> \<not> is_str (cs ! j) \<longrightarrow>
        load_bytes m (fix_off spark cs j) (length (cell_bytes x)) = Some (cell_bytes x)) \<and>
     (\<forall>s < str_cnt cs k.
        load_bytes m (slot_off spark cs (unat (GetAddrLength T)) s) (unat (GetAddrLength T)) =
          Some (addr_bytes (ucast (GetAddrLength T))
            (of_nat (body_off spark cs vals (unat (GetAddrLength T)) s))) \<and>
        load_bytes m (body_off spark cs vals (unat (GetAddrLength T)) s) (length (strs cs vals ! s)) =
          Some (strs cs vals ! s))"

definition enc_ok :: "bool \<Rightarrow> Schema \<Rightarrow> cell option list \<Rightarrow> u32 \<Rightarrow> bool" where
  "enc_ok spark cs vals T \<longleftrightarrow>
     supported cs \<and> cs \<noteq> [] \<and> length cs < 2 ^ 31 \<and> row_ok cs vals \<and>
     fix_off spark cs (length cs) + str_total cs vals + 4 * str_cnt cs (length cs) < 2 ^ 32 \<and>
     T = CalTotalLength (RowBuilder_new spark cs) (of_nat (str_total cs vals))"

definition enc_state :: "bool \<Rightarrow> Schema \<Rightarrow> cell option list \<Rightarrow> u32 \<Rightarrow> nat \<Rightarrow> buffer \<Rightarrow> RowBuilder" where
  "enc_state spark cs vals T k m =
     \<lparr>rb_schema = cs, rb_buf = Some m, rb_cnt = of_nat k, rb_size = T,
      rb_str_field_cnt = of_nat (str_cnt cs (length cs)),
      rb_str_addr_length = ucast (GetAddrLength T),
      rb_str_field_start_offset = of_nat (fix_off spark cs (length cs)),
      rb_str_offset = of_nat (body_off spark cs vals (unat (GetAddrLength T)) (str_cnt cs k)),
      rb_offset_vec = map of_nat (col_offsets spark 0 (fix_off spark cs 0) cs)\<rparr>"

definition enc_inv :: "bool \<Rightarrow> Schema \<Rightarrow> cell option list \<Rightarrow> u32 \<Rightarrow> nat \<Rightarrow> RowBuilder \<Rightarrow> bool" where
  "enc_inv spark cs vals T k b \<longleftrightarrow> (\<exists>m. enc_mem spark cs vals T k k m \<and> b = enc_state spark cs vals T k m)"

lemma enc_state_sel [simp]:
  "rb_schema (enc_state spark cs vals T k m) = cs"
  "rb_buf (enc_state spark cs vals T k m) = Some m"
  "rb_cnt (enc_state spark cs vals T k m) = of_nat k"
  "rb_size (enc_state spark cs vals T k m) = T"
  "rb_str_addr_length (enc_state spark cs vals T k m) = ucast (GetAddrLength T)"
  "rb_str_field_start_offset (enc_state spark cs vals T k m) = of_nat (fix_off spark cs (length cs))"
  "rb_str_offset (enc_state spark cs vals T k m) =
     of_nat (body_off spark cs vals (unat (GetAddrLength T)) (str_cnt cs k))"
  "rb_offset_vec (enc_state spark cs vals T k m) = map of_nat (col_offsets spark 0 (fix_off spark cs 0) cs)"
  by (simp_all add: enc_state_def)

lemma enc_state_step:
  "str_cnt cs (Suc k) = str_cnt cs k \<Longrightarrow>
   (enc_state spark cs vals T k m)\<lparr>rb_buf := Some m', rb_cnt := of_nat k + 1\<rparr> = enc_state spark cs vals T (Suc k) m'"
  "body_off spark cs vals (unat (GetAddrLength T)) (str_cnt cs (Suc k)) =
     body_off spark cs vals (unat (GetAddrLength T)) (str_cnt cs k) + len \<Longrightarrow>
   (enc_state spark cs vals T k m)\<lparr>rb_buf := Some m',
      rb_str_offset := of_nat (body_off spark cs vals (unat (GetAddrLength T)) (str_cnt cs k)) + of_nat len,
      rb_cnt := of_nat k + 1\<rparr> = enc_state spark cs vals T (Suc k) m'"
  by (simp_all add: enc_state_def add.commute)

lemma body_off_Suc:
  "s < length (strs cs vals) \<Longrightarrow>
   body_off spark cs vals A (Suc s) = body_off spark cs vals A s + length (strs cs vals ! s)"
  by (simp add: body_off_def take_Suc_conv_app_nth)

lemma body_off_mono: "s \<le> s' \<Longrightarrow> body_off spark cs vals A s \<le> body_off spark cs vals A s'"
proof -
  assume "s \<le> s'"
  then obtain d where "s' = s + d" using le_Suc_ex by blast
  then show ?thesis by (simp add: body_off_def take_add)
qed

lemma enc_ok_size:
  assumes "enc_ok spark cs vals T"
  shows "unat T = body_off spark cs vals (unat (GetAddrLength T)) (str_cnt cs (length cs))"
proof -
  have "unat T = fix_off spark cs (length cs) + str_total cs vals
      + unat (GetAddrLength T) * str_cnt cs (length cs)"
    using assms unfolding enc_ok_def by (intro CalTotalLength_unat) auto
  moreover have "length (strs cs vals) = str_cnt cs (length cs)"
    using assms by (intro length_strs row_ok_length) (simp add: enc_ok_def)
  ultimately show ?thesis by (simp add: body_off_def str_total_def)
qed

lemma slot_below_body: "s < str_cnt cs (length cs) \<Longrightarrow>
  slot_off spark cs A s + A \<le> body_off spark cs vals A s'"
proof -
  assume "s < str_cnt cs (length cs)"
  then have "A * Suc s \<le> A * str_cnt cs (length cs)" by (intro mult_le_mono2) simp
  then show ?thesis by (simp add: slot_off_def body_off_def)
qed

lemma slot_off_less: "s < s' \<Longrightarrow> slot_off spark cs A s + A \<le> slot_off spark cs A s'"
proof -
  assume "s < s'"
  then have "A * Suc s \<le> A * s'" by (intro mult_le_mono2) simp
  then show ?thesis by (simp add: slot_off_def)
qed

lemma bitmap_covers: "length cs < 2 ^ 31 \<Longrightarrow> j < length cs \<Longrightarrow> j div 8 < bitmap_bytes spark cs"
proof -
  assume a: "length cs < 2 ^ 31" "j < length cs"
  have "length cs \<le> 8 * bitmap_bytes spark cs"
  proof (cases spark)
    case True
    then show ?thesis using BitMapSize_spark [of "length cs"] a unfolding bitmap_bytes_def by simp
  next
    case False
    then show ?thesis using BitMapSize_default [of "length cs"] a unfolding bitmap_bytes_def by simp
  qed
  then show ?thesis using a(2) by linarith
qed

subsection \<open>One store\<close>

lemma enc_mem_store:
  assumes inv: "enc_mem spark cs vals T kb k m" and st: "store_bytes m a bs = Some m'"
    and ok: "enc_ok spark cs vals T" and k: "k \<le> length cs"
    and bm: "6 + bitmap_bytes spark cs \<le> a"
    and fx: "\<And>j. j < k \<Longrightarrow> \<not> is_str (cs ! j) \<Longrightarrow> fix_off spark cs (Suc j) \<le> a"
    and sl: "\<And>s. s < str_cnt cs k \<Longrightarrow>
      slot_off spark cs (unat (GetAddrLength T)) s + unat (GetAddrLength T) \<le> a \<or>
      a + length bs \<le> slot_off spark cs (unat (GetAddrLength T)) s"
    and bd: "\<And>s. s < str_cnt cs k \<Longrightarrow>
      body_off spark cs vals (unat (GetAddrLength T)) (Suc s) \<le> a \<or>
      a + length bs \<le> body_off spark cs vals (unat (GetAddrLength T)) s"
  shows "enc_mem spark cs vals T kb k m'"
proof -
  have row: "row_ok cs vals" and n: "length cs < 2 ^ 31" using ok by (auto simp: enc_ok_def)
  have ls: "length (strs cs vals) = str_cnt cs (length cs)" using row by (simp add: length_strs row_ok_length)
  have bits: "m' ! (6 + j div 8) = m ! (6 + j div 8)" if "j < length cs" for j
    using store_bytes_nth [OF st, of "6 + j div 8"] bitmap_covers [OF n that, of spark] bm
      store_bytes_Some_iff [of m a bs] st by simp
  have hd: "load_bytes m' 2 4 = load_bytes m 2 4"
    using bm by (intro load_store_other [OF st]) simp
  have fixed: "load_bytes m' (fix_off spark cs j) (length (cell_bytes x)) =
      load_bytes m (fix_off spark cs j) (length (cell_bytes x))"
    if "j < k" "vals ! j = Some x" "\<not> is_str (cs ! j)" for j x
  proof -
    have "fix_off spark cs j + length (cell_bytes x) \<le> fix_off spark cs (Suc j)"
      using that k row cell_bytes_length [OF row_ok_nth [OF row _ that(2)], of spark]
      by (simp add: fix_off_Suc)
    then show ?thesis using fx [OF that(1,3)] by (intro load_store_other [OF st]) simp
  qed
  have slot: "load_bytes m' (slot_off spark cs (unat (GetAddrLength T)) s) (unat (GetAddrLength T)) =
      load_bytes m (slot_off spark cs (unat (GetAddrLength T)) s) (unat (GetAddrLength T))"
    if "s < str_cnt cs k" for s
    using sl [OF that] by (intro load_store_other [OF st])
  have body: "load_bytes m' (body_off spark cs vals (unat (GetAddrLength T)) s) (length (strs cs vals ! s)) =
      load_bytes m (body_off spark cs vals (unat (GetAddrLength T)) s) (length (strs cs vals ! s))"
    if "s < str_cnt cs k" for s
    using bd [OF that] that str_cnt_mono [OF k, of cs] ls
    by (intro load_store_other [OF st]) (simp add: body_off_Suc)
  show ?thesis
    unfolding enc_mem_def
  proof (intro conjI allI impI)
    show "length m' = unat T" "load_bytes m' 2 4 = Some (le_bytes 4 T)"
      using inv store_bytes_length [OF st] by (simp_all add: enc_mem_def hd)
  qed (use inv in \<open>auto simp: enc_mem_def bits fixed slot body\<close>)
qed

lemma u8_set_bit:
  "bit ((w :: u8) OR 2 ^ i) j \<longleftrightarrow> bit w j \<or> j = i" if "j < 8"
  using that by (auto simp: bit_or_iff bit_exp_iff)

lemma enc_mem_null_bit:
  assumes inv: "enc_mem spark cs vals T k k m" and ok: "enc_ok spark cs vals T" and k: "k < length cs"
    and "vals ! k = None"
    and st: "store_bytes m (6 + k div 8) [m ! (6 + k div 8) OR push_bit (k mod 8) 1] = Some m'"
  shows "enc_mem spark cs vals T (Suc k) k m'"
proof -
  have n: "length cs < 2 ^ 31" using ok by (auto simp: enc_ok_def)
  have B: "6 + k div 8 + 1 \<le> 6 + bitmap_bytes spark cs" using bitmap_covers [OF n k, of spark] by simp
  have m': "m' = m[6 + k div 8 := m ! (6 + k div 8) OR push_bit (k mod 8) 1]"
    and len: "6 + k div 8 < length m"
    using st by (auto simp: store_bytes_def upd_conv_take_nth_drop split: if_splits)
  have bits: "bit (m' ! (6 + j div 8)) (j mod 8) \<longleftrightarrow> bit (m ! (6 + j div 8)) (j mod 8) \<or> j = k" for j
  proof (cases "j div 8 = k div 8")
    case True
    then have "j mod 8 = k mod 8 \<longleftrightarrow> j = k" by (metis div_mult_mod_eq)
    then show ?thesis using True len by (simp add: m' u8_set_bit)
  next
    case False
    then show ?thesis using len by (auto simp: m')
  qed
  have "load_bytes m' a l = load_bytes m a l" if "6 + bitmap_bytes spark cs \<le> a \<or> a + l \<le> 6" for a l
    using that B by (intro load_store_other [OF st]) auto
  moreover have "6 + bitmap_bytes spark cs \<le> fix_off spark cs j" for j by (simp add: fix_off_def)
  moreover have "6 + bitmap_bytes spark cs \<le> slot_off spark cs A s"
      "6 + bitmap_bytes spark cs \<le> body_off spark cs vals A s" for A s
    by (simp_all add: slot_off_def body_off_def fix_off_def)
  ultimately show ?thesis
    using inv assms(3,4) store_bytes_length [OF st] unfolding enc_mem_def by (auto simp: bits less_Suc_eq)
qed

text \<open>The step from \<open>k\<close> values to \<open>k + 1\<close>.\<close>

lemma enc_mem_Suc_fixed:
  assumes "enc_mem spark cs vals T (Suc k) k m" "k < length cs" "\<not> is_str (cs ! k)"
    and "\<And>x. vals ! k = Some x \<Longrightarrow>
      load_bytes m (fix_off spark cs k) (length (cell_bytes x)) = Some (cell_bytes x)"
  shows "enc_mem spark cs vals T (Suc k) (Suc k) m"
  using assms by (auto simp: enc_mem_def less_Suc_eq str_cnt_Suc)

lemma enc_mem_Suc_str:
  assumes "enc_mem spark cs vals T (Suc k) k m" "k < length cs" "is_str (cs ! k)"
    and "s = str_cnt cs k" and "A = unat (GetAddrLength T)"
    and "load_bytes m (slot_off spark cs A s) A =
      Some (addr_bytes (ucast (GetAddrLength T)) (of_nat (body_off spark cs vals A s)))"
    and "load_bytes m (body_off spark cs vals A s) (length (strs cs vals ! s)) = Some (strs cs vals ! s)"
  shows "enc_mem spark cs vals T (Suc k) (Suc k) m"
  using assms by (auto simp: enc_mem_def less_Suc_eq str_cnt_Suc)

lemma enc_mem_not_null: "enc_mem spark cs vals T k k m \<Longrightarrow> vals ! k = Some x \<Longrightarrow> enc_mem spark cs vals T (Suc k) k m"
  by (auto simp: enc_mem_def less_Suc_eq)

subsection \<open>One append\<close>

lemma enc_ok_facts:
  assumes "enc_ok spark cs vals T"
  shows "supported cs" "length cs < 2 ^ 31" "row_ok cs vals" "length vals = length cs"
    "length (strs cs vals) = str_cnt cs (length cs)"
    "unat T = body_off spark cs vals (unat (GetAddrLength T)) (str_cnt cs (length cs))"
  using assms enc_ok_size [OF assms] by (auto simp: enc_ok_def row_ok_length length_strs)

lemma offsets_in_row:
  assumes "enc_ok spark cs vals T" "A = unat (GetAddrLength T)"
  shows "k \<le> length cs \<Longrightarrow> fix_off spark cs k \<le> slot_off spark cs A s"
    and "s < str_cnt cs (length cs) \<Longrightarrow> slot_off spark cs A s + A \<le> unat T"
    and "s \<le> str_cnt cs (length cs) \<Longrightarrow> body_off spark cs vals A s \<le> unat T"
    and "k \<le> length cs \<Longrightarrow> fix_off spark cs k \<le> unat T"
  using fix_off_mono [of k "length cs" spark cs] slot_below_body [of s cs spark A vals "str_cnt cs (length cs)"]
    body_off_mono [of s "str_cnt cs (length cs)" spark cs vals A] enc_ok_facts(6) [OF assms(1)] assms(2)
  by (auto simp: slot_off_def body_off_def)

lemma unat_less_u32: "unat (T :: u32) < 2 ^ 32"
  using unsigned_less [of T, where ?'a = nat] by simp

lemma str_cnt_lt: "k < length cs \<Longrightarrow> is_str (cs ! k) \<Longrightarrow> str_cnt cs k < str_cnt cs (length cs)"
  by (rule str_cnt_less) auto

lemma offset_at:
  "k < length cs \<Longrightarrow>
   col_offsets spark 0 (fix_off spark cs 0) cs ! k = (if is_str (cs ! k) then str_cnt cs k else fix_off spark cs k)"
  by (simp add: nth_col_offsets fix_off_def fix_size_def)

lemma supported_nth:
  "supported cs \<Longrightarrow> k < length cs \<Longrightarrow> is_str (cs ! k) \<or> GetTypeSizeMap spark (col_type (cs ! k)) \<noteq> None"
  by (auto simp: supported_def list_all_length size_map_domain)

lemma rb_Check_inv:
  assumes "enc_ok spark cs vals T" "k < length cs" "rb_schema b = cs" "rb_cnt b = of_nat k"
  shows "rb_Check spark b t = Some (col_type (cs ! k) = t)" and "unat (rb_cnt b) = k"
proof -
  have k: "k < 2 ^ 31" using assms(2) enc_ok_facts(2) [OF assms(1)] by simp
  then show u: "unat (rb_cnt b) = k" using assms(4) by (simp add: unat_u32)
  have "sint (rb_cnt b) = int k"
    unfolding assms(4) using k by (simp add: sint_uint unsigned_of_nat take_bit_nat_eq_self
      signed_take_bit_int_eq_self)
  then show "rb_Check spark b t = Some (col_type (cs ! k) = t)"
    using supported_nth [OF enc_ok_facts(1) [OF assms(1)] assms(2), of spark] assms(2,3) u
    by (auto simp: rb_Check_def vec_at_Some)
qed

lemma append_prim_inv:
  assumes ok: "enc_ok spark cs vals T" and mem: "enc_mem spark cs vals T k k m" and k: "k < length cs"
    and x: "vals ! k = Some x" and t: "col_type (cs ! k) = t" "t \<noteq> kVarchar"
  shows "\<exists>m'. append_prim spark t (cell_bytes x) (enc_state spark cs vals T k m) =
      Some (True, enc_state spark cs vals T (Suc k) m') \<and> enc_mem spark cs vals T (Suc k) (Suc k) m'"
proof -
  let ?a = "fix_off spark cs k"
  have len: "?a + length (cell_bytes x) \<le> fix_off spark cs (Suc k)"
    using cell_bytes_length [OF row_ok_nth [OF enc_ok_facts(3) [OF ok] k x], of spark] t k
    by (simp add: fix_off_Suc)
  have le: "fix_off spark cs (Suc k) \<le> slot_off spark cs A s"
    "fix_off spark cs (Suc k) \<le> body_off spark cs vals A s" for A s
    using fix_off_mono [of "Suc k" "length cs" spark cs] k by (simp_all add: slot_off_def body_off_def)
  have sz: "fix_off spark cs (Suc k) \<le> length m"
    using offsets_in_row(4) [OF ok refl, of "Suc k"] mem k by (simp add: enc_mem_def)
  then obtain m' where st: "store_bytes m ?a (cell_bytes x) = Some m'"
    using store_bytes_in_range [of ?a "cell_bytes x" m] len by (metis order_trans)
  have "enc_mem spark cs vals T (Suc k) k m'"
    using k len le fix_off_mono [of "Suc _" k spark cs]
    by (intro enc_mem_store [OF enc_mem_not_null [OF mem x] st ok])
      (auto simp: fix_off_def [of spark cs k] Suc_le_eq intro: order_trans)
  then have "enc_mem spark cs vals T (Suc k) (Suc k) m'"
    using k t x load_store_same [OF st refl] by (intro enc_mem_Suc_fixed) auto
  moreover have "unat (of_nat ?a :: u32) = ?a"
    using offsets_in_row(4) [OF ok refl, of k] k unat_less_u32 [of T] by (intro unat_u32) simp
  then have "append_prim spark t (cell_bytes x) (enc_state spark cs vals T k m) =
      Some (True, enc_state spark cs vals T (Suc k) m')"
    using rb_Check_inv [OF ok k, of "enc_state spark cs vals T k m"] t st k
    by (simp add: append_prim_def offset_at enc_state_step str_cnt_Suc)
  ultimately show ?thesis by blast
qed

lemma rb_append_fixed:
  "cell_ok t x \<Longrightarrow> t \<noteq> kVarchar \<Longrightarrow> rb_append spark (Some x) b = append_prim spark t (cell_bytes x) b"
  by (cases x) (auto simp: rb_AppendBool_def rb_AppendInt16_def rb_AppendInt32_def rb_AppendInt64_def
      rb_AppendTimestamp_def rb_AppendFloat_def rb_AppendDouble_def rb_AppendDate_def date_ok_def)

text \<open>The store of a string's address keeps the rest of the row.\<close>

lemma slot_store:
  assumes mem: "enc_mem spark cs vals T (Suc k) k m" and ok: "enc_ok spark cs vals T"
    and k: "k < length cs" "is_str (cs ! k)" and A: "A = unat (GetAddrLength T)"
    and bs: "length bs = A"
  shows "\<exists>m'. store_bytes m (slot_off spark cs A (str_cnt cs k)) bs = Some m'
    \<and> enc_mem spark cs vals T (Suc k) k m'"
proof -
  let ?s = "str_cnt cs k"
  have s: "?s < str_cnt cs (length cs)" using k by (rule str_cnt_lt)
  then obtain m' where st: "store_bytes m (slot_off spark cs A ?s) bs = Some m'"
    using offsets_in_row(2) [OF ok A s] mem bs store_bytes_in_range [of "slot_off spark cs A ?s" bs m]
    by (auto simp: enc_mem_def)
  have "enc_mem spark cs vals T (Suc k) k m'"
  proof (rule enc_mem_store [OF mem st ok])
    show "fix_off spark cs (Suc j) \<le> slot_off spark cs A ?s" if "j < k" for j
      using offsets_in_row(1) [OF ok A] that k by simp
  qed (use k s bs A slot_off_less [of _ ?s spark cs A] slot_below_body [OF s, of spark A vals]
      in \<open>auto simp: slot_off_def fix_off_def\<close>)
  with st show ?thesis by blast
qed

lemma body_store:
  assumes mem: "enc_mem spark cs vals T (Suc k) k m" and ok: "enc_ok spark cs vals T"
    and k: "k < length cs" "is_str (cs ! k)" and A: "A = unat (GetAddrLength T)"
    and bs: "bs = strs cs vals ! str_cnt cs k"
  shows "\<exists>m'. store_bytes m (body_off spark cs vals A (str_cnt cs k)) bs = Some m'
    \<and> enc_mem spark cs vals T (Suc k) k m'"
proof -
  let ?s = "str_cnt cs k"
  have s: "?s < str_cnt cs (length cs)" using k by (rule str_cnt_lt)
  have "body_off spark cs vals A (Suc ?s) \<le> length m"
    using offsets_in_row(3) [OF ok A, of "Suc ?s"] s mem by (simp add: enc_mem_def)
  then obtain m' where st: "store_bytes m (body_off spark cs vals A ?s) bs = Some m'"
    using s enc_ok_facts(5) [OF ok] store_bytes_in_range [of "body_off spark cs vals A ?s" bs m] bs
    by (auto simp: body_off_Suc)
  have "enc_mem spark cs vals T (Suc k) k m'"
  proof (rule enc_mem_store [OF mem st ok])
    show "fix_off spark cs (Suc j) \<le> body_off spark cs vals A ?s" if "j < k" for j
      using fix_off_mono [of "Suc j" "length cs" spark cs] that k by (simp add: body_off_def)
  qed (use k s A body_off_mono [of "Suc _" ?s spark cs vals A] slot_below_body [of _ cs spark A vals ?s]
      in \<open>auto simp: body_off_def fix_off_def\<close>)
  with st show ?thesis by blast
qed

text \<open>The arithmetic of the address slot does not wrap.\<close>

lemma slot_address:
  assumes "enc_ok spark cs vals T" and "s < str_cnt cs (length cs)"
  shows "unat (of_nat (fix_off spark cs (length cs)) :: u32) + unat (ucast (GetAddrLength T) * of_nat s :: u32)
    = slot_off spark cs (unat (GetAddrLength T)) s"
proof -
  let ?A = "unat (GetAddrLength T)"
  have "slot_off spark cs ?A s + ?A < 2 ^ 32"
    using offsets_in_row(2) [OF assms(1) refl assms(2)] unat_less_u32 [of T] by simp
  then have b: "fix_off spark cs (length cs) < 2 ^ 32" "?A * s < 2 ^ 32" by (simp_all add: slot_off_def)
  have "(ucast (GetAddrLength T) * of_nat s :: u32) = of_nat (?A * s)" by simp
  then show ?thesis by (simp only: unat_u32 [OF b(1)] unat_u32 [OF b(2)] slot_off_def)
qed

lemma body_address:
  assumes "enc_ok spark cs vals T" and "s \<le> str_cnt cs (length cs)"
  shows "unat (of_nat (body_off spark cs vals (unat (GetAddrLength T)) s) :: u32)
    = body_off spark cs vals (unat (GetAddrLength T)) s"
  using offsets_in_row(3) [OF assms(1) refl assms(2)] unat_less_u32 [of T] by (intro unat_u32) simp

lemma AppendNULL_inv:
  assumes ok: "enc_ok spark cs vals T" and mem: "enc_mem spark cs vals T k k m" and k: "k < length cs"
    and x: "vals ! k = None"
  shows "\<exists>m'. AppendNULL (enc_state spark cs vals T k m) = Some (True, enc_state spark cs vals T (Suc k) m')
    \<and> enc_mem spark cs vals T (Suc k) (Suc k) m'"
proof -
  let ?A = "unat (GetAddrLength T)" and ?s = "str_cnt cs k" and ?b = "enc_state spark cs vals T k m"
  have n: "length cs < 2 ^ 31" using ok by (auto simp: enc_ok_def)
  have u: "unat (of_nat k :: u32) = k" using k n by (intro unat_u32) simp
  have len: "6 + k div 8 < length m"
    using bitmap_covers [OF n k, of spark] offsets_in_row(4) [OF ok refl, of 0] mem
    by (simp add: enc_mem_def fix_off_def)
  then obtain m1 where st: "store_bytes m (6 + k div 8) [m ! (6 + k div 8) OR push_bit (k mod 8) 1] = Some m1"
    using store_bytes_in_range [of "6 + k div 8" "[m ! (6 + k div 8) OR push_bit (k mod 8) 1]" m] by auto
  have m1: "enc_mem spark cs vals T (Suc k) k m1" by (rule enc_mem_null_bit [OF mem ok k x st])
  have a: "unat (drop_bit 3 (of_nat k :: u32)) = k div 8" "unat ((of_nat k :: u32) AND 7) = k mod 8"
    using u by (simp_all add: unat_drop_bit_u32 unat_and_7)
  have null: "AppendNULL ?b = do {
      m2 \<leftarrow> (if is_str (cs ! k)
             then store_bytes m1 (slot_off spark cs ?A ?s)
                    (addr_bytes (ucast (GetAddrLength T)) (of_nat (body_off spark cs vals ?A ?s)))
             else Some m1);
      Some (True, ?b\<lparr>rb_buf := Some m2, rb_cnt := of_nat k + 1\<rparr>)}"
    using k len st slot_address [OF ok, of ?s]
    by (simp add: AppendNULL_def a u load_word_byte store_word_byte FillNullStringOffset_def offset_at str_cnt_lt)
  show ?thesis
  proof (cases "is_str (cs ! k)")
    case False
    then have "enc_mem spark cs vals T (Suc k) (Suc k) m1"
      using k x by (intro enc_mem_Suc_fixed [OF m1]) auto
    with False show ?thesis using null k by (auto simp: enc_state_step str_cnt_Suc)
  next
    case True
    obtain m2 where m2: "store_bytes m1 (slot_off spark cs ?A ?s)
        (addr_bytes (ucast (GetAddrLength T)) (of_nat (body_off spark cs vals ?A ?s))) = Some m2"
      "enc_mem spark cs vals T (Suc k) k m2"
      using slot_store [OF m1 ok k True refl addr_bytes_length] by blast
    have e: "strs cs vals ! ?s = []"
      using nth_strs [OF enc_ok_facts(4) [OF ok] k True] x by (simp add: str_of_def)
    have "body_off spark cs vals ?A ?s \<le> length m2"
      using offsets_in_row(3) [OF ok refl, of ?s] str_cnt_lt [OF k True] m2(2) by (simp add: enc_mem_def)
    then have "enc_mem spark cs vals T (Suc k) (Suc k) m2"
      using e load_store_same [OF m2(1)]
      by (intro enc_mem_Suc_str [OF m2(2) k True refl refl]) (simp_all add: addr_bytes_length)
    moreover have "?b\<lparr>rb_buf := Some m2, rb_cnt := of_nat k + 1\<rparr> = enc_state spark cs vals T (Suc k) m2"
      using k True e str_cnt_lt [OF k True] enc_ok_facts(5) [OF ok]
      by (simp add: enc_state_def body_off_Suc str_cnt_Suc add.commute)
    ultimately show ?thesis using null m2(1) True by auto
  qed
qed

lemma AppendString_inv:
  assumes ok: "enc_ok spark cs vals T" and mem: "enc_mem spark cs vals T k k m" and k: "k < length cs"
    and x: "vals ! k = Some (VString v)" and str: "is_str (cs ! k)"
  shows "\<exists>m'. rb_AppendString spark (Some v) (of_nat (length v)) (enc_state spark cs vals T k m) =
      Some (True, enc_state spark cs vals T (Suc k) m') \<and> enc_mem spark cs vals T (Suc k) (Suc k) m'"
proof -
  let ?A = "unat (GetAddrLength T)" and ?s = "str_cnt cs k"
  let ?o = "body_off spark cs vals ?A ?s"
  have s: "?s < str_cnt cs (length cs)" using k str by (rule str_cnt_lt)
  have v: "strs cs vals ! ?s = v"
    using nth_strs [OF enc_ok_facts(4) [OF ok] k str] x by (simp add: str_of_def)
  have next_off: "body_off spark cs vals ?A (Suc ?s) = ?o + length v"
    using s v enc_ok_facts(5) [OF ok] by (simp add: body_off_Suc)
  have end_off: "?o + length v \<le> unat T"
    using offsets_in_row(3) [OF ok refl, of "Suc ?s"] s next_off by simp
  then have u: "unat (of_nat (length v) :: u32) = length v" "unat (of_nat ?o + of_nat (length v) :: u32) = ?o + length v"
    using unat_less_u32 [of T] unat_u32 [of "?o + length v"] by (auto intro!: unat_u32)
  obtain m1 where m1: "store_bytes m (slot_off spark cs ?A ?s)
      (addr_bytes (ucast (GetAddrLength T)) (of_nat ?o)) = Some m1" "enc_mem spark cs vals T (Suc k) k m1"
    using slot_store [OF enc_mem_not_null [OF mem x] ok k str refl addr_bytes_length] by blast
  obtain m2 where m2: "store_bytes m1 ?o v = Some m2" "enc_mem spark cs vals T (Suc k) k m2"
    using body_store [OF m1(2) ok k str refl v [symmetric]] by blast
  have m2': "(if (of_nat (length v) :: u32) \<noteq> 0 then store_bytes m1 ?o v else Some m1) = Some m2"
    using m2(1) u(1) by (auto simp: store_bytes_def split: if_splits)
  have "load_bytes m2 (slot_off spark cs ?A ?s) ?A =
      Some (addr_bytes (ucast (GetAddrLength T)) (of_nat ?o))"
    using load_store_same [OF m1(1)] load_store_other [OF m2(1)] slot_below_body [OF s, of spark ?A vals ?s]
    by (simp add: addr_bytes_length)
  then have "enc_mem spark cs vals T (Suc k) (Suc k) m2"
    using load_store_same [OF m2(1) refl] v by (intro enc_mem_Suc_str [OF m2(2) k str refl refl]) simp_all
  moreover have "rb_AppendString spark (Some v) (of_nat (length v)) (enc_state spark cs vals T k m) =
      Some (True, enc_state spark cs vals T (Suc k) m2)"
    using rb_Check_inv [OF ok k, of "enc_state spark cs vals T k m"] str k end_off m1(1) m2' u next_off
      slot_address [OF ok s] body_address [OF ok less_imp_le [OF s]]
    by (auto simp: rb_AppendString_def offset_at word_less_nat_alt load_bytes_def enc_state_step(2) str_cnt_Suc
        split: if_splits)
  ultimately show ?thesis by blast
qed

lemma rb_append_inv:
  assumes ok: "enc_ok spark cs vals T" and mem: "enc_mem spark cs vals T k k m" and k: "k < length cs"
  shows "\<exists>m'. rb_append spark (vals ! k) (enc_state spark cs vals T k m) =
      Some (True, enc_state spark cs vals T (Suc k) m') \<and> enc_mem spark cs vals T (Suc k) (Suc k) m'"
proof (cases "vals ! k")
  case None
  then show ?thesis using AppendNULL_inv [OF assms] by simp
next
  case (Some x)
  note c = row_ok_nth [OF enc_ok_facts(3) [OF ok] k Some]
  show ?thesis
  proof (cases "is_str (cs ! k)")
    case True
    then show ?thesis using Some c AppendString_inv [OF assms] by (auto dest!: cell_ok_str)
  next
    case False
    then show ?thesis using Some rb_append_fixed [OF c] append_prim_inv [OF assms Some refl] by auto
  qed
qed

lemma append_all_inv:
  assumes ok: "enc_ok spark cs vals T" and mem: "enc_mem spark cs vals T k k m" and k: "k \<le> length cs"
  shows "\<exists>m'. append_all spark (drop k vals) (enc_state spark cs vals T k m) =
      Some (True, enc_state spark cs vals T (length cs) m') \<and> enc_mem spark cs vals T (length cs) (length cs) m'"
  using k mem
proof (induction "length cs - k" arbitrary: k m)
  case 0
  then show ?case using enc_ok_facts(4) [OF ok] by (intro exI [of _ m]) simp
next
  case (Suc d)
  then have k: "k < length cs" by simp
  obtain m1 where m1: "rb_append spark (vals ! k) (enc_state spark cs vals T k m) =
      Some (True, enc_state spark cs vals T (Suc k) m1)" "enc_mem spark cs vals T (Suc k) (Suc k) m1"
    using rb_append_inv [OF ok Suc.prems(2) k] by blast
  have "drop k vals = vals ! k # drop (Suc k) vals"
    using k enc_ok_facts(4) [OF ok] by (simp add: Cons_nth_drop_Suc)
  then show ?case using m1 Suc.hyps(1) [of "Suc k" m1] Suc.hyps(2) k by simp
qed

lemma SetBuffer_inv:
  assumes ok: "enc_ok spark cs vals T" and len: "length m0 = unat T"
  shows "\<exists>m. SetBuffer spark (RowBuilder_new spark cs) (Some m0) T = Some (True, enc_state spark cs vals T 0 m)
    \<and> enc_mem spark cs vals T 0 0 m"
proof -
  let ?B = "bitmap_bytes spark cs" and ?C = "str_cnt cs (length cs)" and ?F = "fix_off spark cs (length cs)"
  let ?A = "unat (GetAddrLength T)"
  have size: "?F + ?A * ?C \<le> unat T" "6 + ?B \<le> ?F"
    using offsets_in_row(3) [OF ok refl, of 0] by (auto simp: body_off_def fix_off_def)
  have A: "1 \<le> ?A" using unat_GetAddrLength [of T] by auto
  then have C: "?C \<le> ?A * ?C" by simp
  have "?F + ?C < 2 ^ 32" using size C unat_less_u32 [of T] by linarith
  then have u: "unat (of_nat ?F + of_nat ?C :: u32) = ?F + ?C" using unat_u32 [of "?F + ?C"] by simp
  have T: "\<not> T < of_nat ?F + of_nat ?C" "T \<noteq> 0"
  proof -
    have "\<not> unat T < ?F + ?C" "unat T \<noteq> 0" using size C by linarith+
    then show "\<not> T < of_nat ?F + of_nat ?C" "T \<noteq> 0" by (auto simp: word_less_nat_alt u)
  qed
  obtain m1 where m1: "store_bytes m0 0 [1] = Some m1"
    using store_bytes_in_range [of 0 "[1]" m0] size len by auto
  obtain m2 where m2: "store_bytes m1 1 [1] = Some m2"
    using store_bytes_in_range [of 1 "[1]" m1] size len store_bytes_length [OF m1] by auto
  obtain m3 where m3: "store_bytes m2 2 (le_bytes 4 T) = Some m3"
    using store_bytes_in_range [of 2 "le_bytes 4 T" m2] size len store_bytes_length [OF m1]
      store_bytes_length [OF m2] by auto
  obtain m4 where m4: "store_bytes m3 6 (replicate ?B 0) = Some m4"
    using store_bytes_in_range [of 6 "replicate ?B 0" m3] size len store_bytes_length [OF m1]
      store_bytes_length [OF m2] store_bytes_length [OF m3] by auto
  have "load_bytes m4 2 4 = Some (le_bytes 4 T)"
    using load_store_other [OF m4, of 2 4] load_store_same [OF m3, of 4] by simp
  moreover have "m4 ! (6 + j div 8) = 0" if "j < length cs" for j
    using m4 bitmap_covers [OF enc_ok_facts(2) [OF ok] that, of spark]
    by (auto simp: store_bytes_def nth_append split: if_splits)
  ultimately have "enc_mem spark cs vals T 0 0 m4"
    using len store_bytes_length [OF m1] store_bytes_length [OF m2] store_bytes_length [OF m3]
      store_bytes_length [OF m4] by (simp add: enc_mem_def)
  moreover have "SetBuffer spark (RowBuilder_new spark cs) (Some m0) T =
      Some (True, enc_state spark cs vals T 0 m4)"
    using T m1 m2 m3 m4 enc_ok_facts(1) [OF ok]
    by (simp add: SetBuffer_def RowBuilder_new_supported store_word_byte store_word_def
        bitmap_bytes_def enc_state_def body_off_def)
  ultimately show ?thesis by blast
qed

subsection \<open>Reading the row back\<close>

lemma three_byte_address:
  assumes "unat (off :: u32) < 2 ^ 24"
  shows "push_bit 8 (push_bit 8 (ucast (ucast (drop_bit 16 off) :: u8)) + ucast (ucast (drop_bit 8 (off AND 0xFF00)) :: u8))
     + ucast (ucast (off AND 0xFF) :: u8) = off" (is "push_bit 8 (push_bit 8 ?a + ?b) + ?c = off")
proof -
  have lt: "unat (ucast (w :: u8) :: u32) < 2 ^ 8" for w
    using unsigned_less [of w, where ?'a = nat] by (simp add: unsigned_ucast_eq take_bit_nat_eq_self)
  have off: "take_bit 24 off = off" using assms by (rule take_bit_small)
  have m: "(0xFF00 :: u32) = push_bit 8 (mask 8)" "(0xFF :: u32) = mask 8"
    by (simp_all add: mask_eq_exp_minus_1 push_bit_eq_mult)
  have "push_bit 8 (push_bit 8 ?a OR ?b) OR ?c = take_bit 24 off"
    unfolding m
  proof (rule bit_eqI)
    fix n
    show "bit (push_bit 8 (push_bit 8 (ucast (ucast (drop_bit 16 off) :: u8) :: u32) OR
          ucast (ucast (drop_bit 8 (off AND push_bit 8 (mask 8))) :: u8)) OR
          ucast (ucast (off AND mask 8) :: u8)) n = bit (take_bit 24 off) n"
      by (cases "16 \<le> n") (auto simp: bit_simps)
  qed
  then show ?thesis using or_push_bit [OF lt] off by simp
qed

lemma load_bytes_nth:
  assumes "load_bytes m a n = Some bs" and "i < n"
  shows "a + i < length m" and "m ! (a + i) = bs ! i"
  using assms by (auto simp: load_bytes_def split: if_splits)

lemma ucast_narrow:
  assumes "unat (w :: u32) < 2 ^ LENGTH('a::len)"
  shows "ucast (ucast w :: 'a word) = w"
proof -
  have "ucast (ucast w :: 'a word) = take_bit LENGTH('a) w"
    by (rule bit_eqI) (auto simp: bit_simps)
  then show ?thesis by (simp only: take_bit_small [OF assms])
qed

lemma addr_length_cases:
  "GetAddrLength T = 1 \<and> unat T < 2 ^ 8 \<or> GetAddrLength T = 2 \<and> unat T < 2 ^ 16
   \<or> GetAddrLength T = 3 \<and> unat T < 2 ^ 24 \<or> GetAddrLength T = 4"
  by (simp add: GetAddrLength_def word_le_nat_alt)

lemma load_str_offset_addr:
  assumes ld: "load_bytes m (unat start + unat (ucast (GetAddrLength T) * s :: u32)) (unat (GetAddrLength T)) =
      Some (addr_bytes (ucast (GetAddrLength T)) off)" and "off \<le> T"
  shows "load_str_offset m start (ucast (GetAddrLength T)) s = Some off"
proof -
  have le: "unat off \<le> unat T" using assms(2) by (simp add: word_le_nat_alt)
  consider "GetAddrLength T = 1" "unat T < 2 ^ 8" | "GetAddrLength T = 2" "unat T < 2 ^ 16"
    | "GetAddrLength T = 3" "unat T < 2 ^ 24" | "GetAddrLength T = 4"
    using addr_length_cases [of T] by blast
  then show ?thesis
  proof cases
    case 1
    then have "ucast (ucast off :: u8) = off"
      using le by (intro ucast_narrow) simp
    with 1 ld show ?thesis
      by (simp add: load_str_offset_def addr_bytes_def load_word_bytes mult.commute)
  next
    case 2
    then have "ucast (ucast off :: u16) = off"
      using le by (intro ucast_narrow) simp
    with 2 ld show ?thesis
      by (simp add: load_str_offset_def addr_bytes_def load_word_bytes mult.commute)
  next
    case 3
    let ?a = "unat start + unat (3 * s)"
    have l: "load_bytes m ?a 3 = Some [ucast (drop_bit 16 off), ucast (drop_bit 8 (off AND 0xFF00)), ucast (off AND 0xFF)]"
      using ld 3 by (simp add: addr_bytes_def)
    have "load_str_offset m start 3 s = Some (push_bit 8 (push_bit 8 (ucast (ucast (drop_bit 16 off) :: u8))
         + ucast (ucast (drop_bit 8 (off AND 0xFF00)) :: u8)) + ucast (ucast (off AND 0xFF) :: u8))"
      using load_bytes_nth [OF l, of 0] load_bytes_nth [OF l, of 1] load_bytes_nth [OF l, of 2]
      by (simp add: load_str_offset_def load_word_byte mult.commute Let_def)
    then show ?thesis using three_byte_address [of off] le 3 by simp
  next
    case 4
    with ld show ?thesis
      by (simp add: load_str_offset_def addr_bytes_def load_word_bytes mult.commute)
  qed
qed

definition enc_view :: "bool \<Rightarrow> Schema \<Rightarrow> u32 \<Rightarrow> buffer \<Rightarrow> RowView" where
  "enc_view spark cs T m =
     \<lparr>rv_str_addr_length = GetAddrLength T, rv_is_valid = True,
      rv_string_field_cnt = of_nat (str_cnt cs (length cs)),
      rv_str_field_start_offset = of_nat (fix_off spark cs (length cs)), rv_size = T, rv_row = Some m,
      rv_schema = cs, rv_offset_vec = map of_nat (col_offsets spark 0 (fix_off spark cs 0) cs)\<rparr>"

lemma RowView_new_enc:
  assumes ok: "enc_ok spark cs vals T" and mem: "enc_mem spark cs vals T k k m"
  shows "RowView_new spark cs (Some m) T = Some (enc_view spark cs T m)" and "\<not> T \<le> 6"
    and "load_word m 2 4 = Some T"
proof -
  have "cs \<noteq> []" using ok by (simp add: enc_ok_def)
  then have "0 < bitmap_bytes spark cs" using bitmap_covers [OF enc_ok_facts(2) [OF ok], of 0 spark] by simp
  then show gt: "\<not> T \<le> 6"
    using offsets_in_row(4) [OF ok refl, of 0] by (simp add: fix_off_def word_le_nat_alt)
  show ld: "load_word m 2 4 = Some T"
    using mem by (intro load_word_bytes) (simp_all add: enc_mem_def)
  show "RowView_new spark cs (Some m) T = Some (enc_view spark cs T m)"
    using \<open>cs \<noteq> []\<close> gt ld enc_ok_facts(1) [OF ok]
    by (simp add: RowView_new_def rv_Init_supported RowView_default_def rv_Reset_def enc_view_def)
qed

lemma of_nat_index:
  assumes "enc_ok spark cs vals T" "j < length cs"
  shows "unat (of_nat j :: u32) = j" and "sint (of_nat j :: u32) = int j"
proof -
  have j: "j < 2 ^ 31" using assms(2) enc_ok_facts(2) [OF assms(1)] by simp
  then show u: "unat (of_nat j :: u32) = j" by (intro unat_u32) simp
  show "sint (of_nat j :: u32) = int j" using sint_small [of "of_nat j :: u32"] u j by simp
qed

lemma u8_test_bit: "(w :: u8) AND 2 ^ i \<noteq> 0 \<longleftrightarrow> bit w i"
proof (cases "bit w i")
  case True
  then have "bit (w AND 2 ^ i) i" using bit_imp_le_length [OF True] by (simp add: bit_simps)
  then show ?thesis using True by auto
next
  case False
  then have "w AND 2 ^ i = 0" by (intro bit_eqI) (auto simp: bit_simps)
  then show ?thesis using False by simp
qed

lemma enc_checks:
  assumes ok: "enc_ok spark cs vals T" and mem: "enc_mem spark cs vals T (length cs) (length cs) m"
    and j: "j < length cs"
  shows "rv_CheckValid (enc_view spark cs T m) (of_nat j) t = Some (col_type (cs ! j) = t)"
    and "RowView_IsNULL (Some m) (of_nat j) = Some (vals ! j = None)"
proof -
  note u = of_nat_index [OF ok j]
  show "rv_CheckValid (enc_view spark cs T m) (of_nat j) t = Some (col_type (cs ! j) = t)"
    using u j by (simp add: rv_CheckValid_def enc_view_def vec_at_Some)
  have "6 + j div 8 < length m"
    using bitmap_covers [OF enc_ok_facts(2) [OF ok] j, of spark] offsets_in_row(4) [OF ok refl, of 0] mem
    by (simp add: enc_mem_def fix_off_def)
  then show "RowView_IsNULL (Some m) (of_nat j) = Some (vals ! j = None)"
    using u j mem
    by (simp add: RowView_IsNULL_def unat_drop_bit_u32 unat_and_7 load_word_byte u8_test_bit enc_mem_def)
qed

lemma enc_unsafe:
  assumes ok: "enc_ok spark cs vals T" and mem: "enc_mem spark cs vals T (length cs) (length cs) m"
    and j: "j < length cs" "vals ! j = Some x" "\<not> is_str (cs ! j)"
  shows "rv_unsafe (enc_view spark cs T m) rd (of_nat j) = rd m (of_nat (fix_off spark cs j))"
    and "load_bytes m (unat (of_nat (fix_off spark cs j) :: u32)) (length (cell_bytes x)) = Some (cell_bytes x)"
proof -
  show "rv_unsafe (enc_view spark cs T m) rd (of_nat j) = rd m (of_nat (fix_off spark cs j))"
    using of_nat_index(1) [OF ok j(1)] j by (simp add: rv_unsafe_def enc_view_def offset_at)
  have "unat (of_nat (fix_off spark cs j) :: u32) = fix_off spark cs j"
    using offsets_in_row(4) [OF ok refl, of j] j(1) unat_less_u32 [of T] by (intro unat_u32) simp
  then show "load_bytes m (unat (of_nat (fix_off spark cs j) :: u32)) (length (cell_bytes x)) = Some (cell_bytes x)"
    using mem j by (simp add: enc_mem_def)
qed

lemma rv_read_null:
  assumes "enc_ok spark cs vals T" and "enc_mem spark cs vals T (length cs) (length cs) m"
    and "j < length cs" "vals ! j = None" "is_str (cs ! j) \<or> DEFAULT_TYPE_SIZE_MAP (col_type (cs ! j)) \<noteq> None"
  shows "rv_read s (enc_view spark cs T m) (col_type (cs ! j)) (of_nat j) = Some (1, None)"
proof -
  have r: "rv_row (enc_view spark cs T m) = Some m" by (simp add: enc_view_def)
  note n = enc_checks [OF assms(1-3)] RowView_new_enc [OF assms(1,2)]
  show ?thesis
    using assms(4,5) n r
    by (cases "col_type (cs ! j)")
       (simp_all add: rv_read_def as_cell_def rv_GetBool_def rv_GetInt16_def rv_GetInt32_def rv_GetInt64_def
         rv_GetTimestamp_def rv_GetFloat_def rv_GetDouble_def rv_get_def rv_GetDate_def rv_GetString_def
         RowView_GetSize_def)
qed

lemma rv_read_fixed:
  assumes ok: "enc_ok spark cs vals T" and mem: "enc_mem spark cs vals T (length cs) (length cs) m"
    and j: "j < length cs" "vals ! j = Some x" and str: "\<not> is_str (cs ! j)"
  shows "rv_read s (enc_view spark cs T m) (col_type (cs ! j)) (of_nat j) = Some (0, Some x)"
proof -
  have r: "rv_row (enc_view spark cs T m) = Some m" by (simp add: enc_view_def)
  have c: "cell_ok (col_type (cs ! j)) x" by (rule row_ok_nth [OF enc_ok_facts(3) [OF ok] j])
  note n = enc_checks [OF ok mem j(1)] and l = enc_unsafe(2) [OF ok mem j str]
  show ?thesis
    using c str j(2) l n r
    by (cases x)
       (simp_all add: rv_read_def as_cell_def rv_GetBool_def rv_GetInt16_def rv_GetInt32_def rv_GetInt64_def
         rv_GetTimestamp_def rv_GetFloat_def rv_GetDouble_def rv_get_def rv_GetDate_def
         GetBoolUnsafe_def GetInt16Unsafe_def GetInt32Unsafe_def GetInt64Unsafe_def GetTimestampUnsafe_def
         GetFloatUnsafe_def GetDoubleUnsafe_def GetDateUnsafe_def GetBoolFieldUnsafe_def GetInt16FieldUnsafe_def
         GetInt32FieldUnsafe_def GetInt64FieldUnsafe_def GetFloatFieldUnsafe_def GetDoubleFieldUnsafe_def
         enc_unsafe(1) [OF ok mem j str] load_word_def le_word_le_bytes Date_Decode_date_data)
qed

text \<open>Strings: the next address, or the row's size after the last string, is the end of the string.\<close>

lemma GetStrField_enc:
  assumes ok: "enc_ok False cs vals T" and mem: "enc_mem False cs vals T (length cs) (length cs) m"
    and s: "s < str_cnt cs (length cs)"
  shows "GetStrFieldUnsafe False (Some m) idx (of_nat s)
      (next_str_field (of_nat s) (of_nat (str_cnt cs (length cs))))
      (of_nat (fix_off False cs (length cs))) (ucast (GetAddrLength T)) =
    Some (0, Some (body_off False cs vals (unat (GetAddrLength T)) s, of_nat (length (strs cs vals ! s))))"
proof -
  let ?C = "str_cnt cs (length cs)"
  define B where "B = body_off False cs vals (unat (GetAddrLength T))"
  let ?A = "ucast (GetAddrLength T) :: u32" and ?F = "of_nat (fix_off False cs (length cs)) :: u32"
  have le: "B i \<le> unat T" "unat (of_nat (B i) :: u32) = B i" if "i \<le> ?C" for i
    using offsets_in_row(3) [OF ok refl that] body_address [OF ok that] by (simp_all add: B_def)
  have ld: "load_str_offset m ?F ?A (of_nat i) = Some (of_nat (B i))" if "i < ?C" for i
    using mem that le [of i] slot_address [OF ok that]
    by (intro load_str_offset_addr) (simp_all add: enc_mem_def B_def word_le_nat_alt)
  have C: "?C < 2 ^ 32" using str_cnt_le [of cs "length cs"] enc_ok_facts(2) [OF ok] by simp
  have A: "?A \<in> {1, 2, 3, 4}" by (simp add: GetAddrLength_def)
  have B: "B (Suc s) = B s + length (strs cs vals ! s)"
    using s enc_ok_facts(5) [OF ok] by (simp add: B_def body_off_Suc)
  have nonneg: "\<not> (of_nat (B (Suc s)) :: u32) < of_nat (B s)"
    using le [of s] le [of "Suc s"] s B by (simp add: word_less_nat_alt)
  have diff: "(of_nat (B (Suc s)) :: u32) - of_nat (B s) = of_nat (length (strs cs vals ! s))"
    using B by simp
  show ?thesis
  proof (cases "Suc s = ?C")
    case True
    have "of_nat (B (Suc s)) = T"
      using enc_ok_facts(6) [OF ok] le(2) [of "Suc s"] True by (simp add: B_def word_unat_eq_iff)
    then show ?thesis
      using A ld [OF s] s C True nonneg diff le(2) [of s] RowView_new_enc(3) [OF ok mem]
      by (simp add: GetStrFieldUnsafe_def next_str_field_of_nat B_def [symmetric])
  next
    case False
    then have "Suc s < ?C" using s by simp
    moreover have "(of_nat (Suc s) :: u32) \<noteq> 0"
      using unat_u32 [of "Suc s"] C \<open>Suc s < ?C\<close> by (metis nat.distinct(1) order_less_trans unat_0)
    ultimately show ?thesis
      using A ld [OF s] ld [of "Suc s"] s C False nonneg diff le(2) [of s]
      by (simp add: GetStrFieldUnsafe_def next_str_field_of_nat B_def [symmetric])
  qed
qed

lemma rv_read_str:
  assumes ok: "enc_ok False cs vals T" and mem: "enc_mem False cs vals T (length cs) (length cs) m"
    and j: "j < length cs" "vals ! j = Some x" and str: "is_str (cs ! j)"
  shows "rv_read False (enc_view False cs T m) (col_type (cs ! j)) (of_nat j) = Some (0, Some x)"
proof -
  obtain v where x: "x = VString v"
    using row_ok_nth [OF enc_ok_facts(3) [OF ok] j] str by (auto dest!: cell_ok_str)
  let ?s = "str_cnt cs j"
  have s: "?s < str_cnt cs (length cs)" using j(1) str by (rule str_cnt_lt)
  have v: "strs cs vals ! ?s = v"
    using nth_strs [OF enc_ok_facts(4) [OF ok] j(1) str] j(2) x by (simp add: str_of_def)
  have len: "load_bytes m (body_off False cs vals (unat (GetAddrLength T)) ?s) (length v) = Some v"
    using mem s v by (auto simp: enc_mem_def)
  have "length v \<le> unat T" using load_bytes_length [OF len] mem len
    by (auto simp: enc_mem_def load_bytes_def split: if_splits)
  then have "unat (of_nat (length v) :: u32) = length v"
    using unat_less_u32 [of T] by (intro unat_u32) simp
  then show ?thesis
    using GetStrField_enc [OF ok mem s, of "of_nat j"] enc_checks [OF ok mem j(1)] j str x v len
      RowView_new_enc(2,3) [OF ok mem] of_nat_index(1) [OF ok j(1)]
    by (simp add: rv_read_def rv_GetString_def RowView_GetSize_def enc_view_def offset_at)
qed

subsection \<open>Encoding and decoding rows\<close>

lemma encode_row_inv:
  assumes "enc_ok spark cs vals T" and "length m0 = unat T"
  shows "\<exists>m. encode_row spark cs vals m0 = Some (True, enc_state spark cs vals T (length cs) m)
    \<and> enc_mem spark cs vals T (length cs) (length cs) m"
proof -
  obtain m1 where m1: "SetBuffer spark (RowBuilder_new spark cs) (Some m0) T = Some (True, enc_state spark cs vals T 0 m1)"
    "enc_mem spark cs vals T 0 0 m1"
    using SetBuffer_inv [OF assms] by blast
  have T: "T = CalTotalLength (RowBuilder_new spark cs) (of_nat (str_total cs vals))"
    using assms(1) by (simp add: enc_ok_def)
  show ?thesis
    using append_all_inv [OF assms(1) m1(2)] m1(1) unfolding encode_row_def Let_def T [symmetric] by simp
qed

text \<open>C2. Encoding never leaves the buffer and never refuses a column: for every schema of supported
  columns and every row of matching values (NULLs included) whose size fits 32 bits, appending the
  columns one by one into a buffer of exactly \<open>CalTotalLength\<close> bytes succeeds, fills every column,
  leaves the string cursor at the end of the buffer, and keeps the buffer's size.\<close>

theorem encode_row_safe:
  assumes "supported cs" and "cs \<noteq> []" and "length cs < 2 ^ 31" and "row_ok cs vals"
    and "fix_off spark cs (length cs) + str_total cs vals + 4 * str_cnt cs (length cs) < 2 ^ 32"
    and "length m0 = unat (CalTotalLength (RowBuilder_new spark cs) (of_nat (str_total cs vals)))"
  shows "\<exists>b m. encode_row spark cs vals m0 = Some (True, b) \<and> rb_buf b = Some m \<and> length m = length m0
    \<and> unat (rb_cnt b) = length cs \<and> rb_str_offset b = rb_size b \<and> unat (rb_size b) = length m0"
proof -
  let ?T = "CalTotalLength (RowBuilder_new spark cs) (of_nat (str_total cs vals))"
  have ok: "enc_ok spark cs vals ?T" using assms by (simp add: enc_ok_def)
  obtain m where m: "encode_row spark cs vals m0 = Some (True, enc_state spark cs vals ?T (length cs) m)"
    "enc_mem spark cs vals ?T (length cs) (length cs) m"
    using encode_row_inv [OF ok assms(6)] by blast
  have "of_nat (body_off spark cs vals (unat (GetAddrLength ?T)) (str_cnt cs (length cs))) = ?T"
    using enc_ok_facts(6) [OF ok] by (metis of_nat_unat ucast_id)
  then show ?thesis
    using m assms(3,6) by (simp add: enc_mem_def unat_u32)
qed

text \<open>C1. Round trip: reading the encoded row with \<open>RowView\<close> gives back the column, code 1 for a NULL and code 0 with the
  appended value for any other. In the default row format this holds of every column, strings included. In the
  UnsafeRow format it holds of every column that is not a string and of NULL strings; a string that is not NULL is not
  covered, since \<open>RowView\<close> looks for it there in another place than \<open>RowBuilder\<close> puts it.\<close>

theorem encode_decode_row:
  assumes "supported cs" and "cs \<noteq> []" and "length cs < 2 ^ 31" and "row_ok cs vals"
    and "fix_off spark cs (length cs) + str_total cs vals + 4 * str_cnt cs (length cs) < 2 ^ 32"
    and "T = CalTotalLength (RowBuilder_new spark cs) (of_nat (str_total cs vals))" and "length m0 = unat T"
    and "encode_row spark cs vals m0 = Some (ok, b)" and "j < length cs"
    and "spark \<Longrightarrow> \<not> is_str (cs ! j) \<or> vals ! j = None"
  shows "ok \<and> (\<exists>v. RowView_new spark cs (rb_buf b) T = Some v \<and>
    rv_read spark v (col_type (cs ! j)) (of_nat j) =
      (case vals ! j of None \<Rightarrow> Some (1, None) | Some x \<Rightarrow> Some (0, Some x)))"
proof -
  have e: "enc_ok spark cs vals T" using assms by (simp add: enc_ok_def)
  obtain m where m: "b = enc_state spark cs vals T (length cs) m" "ok"
    "enc_mem spark cs vals T (length cs) (length cs) m"
    using encode_row_inv [OF e assms(7)] assms(8) by auto
  have sup: "is_str (cs ! j) \<or> DEFAULT_TYPE_SIZE_MAP (col_type (cs ! j)) \<noteq> None"
    using assms(1,9) by (simp add: supported_def list_all_length)
  have "rv_read spark (enc_view spark cs T m) (col_type (cs ! j)) (of_nat j) =
      (case vals ! j of None \<Rightarrow> Some (1, None) | Some x \<Rightarrow> Some (0, Some x))"
  proof (cases "vals ! j")
    case None
    then show ?thesis using rv_read_null [OF e m(3) assms(9) None sup] by simp
  next
    case (Some x)
    show ?thesis
    proof (cases "is_str (cs ! j)")
      case True
      then have "\<not> spark" using assms(10) Some by auto
      then show ?thesis using rv_read_str [of cs vals T m j x] e m(3) assms(9) Some True by simp
    next
      case False
      then show ?thesis using rv_read_fixed [OF e m(3) assms(9) Some] Some by simp
    qed
  qed
  then show ?thesis using m RowView_new_enc(1) [OF e m(3)] by simp
qed

subsection \<open>A concrete row\<close>

definition sample_row :: "cell option list" where
  "sample_row = [Some (VInt32 7), Some (VString [97, 98, 99]), Some (VDate 2020 5 20), None,
     Some (VBool True)]"

lemma sample_facts:
  "supported sample_schema" "sample_schema \<noteq> []" "length sample_schema < 2 ^ 31"
  "row_ok sample_schema sample_row"
  "fix_off False sample_schema (length sample_schema) + str_total sample_schema sample_row
     + 4 * str_cnt sample_schema (length sample_schema) < 2 ^ 32"
  "CalTotalLength (RowBuilder_new False sample_schema) (of_nat (str_total sample_schema sample_row)) = 21"
  by (simp_all add: sample_schema_def sample_row_def supported_def row_ok_def date_ok_def fix_off_def
      bitmap_bytes_def BitMapSize_def fix_size_def type_size_def GetTypeSizeMap_def str_total_def strs_def
      str_of_def str_cnt_def CalTotalLength_def RowBuilder_new_def rb_column_def Let_def)

theorem encode_row_safe_witness:
  "\<exists>b m. encode_row False sample_schema sample_row (replicate 21 9) = Some (True, b) \<and> rb_buf b = Some m
    \<and> length m = length (replicate 21 (9 :: byte)) \<and> unat (rb_cnt b) = length sample_schema
    \<and> rb_str_offset b = rb_size b \<and> unat (rb_size b) = length (replicate 21 (9 :: byte))"
  by (rule encode_row_safe) (simp_all only: sample_facts, simp_all)

theorem encode_decode_row_witness:
  "\<exists>ok b. encode_row False sample_schema sample_row (replicate 21 9) = Some (ok, b) \<and> ok \<and>
     (\<exists>v. RowView_new False sample_schema (rb_buf b) 21 = Some v \<and>
       rv_read False v (col_type (sample_schema ! 1)) (of_nat 1) =
         (case sample_row ! 1 of None \<Rightarrow> Some (1, None) | Some x \<Rightarrow> Some (0, Some x)))"
proof -
  have "enc_ok False sample_schema sample_row 21" using sample_facts by (simp add: enc_ok_def)
  then obtain ok b where e: "encode_row False sample_schema sample_row (replicate 21 9) = Some (ok, b)"
    using encode_row_inv [of False sample_schema sample_row 21 "replicate 21 9"] by auto
  have "1 < length sample_schema" by (simp add: sample_schema_def)
  then show ?thesis
    using encode_decode_row [OF sample_facts(1-5) sample_facts(6) [symmetric] _ e, of 1] e by auto
qed

text \<open>In the UnsafeRow format a string is out of reach: \<open>RowBuilder\<close> writes one address byte and the bytes of the string,
  and \<open>RowView\<close> looks for a word with its size and its offset, here past the end of the row.\<close>

definition string_schema :: Schema where
  "string_schema = [\<lparr>col_name = ''s'', col_type = kVarchar\<rparr>]"

lemma unsafe_row_string_unreadable:
  "map_option (\<lambda>(ok, b). (ok, rb_buf b)) (encode_row True string_schema [Some (VString [97, 98])] (replicate 17 0)) =
     Some (True, Some [1, 1, 17, 0, 0, 0, 0, 0, 0, 0, 0, 0, 0, 0, 15, 97, 98])"
  "(do { v \<leftarrow> RowView_new True string_schema (Some [1, 1, 17, 0, 0, 0, 0, 0, 0, 0, 0, 0, 0, 0, 15, 97, 98]) 17;
         rv_read True v kVarchar 0 }) = None"
  by code_simp+

end
