(* ===== verification/Row_Selector.thy ===== *)
theory Row_Selector
  imports Row_Roundtrip Slice_Row
begin

text \<open>
  \<open>codec::RowSelector\<close> (\<open>fe_row_selector.cc\<close>): projects columns of the slices of a row into a new row.
  The selector keeps one \<open>RowView\<close> per slice and one \<open>RowBuilder\<close> for its target across calls, so both
  are part of its state. \<open>fill\<close> is the content of fresh memory of \<open>malloc\<close>.
\<close>

record RowSelector =
  rs_schemas :: "Schema list"
  rs_indices :: "(nat \<times> nat) list"
  rs_target_schema :: Schema
  rs_row_views :: "RowView list"
  rs_target_row_builder :: RowBuilder

definition CreateTargetSchema :: "Schema list \<Rightarrow> (nat \<times> nat) list \<Rightarrow> Schema" where
  "CreateTargetSchema schemas indices =
     concat (map (\<lambda>(schema_idx, col_idx).
       if schema_idx < length schemas \<and> col_idx < length (schemas ! schema_idx)
       then [schemas ! schema_idx ! col_idx] else []) indices)"

definition RowSelectorMakeIndices :: "nat list \<Rightarrow> (nat \<times> nat) list" where
  "RowSelectorMakeIndices indices = map (\<lambda>idx. (0, idx)) indices"

definition RowSelector_new :: "bool \<Rightarrow> Schema list \<Rightarrow> (nat \<times> nat) list \<Rightarrow> RowSelector" where
  "RowSelector_new spark schemas indices =
     \<lparr>rs_schemas = schemas, rs_indices = indices, rs_target_schema = CreateTargetSchema schemas indices,
      rs_row_views = map (RowView_schema spark) schemas,
      rs_target_row_builder = RowBuilder_new spark (CreateTargetSchema schemas indices)\<rparr>"

definition RowSelector_single :: "bool \<Rightarrow> Schema \<Rightarrow> nat list \<Rightarrow> RowSelector" where
  "RowSelector_single spark schema indices = RowSelector_new spark [schema] (RowSelectorMakeIndices indices)"

text \<open>The loop that resets the views; the result of \<open>Reset\<close> is not looked at.\<close>

fun reset_views :: "RowView list \<Rightarrow> Row \<Rightarrow> nat \<Rightarrow> RowView list option" where
  "reset_views [] row i = Some []"
| "reset_views (v # vs) row i = do {
     buf \<leftarrow> Row_buf row i;
     sz \<leftarrow> Row_size row i;
     (ok, v') \<leftarrow> rv_Reset v buf sz;
     vs' \<leftarrow> reset_views vs row (Suc i);
     Some (v' # vs')
   }"

text \<open>The first loop adds up the sizes of the selected strings: \<open>Inl\<close> where it returns false.\<close>

fun select_str_size ::
  "bool \<Rightarrow> Schema list \<Rightarrow> RowView list \<Rightarrow> (nat \<times> nat) list \<Rightarrow> nat \<Rightarrow> (unit + nat) option" where
  "select_str_size spark schemas views [] acc = Some (Inr acc)"
| "select_str_size spark schemas views ((schema_idx, col_idx) # is) acc =
     (if schema_idx \<ge> length views then Some (Inl ())
      else do {
        schema \<leftarrow> vec_at schemas schema_idx;
        let row_view = views ! schema_idx;
        if col_idx < length schema \<and> col_type (schema ! col_idx) = kVarchar then do {
          null \<leftarrow> RowView_IsNULL (rv_row row_view) (of_nat col_idx);
          if \<not> null then do {
            s \<leftarrow> GetStringUnsafe spark row_view (of_nat col_idx);
            select_str_size spark schemas views is (acc + length s)
          }
          else select_str_size spark schemas views is acc
        }
        else select_str_size spark schemas views is acc
      })"

text \<open>The body of the second loop's \<open>switch\<close>: read the column and append it; the codes of both are
  ignored.\<close>

definition select_append :: "bool \<Rightarrow> RowView \<Rightarrow> fe_type \<Rightarrow> u32 \<Rightarrow> RowBuilder \<Rightarrow> RowBuilder option" where
  "select_append spark view t col_idx b =
     (case t of
        kInt16 \<Rightarrow> do { x \<leftarrow> GetInt16Unsafe view col_idx; map_option snd (rb_AppendInt16 spark x b) }
      | kInt32 \<Rightarrow> do { x \<leftarrow> GetInt32Unsafe view col_idx; map_option snd (rb_AppendInt32 spark x b) }
      | kInt64 \<Rightarrow> do { x \<leftarrow> GetInt64Unsafe view col_idx; map_option snd (rb_AppendInt64 spark x b) }
      | kBool \<Rightarrow> do { x \<leftarrow> GetBoolUnsafe view col_idx; map_option snd (rb_AppendBool spark x b) }
      | kFloat \<Rightarrow> do { x \<leftarrow> GetFloatUnsafe view col_idx; map_option snd (rb_AppendFloat spark x b) }
      | kDouble \<Rightarrow> do { x \<leftarrow> GetDoubleUnsafe view col_idx; map_option snd (rb_AppendDouble spark x b) }
      | kDate \<Rightarrow> do {
          (ret, ymd) \<leftarrow> rv_GetDate view col_idx;
          (year, month, day) \<leftarrow> ymd;
          map_option snd (rb_AppendDate spark year month day b)
        }
      | kTimestamp \<Rightarrow> do { x \<leftarrow> GetTimestampUnsafe view col_idx; map_option snd (rb_AppendTimestamp spark x b) }
      | kVarchar \<Rightarrow> do {
          str \<leftarrow> GetStringUnsafe spark view col_idx;
          map_option snd (rb_AppendString spark (Some str) (of_nat (length str)) b)
        }
      | _ \<Rightarrow> Some b)"

fun select_columns ::
  "bool \<Rightarrow> Schema list \<Rightarrow> RowView list \<Rightarrow> (nat \<times> nat) list \<Rightarrow> RowBuilder \<Rightarrow> RowBuilder option" where
  "select_columns spark schemas views [] b = Some b"
| "select_columns spark schemas views ((schema_idx, col_idx) # is) b = do {
     schema \<leftarrow> vec_at schemas schema_idx;
     row_view \<leftarrow> vec_at views schema_idx;
     b' \<leftarrow> (if col_idx \<ge> length schema then Some b
           else do {
             null \<leftarrow> RowView_IsNULL (rv_row row_view) (of_nat col_idx);
             if null then map_option snd (AppendNULL b)
             else select_append spark row_view (col_type (schema ! col_idx)) (of_nat col_idx) b
           });
     select_columns spark schemas views is b'
   }"

text \<open>The rest of \<open>Select\<close> on a row: the result flag, the output buffer with its size, and the builder.
  The output buffer is the builder's where \<open>SetBuffer\<close> took it, and untouched otherwise.\<close>

definition select_with ::
  "bool \<Rightarrow> (nat \<Rightarrow> byte) \<Rightarrow> Schema list \<Rightarrow> RowView list \<Rightarrow> (nat \<times> nat) list \<Rightarrow> RowBuilder
   \<Rightarrow> (bool \<times> (buffer \<times> nat) option \<times> RowBuilder) option" where
  "select_with spark fill schemas views indices builder = do {
     r \<leftarrow> select_str_size spark schemas views indices 0;
     case r of
       Inl _ \<Rightarrow> Some (False, None, builder)
     | Inr str_sz \<Rightarrow>
         let target_size = CalTotalLength builder (of_nat str_sz);
             out = map fill [0..<unat target_size] in do {
           (ok, b) \<leftarrow> SetBuffer spark builder (Some out) target_size;
           b' \<leftarrow> select_columns spark schemas views indices b;
           res \<leftarrow> (if ok then rb_buf b' else Some out);
           Some (True, Some (res, unat target_size), b')
         }
   }"

definition Select_row ::
  "bool \<Rightarrow> (nat \<Rightarrow> byte) \<Rightarrow> RowSelector \<Rightarrow> Row \<Rightarrow> (bool \<times> (buffer \<times> nat) option \<times> RowSelector) option" where
  "Select_row spark fill s row =
     (if GetRowPtrCnt row \<noteq> length (rs_row_views s) then Some (False, None, s)
      else do {
        views \<leftarrow> reset_views (rs_row_views s) row 0;
        (ret, out, b) \<leftarrow> select_with spark fill (rs_schemas s) views (rs_indices s) (rs_target_row_builder s);
        Some (ret, out, s\<lparr>rs_row_views := views, rs_target_row_builder := b\<rparr>)
      })"

text \<open>\<open>Select\<close> on one slice has loops of its own. They use the first schema and view; the first loop refuses any other
  schema index, the second does not look at it.\<close>

fun slice_str_size :: "bool \<Rightarrow> Schema \<Rightarrow> RowView \<Rightarrow> (nat \<times> nat) list \<Rightarrow> nat \<Rightarrow> (unit + nat) option" where
  "slice_str_size spark schema row_view [] acc = Some (Inr acc)"
| "slice_str_size spark schema row_view ((schema_idx, col_idx) # is) acc =
     (if schema_idx > 0 then Some (Inl ())
      else if col_idx < length schema then
        if col_type (schema ! col_idx) = kVarchar then do {
          null \<leftarrow> RowView_IsNULL (rv_row row_view) (of_nat col_idx);
          if null then slice_str_size spark schema row_view is acc
          else do {
            s \<leftarrow> GetStringUnsafe spark row_view (of_nat col_idx);
            slice_str_size spark schema row_view is (acc + length s)
          }
        }
        else slice_str_size spark schema row_view is acc
      else slice_str_size spark schema row_view is acc)"

definition slice_append :: "bool \<Rightarrow> RowView \<Rightarrow> fe_type \<Rightarrow> u32 \<Rightarrow> RowBuilder \<Rightarrow> RowBuilder option" where
  "slice_append spark row_view t col_idx b =
     (case t of
        kInt16 \<Rightarrow> do { v \<leftarrow> GetInt16Unsafe row_view col_idx; (ok, b') \<leftarrow> rb_AppendInt16 spark v b; Some b' }
      | kInt32 \<Rightarrow> do { v \<leftarrow> GetInt32Unsafe row_view col_idx; (ok, b') \<leftarrow> rb_AppendInt32 spark v b; Some b' }
      | kInt64 \<Rightarrow> do { v \<leftarrow> GetInt64Unsafe row_view col_idx; (ok, b') \<leftarrow> rb_AppendInt64 spark v b; Some b' }
      | kBool \<Rightarrow> do { v \<leftarrow> GetBoolUnsafe row_view col_idx; (ok, b') \<leftarrow> rb_AppendBool spark v b; Some b' }
      | kFloat \<Rightarrow> do { v \<leftarrow> GetFloatUnsafe row_view col_idx; (ok, b') \<leftarrow> rb_AppendFloat spark v b; Some b' }
      | kDouble \<Rightarrow> do { v \<leftarrow> GetDoubleUnsafe row_view col_idx; (ok, b') \<leftarrow> rb_AppendDouble spark v b; Some b' }
      | kDate \<Rightarrow> do {
          (ret, date) \<leftarrow> rv_GetDate row_view col_idx;
          (year, month, day) \<leftarrow> date;
          (ok, b') \<leftarrow> rb_AppendDate spark year month day b;
          Some b'
        }
      | kTimestamp \<Rightarrow> do { v \<leftarrow> GetTimestampUnsafe row_view col_idx; (ok, b') \<leftarrow> rb_AppendTimestamp spark v b; Some b' }
      | kVarchar \<Rightarrow> do {
          str \<leftarrow> GetStringUnsafe spark row_view col_idx;
          (ok, b') \<leftarrow> rb_AppendString spark (Some str) (of_nat (length str)) b;
          Some b'
        }
      | _ \<Rightarrow> Some b)"

fun slice_columns :: "bool \<Rightarrow> Schema \<Rightarrow> RowView \<Rightarrow> (nat \<times> nat) list \<Rightarrow> RowBuilder \<Rightarrow> RowBuilder option" where
  "slice_columns spark schema row_view [] b = Some b"
| "slice_columns spark schema row_view ((schema_idx, col_idx) # is) b =
     (if col_idx \<ge> length schema then slice_columns spark schema row_view is b
      else do {
        null \<leftarrow> RowView_IsNULL (rv_row row_view) (of_nat col_idx);
        if null then do { (ok, b') \<leftarrow> AppendNULL b; slice_columns spark schema row_view is b' }
        else do {
          b' \<leftarrow> slice_append spark row_view (col_type (schema ! col_idx)) (of_nat col_idx) b;
          slice_columns spark schema row_view is b'
        }
      })"

definition Select_slice ::
  "bool \<Rightarrow> (nat \<Rightarrow> byte) \<Rightarrow> RowSelector \<Rightarrow> buffer option \<Rightarrow> u32 \<Rightarrow> (bool \<times> (buffer \<times> nat) option \<times> RowSelector) option" where
  "Select_slice spark fill s buf sz =
     (case rs_row_views s of
        [] \<Rightarrow> Some (False, None, s)
      | v # vs \<Rightarrow> do {
          schema \<leftarrow> vec_at (rs_schemas s) 0;
          (ok, row_view) \<leftarrow> rv_Reset v buf sz;
          let s = s\<lparr>rs_row_views := row_view # vs\<rparr>;
          str_size \<leftarrow> slice_str_size spark schema row_view (rs_indices s) 0;
          case str_size of
            Inl _ \<Rightarrow> Some (False, None, s)
          | Inr n \<Rightarrow> do {
              let target_size = CalTotalLength (rs_target_row_builder s) (of_nat n);
              let out_slice = map fill [0..<unat target_size];
              (ok, b) \<leftarrow> SetBuffer spark (rs_target_row_builder s) (Some out_slice) target_size;
              b' \<leftarrow> slice_columns spark schema row_view (rs_indices s) b;
              out \<leftarrow> (if ok then rb_buf b' else Some out_slice);
              Some (True, Some (out, unat target_size), s\<lparr>rs_target_row_builder := b'\<rparr>)
            }
        })"

subsection \<open>Encoded rows\<close>

text \<open>A buffer the builder produced for a row of values.\<close>

definition encoded_row :: "bool \<Rightarrow> Schema \<Rightarrow> cell option list \<Rightarrow> buffer \<Rightarrow> bool" where
  "encoded_row spark cs vals m \<longleftrightarrow>
     (\<exists>m0 b. enc_ok spark cs vals (of_nat (length m)) \<and> length m0 = length m \<and> length m < 2 ^ 32 \<and>
        encode_row spark cs vals m0 = Some (True, b) \<and> rb_buf b = Some m)"

lemma encoded_row_mem:
  assumes "encoded_row spark cs vals m"
  shows "enc_ok spark cs vals (of_nat (length m))" and "unat (of_nat (length m) :: u32) = length m"
    and "enc_mem spark cs vals (of_nat (length m)) (length cs) (length cs) m"
proof -
  obtain m0 b where e: "enc_ok spark cs vals (of_nat (length m))" "length m0 = length m" "length m < 2 ^ 32"
      "encode_row spark cs vals m0 = Some (True, b)" "rb_buf b = Some m"
    using assms by (auto simp: encoded_row_def)
  show "enc_ok spark cs vals (of_nat (length m))" by (rule e(1))
  show u: "unat (of_nat (length m) :: u32) = length m" using e(3) by (rule unat_u32)
  show "enc_mem spark cs vals (of_nat (length m)) (length cs) (length cs) m"
    using encode_row_inv [OF e(1), of m0] e u by auto
qed

lemma encoded_row_intro:
  assumes ok: "enc_ok spark cs vals T" and "length m0 = unat T"
    and e: "encode_row spark cs vals m0 = Some (True, b)"
  shows "\<exists>m. rb_buf b = Some m \<and> length m = unat T \<and> encoded_row spark cs vals m"
proof -
  obtain m where m: "b = enc_state spark cs vals T (length cs) m" "enc_mem spark cs vals T (length cs) (length cs) m"
    using encode_row_inv [OF assms(1,2)] e by auto
  then have l: "length m = unat T" by (simp add: enc_mem_def)
  then have "(of_nat (length m) :: u32) = T" by simp
  then have "encoded_row spark cs vals m"
    unfolding encoded_row_def using m l assms unat_less_u32 [of T] by (intro exI [of _ m0] exI [of _ b]) simp
  then show ?thesis using m l by simp
qed

text \<open>A view or builder made for a schema, whatever it was used for since.\<close>

definition view_for :: "bool \<Rightarrow> Schema \<Rightarrow> RowView \<Rightarrow> bool" where
  "view_for spark cs v \<longleftrightarrow> rv_schema v = cs \<and> rv_string_field_cnt v = rv_string_field_cnt (RowView_schema spark cs)
     \<and> rv_str_field_start_offset v = rv_str_field_start_offset (RowView_schema spark cs)
     \<and> rv_offset_vec v = rv_offset_vec (RowView_schema spark cs)"

definition builder_for :: "bool \<Rightarrow> Schema \<Rightarrow> RowBuilder \<Rightarrow> bool" where
  "builder_for spark cs b \<longleftrightarrow> rb_schema b = cs \<and> rb_str_field_cnt b = rb_str_field_cnt (RowBuilder_new spark cs)
     \<and> rb_str_field_start_offset b = rb_str_field_start_offset (RowBuilder_new spark cs)
     \<and> rb_offset_vec b = rb_offset_vec (RowBuilder_new spark cs)"

lemma rv_Reset_enc:
  assumes "view_for spark cs v" and ok: "enc_ok spark cs vals T" and mem: "enc_mem spark cs vals T k k m"
  shows "rv_Reset v (Some m) T = Some (True, enc_view spark cs T m)"
  using assms(1) RowView_new_enc(2,3) [OF ok mem] enc_ok_facts(1) [OF ok] ok
  by (cases v)
     (auto simp: rv_Reset_def view_for_def RowView_schema_supported RowView_default_def enc_view_def enc_ok_def)

lemma SetBuffer_builder_for:
  "builder_for spark cs b \<Longrightarrow> SetBuffer spark b (Some m) T =
     map_option (\<lambda>(ok, b'). (ok, if ok then b' else b)) (SetBuffer spark (RowBuilder_new spark cs) (Some m) T)"
  by (cases b; cases "RowBuilder_new spark cs")
     (auto simp: SetBuffer_def builder_for_def store_word_def store_bytes_def RowBuilder_new_def split: prod.splits)

lemma CalTotalLength_builder_for:
  "builder_for spark cs b \<Longrightarrow> CalTotalLength b n = CalTotalLength (RowBuilder_new spark cs) n"
  by (auto simp: builder_for_def CalTotalLength_def Let_def RowBuilder_new_def split: prod.splits)

subsection \<open>One column\<close>

lemma GetStringUnsafe_default:
  assumes ok: "enc_ok False cs vals T" and mem: "enc_mem False cs vals T (length cs) (length cs) m"
    and j: "j < length cs" "vals ! j = Some (VString v)" and str: "is_str (cs ! j)"
  shows "GetStringUnsafe False (enc_view False cs T m) (of_nat j) = Some v"
proof -
  have "rv_read False (enc_view False cs T m) kVarchar (of_nat j) = Some (0, Some (VString v))"
    using rv_read_str [OF ok mem j str] str by simp
  then show ?thesis
    using enc_checks [OF ok mem j(1)] RowView_new_enc(2,3) [OF ok mem] j str of_nat_index(1) [OF ok j(1)]
    by (auto simp: rv_read_def rv_GetString_def RowView_GetSize_def enc_view_def offset_at GetStringUnsafe_def
        split: bind_splits if_splits)
qed

lemma GetStringUnsafe_enc:
  assumes "\<not> spark" and "enc_ok spark cs vals T" and "enc_mem spark cs vals T (length cs) (length cs) m"
    and "j < length cs" and "vals ! j = Some (VString v)" and "is_str (cs ! j)"
  shows "GetStringUnsafe spark (enc_view spark cs T m) (of_nat j) = Some v"
  using GetStringUnsafe_default assms by simp

text \<open>The string readers of the UnsafeRow format do not read what the builder writes: there a selection
  may have NULL strings only.\<close>

definition strings_readable :: "bool \<Rightarrow> cell option list \<Rightarrow> bool" where
  "strings_readable spark vals \<longleftrightarrow> (spark \<longrightarrow> (\<forall>str. Some (VString str) \<notin> set vals))"

lemma select_append_enc:
  assumes ok: "enc_ok spark cs vals T" and mem: "enc_mem spark cs vals T (length cs) (length cs) m"
    and j: "j < length cs" "vals ! j = Some x" and ns: "strings_readable spark [Some x]"
  shows "select_append spark (enc_view spark cs T m) (col_type (cs ! j)) (of_nat j) b =
    map_option snd (rb_append spark (Some x) b)"
proof (cases "is_str (cs ! j)")
  case True
  then obtain v where x: "x = VString v"
    using row_ok_nth [OF enc_ok_facts(3) [OF ok] j] by (auto dest!: cell_ok_str)
  show ?thesis
    using GetStringUnsafe_enc [OF _ ok mem j(1) _ True] j(2) True ns by (simp add: x select_append_def strings_readable_def)
next
  case False
  have c: "cell_ok (col_type (cs ! j)) x" by (rule row_ok_nth [OF enc_ok_facts(3) [OF ok] j])
  have r: "rv_row (enc_view spark cs T m) = Some m" by (simp add: enc_view_def)
  note n = enc_checks [OF ok mem j(1)] and l = enc_unsafe(2) [OF ok mem j False]
  show ?thesis
    using c False j(2) l n r
    by (cases x)
       (simp_all add: select_append_def rv_GetDate_def
         GetBoolUnsafe_def GetInt16Unsafe_def GetInt32Unsafe_def GetInt64Unsafe_def GetTimestampUnsafe_def
         GetFloatUnsafe_def GetDoubleUnsafe_def GetDateUnsafe_def GetBoolFieldUnsafe_def GetInt16FieldUnsafe_def
         GetInt32FieldUnsafe_def GetInt64FieldUnsafe_def GetFloatFieldUnsafe_def GetDoubleFieldUnsafe_def
         enc_unsafe(1) [OF ok mem j False] load_word_def le_word_le_bytes Date_Decode_date_data)
qed

subsection \<open>The loops\<close>

text \<open>The selected columns and values.\<close>

definition in_range :: "Schema list \<Rightarrow> (nat \<times> nat) list \<Rightarrow> bool" where
  "in_range schemas indices = list_all (\<lambda>(i, c). i < length schemas \<and> c < length (schemas ! i)) indices"

definition selected :: "'a list list \<Rightarrow> (nat \<times> nat) list \<Rightarrow> 'a list" where
  "selected xss indices = map (\<lambda>(i, c). xss ! i ! c) indices"

text \<open>The views of the slices of a row of encoded slices.\<close>

definition views_of :: "bool \<Rightarrow> Schema list \<Rightarrow> buffer list \<Rightarrow> RowView list" where
  "views_of spark css ms = map2 (\<lambda>cs m. enc_view spark cs (of_nat (length m)) m) css ms"

definition encoded_rows :: "bool \<Rightarrow> Schema list \<Rightarrow> cell option list list \<Rightarrow> buffer list \<Rightarrow> bool" where
  "encoded_rows spark css valss ms \<longleftrightarrow> length valss = length css \<and> length ms = length css \<and>
     (\<forall>i < length css. encoded_row spark (css ! i) (valss ! i) (ms ! i))"

lemma views_of_nth:
  "encoded_rows spark css valss ms \<Longrightarrow> i < length css \<Longrightarrow>
   views_of spark css ms ! i = enc_view spark (css ! i) (of_nat (length (ms ! i))) (ms ! i)"
  by (simp add: views_of_def encoded_rows_def)

lemma CreateTargetSchema_in_range: "in_range css is \<Longrightarrow> CreateTargetSchema css is = selected css is"
  by (induction "is") (auto simp: CreateTargetSchema_def selected_def in_range_def)

lemma str_total_Cons:
  "str_total (c # cs) (v # vs) = (if is_str c then length (str_of v) else 0) + str_total cs vs"
  by (simp add: str_total_def strs_def)

lemma select_str_size_enc:
  assumes "encoded_rows spark css valss ms" and "in_range css is" and "strings_readable spark (selected valss is)"
  shows "select_str_size spark css (views_of spark css ms) is acc =
    Some (Inr (acc + str_total (selected css is) (selected valss is)))"
  using assms(2,3)
proof (induction "is" arbitrary: acc)
  case Nil
  then show ?case by (simp add: selected_def str_total_def strs_def)
next
  case (Cons p "is")
  obtain i c where p: "p = (i, c)" by force
  have i: "i < length css" "c < length (css ! i)" "i < length (views_of spark css ms)" and rng: "in_range css is"
    using Cons.prems(1) assms(1) by (auto simp: p in_range_def views_of_def encoded_rows_def)
  have str: "strings_readable spark (selected valss is)" "strings_readable spark [valss ! i ! c]"
    using Cons.prems(2) by (auto simp: p selected_def strings_readable_def)
  have "encoded_row spark (css ! i) (valss ! i) (ms ! i)" using assms(1) i by (simp add: encoded_rows_def)
  note e = encoded_row_mem [OF this]
  note null = enc_checks(2) [OF e(1,3) i(2)]
  show ?case
  proof (cases "is_str (css ! i ! c) \<and> valss ! i ! c \<noteq> None")
    case True
    then obtain v where v: "valss ! i ! c = Some (VString v)"
      using row_ok_nth [OF enc_ok_facts(3) [OF e(1)] i(2)] cell_ok_str by force
    have "GetStringUnsafe spark (enc_view spark (css ! i) (of_nat (length (ms ! i))) (ms ! i)) (of_nat c) = Some v"
      using GetStringUnsafe_enc [OF _ e(1,3) i(2) v] True str(2) by (simp add: v strings_readable_def)
    then show ?thesis
      using True v null Cons.IH [OF rng str(1)] i views_of_nth [OF assms(1) i(1)]
      by (simp add: p enc_view_def selected_def str_total_Cons str_of_def)
  next
    case False
    then show ?thesis
      using null Cons.IH [OF rng str(1)] i views_of_nth [OF assms(1) i(1)]
      by (auto simp: p enc_view_def selected_def str_total_Cons str_of_def)
  qed
qed

lemma select_columns_enc:
  assumes "encoded_rows spark css valss ms" and "in_range css is"
    and "strings_readable spark (selected valss is)" and "append_all spark (selected valss is) b = Some (True, b')"
  shows "select_columns spark css (views_of spark css ms) is b = Some b'"
  using assms(2-4)
proof (induction "is" arbitrary: b)
  case Nil
  then show ?case by (simp add: selected_def)
next
  case (Cons p "is")
  obtain i c where p: "p = (i, c)" by force
  have i: "i < length css" "c < length (css ! i)" "i < length (views_of spark css ms)" and rng: "in_range css is"
    using Cons.prems(1) assms(1) by (auto simp: p in_range_def views_of_def encoded_rows_def)
  have str: "strings_readable spark (selected valss is)" "strings_readable spark [valss ! i ! c]"
    using Cons.prems(2) by (auto simp: p selected_def strings_readable_def)
  have "encoded_row spark (css ! i) (valss ! i) (ms ! i)" using assms(1) i by (simp add: encoded_rows_def)
  note e = encoded_row_mem [OF this]
  obtain b1 where b1: "rb_append spark (valss ! i ! c) b = Some (True, b1)"
    "append_all spark (selected valss is) b1 = Some (True, b')"
    using Cons.prems(3) by (auto simp: p selected_def split: bind_splits if_splits)
  have "rv_row (views_of spark css ms ! i) = Some (ms ! i)"
    using views_of_nth [OF assms(1) i(1)] by (simp add: enc_view_def)
  then show ?case
    using enc_checks(2) [OF e(1,3) i(2)] select_append_enc [OF e(1,3) i(2)] b1 Cons.IH [OF rng str(1) b1(2)] i
      views_of_nth [OF assms(1) i(1)] str(2)
    by (cases "valss ! i ! c") (auto simp: p)
qed

subsection \<open>Selection is projection\<close>

definition target_ok :: "bool \<Rightarrow> Schema \<Rightarrow> cell option list \<Rightarrow> bool" where
  "target_ok spark ts vals \<longleftrightarrow> ts \<noteq> [] \<and> length ts < 2 ^ 31 \<and>
     fix_off spark ts (length ts) + str_total ts vals + 4 * str_cnt ts (length ts) < 2 ^ 32"

lemma selected_enc_ok:
  assumes "encoded_rows spark css valss ms" and "in_range css is" and "target_ok spark (selected css is) (selected valss is)"
  shows "enc_ok spark (selected css is) (selected valss is)
    (CalTotalLength (RowBuilder_new spark (selected css is)) (of_nat (str_total (selected css is) (selected valss is))))"
proof -
  have "supported (css ! i)" "row_ok (css ! i) (valss ! i)" if "i < length css" for i
    using assms(1) that by (auto simp: encoded_rows_def encoded_row_def enc_ok_def)
  then have "supported (selected css is) \<and> row_ok (selected css is) (selected valss is)"
    using assms(2)
  proof (induction "is")
    case (Cons p "is")
    obtain i c where p: "p = (i, c)" "i < length css" "c < length (css ! i)" "in_range css is"
      using Cons.prems(3) by (cases p) (auto simp: in_range_def)
    have "is_str (css ! i ! c) \<or> DEFAULT_TYPE_SIZE_MAP (col_type (css ! i ! c)) \<noteq> None"
      using Cons.prems(1) [OF p(2)] p(3) by (auto simp: supported_def list_all_length)
    then show ?case
      using Cons p row_ok_nth [OF Cons.prems(2) [OF p(2)] p(3)]
      by (auto simp: selected_def row_ok_def split: option.splits)
  qed (simp add: selected_def row_ok_def supported_def)
  then show ?thesis using assms(3) by (simp add: enc_ok_def target_ok_def)
qed

lemma select_with_enc:
  assumes enc: "encoded_rows spark css valss ms" and rng: "in_range css is"
    and str: "strings_readable spark (selected valss is)"
    and tgt: "target_ok spark (selected css is) (selected valss is)" and b: "builder_for spark (selected css is) b"
  shows "\<exists>m b'. select_with spark fill css (views_of spark css ms) is b = Some (True, Some (m, length m), b') \<and>
    builder_for spark (selected css is) b' \<and> encoded_row spark (selected css is) (selected valss is) m"
proof -
  let ?ts = "selected css is" and ?vs = "selected valss is"
  define T where "T = CalTotalLength (RowBuilder_new spark ?ts) (of_nat (str_total ?ts ?vs))"
  define out where "out = map fill [0..<unat T]"
  have ok: "enc_ok spark ?ts ?vs T" using selected_enc_ok [OF enc rng tgt] by (simp add: T_def)
  have len: "length out = unat T" by (simp add: out_def)
  obtain m1 where m1: "SetBuffer spark (RowBuilder_new spark ?ts) (Some out) T =
      Some (True, enc_state spark ?ts ?vs T 0 m1)" "enc_mem spark ?ts ?vs T 0 0 m1"
    using SetBuffer_inv [OF ok len] by blast
  obtain m where m: "append_all spark ?vs (enc_state spark ?ts ?vs T 0 m1) =
      Some (True, enc_state spark ?ts ?vs T (length ?ts) m)" "enc_mem spark ?ts ?vs T (length ?ts) (length ?ts) m"
    using append_all_inv [OF ok m1(2)] by auto
  have e: "encode_row spark ?ts ?vs out = Some (True, enc_state spark ?ts ?vs T (length ?ts) m)"
    using m1(1) m(1) by (simp add: encode_row_def Let_def T_def [symmetric])
  have "length m = unat T" "encoded_row spark ?ts ?vs m" using encoded_row_intro [OF ok len e] by auto
  moreover have "builder_for spark ?ts (enc_state spark ?ts ?vs T (length ?ts) m)"
    using enc_ok_facts(1) [OF ok] by (simp add: builder_for_def RowBuilder_new_supported enc_state_def)
  moreover have "select_with spark fill css (views_of spark css ms) is b =
      Some (True, Some (m, unat T), enc_state spark ?ts ?vs T (length ?ts) m)"
    using select_str_size_enc [OF enc rng str, of 0] select_columns_enc [OF enc rng str m(1)] m1(1)
      SetBuffer_builder_for [OF b, of out T] CalTotalLength_builder_for [OF b]
    by (simp add: select_with_def Let_def T_def [symmetric] out_def [symmetric])
  ultimately show ?thesis by auto
qed

text \<open>The selector between calls.\<close>

definition selector_inv :: "bool \<Rightarrow> Schema list \<Rightarrow> (nat \<times> nat) list \<Rightarrow> RowSelector \<Rightarrow> bool" where
  "selector_inv spark css is s \<longleftrightarrow> rs_schemas s = css \<and> rs_indices s = is \<and>
     list_all2 (view_for spark) css (rs_row_views s) \<and> builder_for spark (selected css is) (rs_target_row_builder s)"

lemma RowView_schema_schema: "rv_schema (RowView_schema spark cs) = cs"
  by (simp add: RowView_schema_def rv_Init_def RowView_default_def split: prod.splits bool.splits)

lemma RowBuilder_new_schema: "rb_schema (RowBuilder_new spark cs) = cs"
  by (simp add: RowBuilder_new_def split: prod.splits)

lemma selector_inv_new:
  "in_range css is \<Longrightarrow> selector_inv spark css is (RowSelector_new spark css is)"
  by (simp add: selector_inv_def RowSelector_new_def view_for_def builder_for_def CreateTargetSchema_in_range
      list_all2_conv_all_nth RowView_schema_schema RowBuilder_new_schema)

definition row_of_slices :: "buffer list \<Rightarrow> Row" where
  "row_of_slices ms = \<lparr>row_slice = slice_of (hd ms), row_slices = map slice_of (tl ms)\<rparr>"

lemma row_of_slices_nth:
  assumes "i < length ms"
  shows "Row_buf (row_of_slices ms) i = Some (Some (ms ! i))"
    and "Row_size (row_of_slices ms) i = Some (of_nat (length (ms ! i)))"
  using assms by (cases ms; cases i; simp add: Row_buf_def Row_size_def row_of_slices_def slice_of_def)+

lemma reset_views_enc:
  assumes "list_all2 (view_for spark) css vs" and "length ms = length css + i"
    and "\<And>k. k < length css \<Longrightarrow> encoded_row spark (css ! k) (vals k) (ms ! (i + k))"
  shows "reset_views vs (row_of_slices ms) i = Some (views_of spark css (drop i ms))"
  using assms
proof (induction vs arbitrary: css vals i rule: list.induct)
  case Nil
  from Nil.prems(1) have "css = []" by simp
  then show ?case by (simp add: views_of_def)
next
  case (Cons v vs)
  then obtain cs css' where css: "css = cs # css'" "view_for spark cs v" "list_all2 (view_for spark) css' vs"
    by (auto simp: list_all2_Cons2)
  have "encoded_row spark cs (vals 0) (ms ! i)" using Cons.prems(3) [of 0] css by simp
  note e = encoded_row_mem [OF this]
  have rest: "reset_views vs (row_of_slices ms) (Suc i) = Some (views_of spark css' (drop (Suc i) ms))"
    using Cons.prems(2) Cons.prems(3) [of "Suc _"] css
    by (intro Cons.IH [where vals = "\<lambda>k. vals (Suc k)"]) auto
  have "i < length ms" using Cons.prems(2) css by simp
  then show ?case
    using row_of_slices_nth [of i ms] rv_Reset_enc [OF css(2) e(1,3)] rest css
    by (simp add: views_of_def Cons_nth_drop_Suc [symmetric])
qed

text \<open>C4. Selecting columns is projecting them: for a row whose slices are encoded rows, \<open>Select\<close> succeeds
  and its output is the encoding of the selected values under the selected columns, also when the
  selector was used before; the selector can be used again. In the default row format this holds of all columns. In
  the UnsafeRow format the selected values must not include a string that is not NULL: the view does not read there
  the strings that the builder writes.\<close>

theorem Select_row_projects:
  assumes "selector_inv spark css is s" and "encoded_rows spark css valss ms" and "css \<noteq> []" and "in_range css is"
    and "target_ok spark (selected css is) (selected valss is)" and "strings_readable spark (selected valss is)"
  shows "\<exists>m s'. Select_row spark fill s (row_of_slices ms) = Some (True, Some (m, length m), s') \<and>
    encoded_row spark (selected css is) (selected valss is) m \<and> selector_inv spark css is s'"
proof -
  have l: "length ms = length css" "length (rs_row_views s) = length css"
    using assms(1,2) by (auto simp: encoded_rows_def selector_inv_def list_all2_lengthD)
  then have cnt: "GetRowPtrCnt (row_of_slices ms) = length (rs_row_views s)"
    using assms(3) by (cases ms) (auto simp: GetRowPtrCnt_def row_of_slices_def)
  have v: "reset_views (rs_row_views s) (row_of_slices ms) 0 = Some (views_of spark css ms)"
    using reset_views_enc [of spark css "rs_row_views s" ms 0 "(!) valss"] assms(1,2) l
    by (simp add: selector_inv_def encoded_rows_def)
  obtain m b' where m: "select_with spark fill css (views_of spark css ms) is (rs_target_row_builder s) =
      Some (True, Some (m, length m), b')" "builder_for spark (selected css is) b'"
      "encoded_row spark (selected css is) (selected valss is) m"
    using select_with_enc [OF assms(2,4,6,5), of "rs_target_row_builder s" fill] assms(1)
    by (auto simp: selector_inv_def)
  have "list_all2 (view_for spark) css (views_of spark css ms)"
    unfolding list_all2_conv_all_nth
  proof (intro conjI allI impI)
    show "length css = length (views_of spark css ms)" using l by (simp add: views_of_def)
    fix i assume i: "i < length css"
    have "supported (css ! i)" using assms(2) i by (auto simp: encoded_rows_def encoded_row_def enc_ok_def)
    then show "view_for spark (css ! i) (views_of spark css ms ! i)"
      unfolding views_of_nth [OF assms(2) i]
      by (simp add: view_for_def enc_view_def RowView_schema_supported RowView_default_def)
  qed
  then show ?thesis using cnt v m assms(1) by (auto simp: Select_row_def selector_inv_def)
qed

theorem Select_row_projects_witness:
  "\<exists>m m' s'. Select_row False (\<lambda>_. 0) (RowSelector_new False [sample_schema] [(0, 3), (0, 1)]) (row_of_slices [m]) =
      Some (True, Some (m', length m'), s') \<and>
    encoded_row False (selected [sample_schema] [(0, 3), (0, 1)]) (selected [sample_row] [(0, 3), (0, 1)]) m'"
proof -
  have "enc_ok False sample_schema sample_row 21" using sample_facts by (simp add: enc_ok_def)
  moreover from this obtain b where "encode_row False sample_schema sample_row (replicate 21 0) = Some (True, b)"
    using encode_row_inv [of False sample_schema sample_row 21 "replicate 21 0"] by auto
  ultimately obtain m where "encoded_row False sample_schema sample_row m"
    using encoded_row_intro [of False sample_schema sample_row 21 "replicate 21 0" b] by auto
  then have e: "encoded_rows False [sample_schema] [sample_row] [m]" by (simp add: encoded_rows_def)
  have r: "in_range [sample_schema] [(0, 3), (0, 1)]" by (simp add: in_range_def sample_schema_def)
  have t: "target_ok False (selected [sample_schema] [(0, 3), (0, 1)]) (selected [sample_row] [(0, 3), (0, 1)])"
    by (simp add: target_ok_def selected_def sample_schema_def sample_row_def fix_off_def bitmap_bytes_def
        BitMapSize_def fix_size_def str_total_def strs_def str_of_def str_cnt_def)
  have "strings_readable False (selected [sample_row] [(0, 3), (0, 1)])" by (simp add: strings_readable_def)
  then show ?thesis
    using Select_row_projects [OF selector_inv_new [OF r] e _ r t, of "\<lambda>_. 0"] by auto
qed

subsection \<open>The two selections\<close>

lemma slice_append_eq: "slice_append spark v t c b = select_append spark v t c b"
  by (cases t) (simp_all add: slice_append_def select_append_def map_option_case case_prod_beta
      split: bind_splits option.splits)

lemma slice_str_size_eq: "slice_str_size spark cs v is acc = select_str_size spark [cs] [v] is acc"
proof (induction "is" arbitrary: acc)
  case (Cons p "is")
  obtain i c where "p = (i, c)" by force
  then show ?case using Cons by (cases i) (auto simp: vec_at_def Let_def split: bind_splits)
qed simp

text \<open>The second loop of \<open>Select\<close> on a slice may ignore the schema index because the first has refused all but 0.\<close>

lemma select_str_size_first: "select_str_size spark [cs] [v] is acc = Some (Inr n) \<Longrightarrow> list_all (\<lambda>(i, c). i = 0) is"
proof (induction "is" arbitrary: acc)
  case (Cons p "is")
  obtain i c where "p = (i, c)" by force
  then show ?case using Cons by (cases i) (auto simp: vec_at_def Let_def split: bind_splits if_splits)
qed simp

lemma slice_columns_eq: "list_all (\<lambda>(i, c). i = 0) is \<Longrightarrow> slice_columns spark cs v is b = select_columns spark [cs] [v] is b"
proof (induction "is" arbitrary: b)
  case (Cons p "is")
  obtain c where p: "p = (0, c)" using Cons.prems by (cases p) auto
  show ?case
  proof (cases "c < length cs")
    case True
    then show ?thesis using Cons
      by (auto simp: p slice_append_eq vec_at_def map_option_case case_prod_beta split: bind_splits option.splits)
  next
    case False
    then show ?thesis using Cons by (simp add: p vec_at_def)
  qed
qed simp

text \<open>C5. The two \<open>Select\<close>, which the code writes twice, agree: for a selector over one schema, selecting from a slice gives
  exactly what selecting from the row of that slice gives, in every case, with the same selector left behind. In
  particular the second loop on a slice, which does not look at the schema index, never meets an index other than 0.\<close>

theorem Select_slice_eq_Select_row:
  assumes "rs_schemas s = [cs]" and "rs_row_views s = [v]"
  shows "Select_slice spark fill s (sl_data sl) (sl_size sl) = Select_row spark fill s (Row_of_slice sl)"
proof (cases "rv_Reset v (sl_data sl) (sl_size sl)")
  case None
  then show ?thesis using assms
    by (simp add: Select_slice_def Select_row_def GetRowPtrCnt_def Row_of_slice_def Row_buf_def Row_size_def vec_at_def)
next
  case (Some r)
  obtain ok v' where r: "r = (ok, v')" by (cases r)
  have c: "slice_columns spark cs v' (rs_indices s) b = select_columns spark [cs] [v'] (rs_indices s) b"
    if "select_str_size spark [cs] [v'] (rs_indices s) 0 = Some (Inr n)" for n b
    using slice_columns_eq [OF select_str_size_first [OF that]] .
  show ?thesis using assms Some r c
    by (auto simp: Select_slice_def Select_row_def select_with_def GetRowPtrCnt_def Row_of_slice_def Row_buf_def Row_size_def
        vec_at_def slice_str_size_eq Let_def case_prod_beta Option.bind_assoc split: sum.splits bind_splits)
qed

theorem Select_slice_eq_Select_row_witness:
  "Select_slice False (\<lambda>_. 0) (RowSelector_single False sample_schema [1]) (Some [0]) 1 =
   Select_row False (\<lambda>_. 0) (RowSelector_single False sample_schema [1]) (Row_of_slice \<lparr>sl_size = 1, sl_data = Some [0]\<rparr>)"
  using Select_slice_eq_Select_row [of "RowSelector_single False sample_schema [1]" sample_schema
      "RowView_schema False sample_schema" False "\<lambda>_. 0" "\<lparr>sl_size = 1, sl_data = Some [0]\<rparr>"]
  by (simp add: RowSelector_single_def RowSelector_new_def)

end
