(* ===== verification/Runner_Keys.thy ===== *)
theory Runner_Keys
  imports Data_Handlers Row_Selector
begin

text \<open>
  The generators of \<open>runner.h\<close> that compute a value from a row: keys, orders, conditions and projections.
  A generator holds a function the JIT compiled; that function is a parameter, from the row and the
  parameter row to its return code and the buffer it leaves. The keys and orders are read from that
  buffer with the row codec.
\<close>

subsection \<open>Compiled functions\<close>

type_synonym row_fn = "Row \<Rightarrow> Row \<Rightarrow> u32 \<times> buffer"
type_synonym const_fn = "Row \<Rightarrow> u32 \<times> buffer"

record 'f FnGenerator =
  fg_fn :: "'f option"
  fg_schema :: Schema
  fg_row_view :: RowView
  fg_idxs :: "u32 list"

definition FnGenerator_new :: "bool \<Rightarrow> 'f option \<Rightarrow> Schema \<Rightarrow> 'f FnGenerator" where
  "FnGenerator_new spark fn schema =
     \<lparr>fg_fn = fn, fg_schema = schema, fg_row_view = RowView_schema spark schema,
      fg_idxs = map of_nat [0..<length schema]\<rparr>"

definition fg_Valid :: "'f FnGenerator \<Rightarrow> bool" where
  "fg_Valid g = (fg_fn g \<noteq> None)"

text \<open>\<open>Row(RefCountedSlice::CreateManaged(buf, RowView::GetSize(buf)))\<close>.\<close>

definition managed_row :: "buffer \<Rightarrow> Row option" where
  "managed_row buf = do {
     sz \<leftarrow> RowView_GetSize (Some buf);
     s \<leftarrow> load_bytes buf 0 (unat sz);
     Some (Row_of_slice (slice_of s))
   }"

definition RowConstProject :: "const_fn \<Rightarrow> Row \<Rightarrow> Row option" where
  "RowConstProject fn parameter =
     (case fn parameter of (ret, buf) \<Rightarrow> if ret \<noteq> 0 then Some Row_default else managed_row buf)"

definition RowProject :: "row_fn \<Rightarrow> Row \<Rightarrow> Row \<Rightarrow> Row option" where
  "RowProject fn row parameter =
     (if Row_empty row then Some Row_default
      else case fn row parameter of (ret, buf) \<Rightarrow> if ret \<noteq> 0 then Some Row_default else managed_row buf)"

subsection \<open>Reading a column\<close>

text \<open>A column as \<open>bool\<close>; a floating point number is zero when all its bits but the sign are.\<close>

definition GetColumnBool :: "RowView \<Rightarrow> buffer option \<Rightarrow> u32 \<Rightarrow> fe_type \<Rightarrow> bool option" where
  "GetColumnBool row_view buf idx t =
     (if t \<in> {kInt32, kInt64, kInt16, kFloat, kDouble, kBool} then do {
        (ret, x) \<leftarrow> rv_GetValue row_view buf idx t;
        if ret = 0 then
          (case x of
             Some (VInt32 v) \<Rightarrow> Some (v \<noteq> 0)
           | Some (VInt64 v) \<Rightarrow> Some (v \<noteq> 0)
           | Some (VInt16 v) \<Rightarrow> Some (v \<noteq> 0)
           | Some (VFloat v) \<Rightarrow> Some (v AND 0x7FFFFFFF \<noteq> 0)
           | Some (VDouble v) \<Rightarrow> Some (v AND 0x7FFFFFFFFFFFFFFF \<noteq> 0)
           | Some (VBool v) \<Rightarrow> Some v
           | _ \<Rightarrow> None)
        else Some False
      } else Some False)"

definition GetColumnInt64 :: "RowView \<Rightarrow> buffer option \<Rightarrow> u32 \<Rightarrow> fe_type \<Rightarrow> i64 option" where
  "GetColumnInt64 row_view buf key_idx key_type =
     (if key_type \<in> {kInt32, kInt64, kInt16, kTimestamp} then do {
        (ret, x) \<leftarrow> rv_GetValue row_view buf key_idx key_type;
        if ret = 0 then
          (case x of
             Some (VInt32 v) \<Rightarrow> Some (scast v)
           | Some (VInt64 v) \<Rightarrow> Some v
           | Some (VInt16 v) \<Rightarrow> Some (scast v)
           | _ \<Rightarrow> None)
        else Some (- 1)
      } else Some (- 1))"

subsection \<open>Keys\<close>

definition NONETOKEN :: "byte list" where
  "NONETOKEN = bytes_of ''!N@U#L$L%''"

definition EMPTY_STRING :: "byte list" where
  "EMPTY_STRING = bytes_of ''!@#$%''"

definition key_sep :: "byte list \<Rightarrow> byte list" where
  "key_sep keys = (if keys \<noteq> [] then keys @ bytes_of ''|'' else keys)"

text \<open>One column of \<open>KeyGenerator::Gen\<close>; \<open>append\<close> is skipped where the reader does not return 0.\<close>

definition key_append :: "(int \<times> cell option) option \<Rightarrow> (cell \<Rightarrow> byte list option) \<Rightarrow> byte list \<Rightarrow> byte list option" where
  "key_append r f keys = do {
     (ret, x) \<leftarrow> r;
     if ret = 0 then do { c \<leftarrow> x; t \<leftarrow> f c; Some (keys @ t) } else Some keys
   }"

definition key_column :: "bool \<Rightarrow> 'f FnGenerator \<Rightarrow> buffer option \<Rightarrow> u32 \<Rightarrow> byte list \<Rightarrow> byte list option" where
  "key_column spark g buf pos keys = do {
     let keys = key_sep keys;
     null \<leftarrow> RowView_IsNULL buf pos;
     if null then Some (keys @ NONETOKEN)
     else do {
       column \<leftarrow> vec_at (fg_schema g) (unat pos);
       case col_type column of
         kVarchar \<Rightarrow> do {
           (ret, out) \<leftarrow> rv_GetValue_str spark (fg_row_view g) buf pos;
           if ret = 0 then do {
             (val, sz) \<leftarrow> out;
             if sz = 0 then Some (keys @ EMPTY_STRING)
             else do { m \<leftarrow> buf; s \<leftarrow> load_bytes m val (unat sz); Some (keys @ s) }
           } else Some keys
         }
       | kDate \<Rightarrow> key_append (rv_GetValue (fg_row_view g) buf pos kDate)
           (\<lambda>c. case c of VInt32 v \<Rightarrow> Some (to_string_int (sint v)) | _ \<Rightarrow> None) keys
       | kBool \<Rightarrow> key_append (rv_GetValue (fg_row_view g) buf pos kBool)
           (\<lambda>c. case c of VBool v \<Rightarrow> Some (if v then bytes_of ''true'' else bytes_of ''false'') | _ \<Rightarrow> None) keys
       | kInt16 \<Rightarrow> key_append (rv_GetValue (fg_row_view g) buf pos kInt16)
           (\<lambda>c. case c of VInt16 v \<Rightarrow> Some (to_string_int (sint v)) | _ \<Rightarrow> None) keys
       | kInt32 \<Rightarrow> key_append (rv_GetValue (fg_row_view g) buf pos kInt32)
           (\<lambda>c. case c of VInt32 v \<Rightarrow> Some (to_string_int (sint v)) | _ \<Rightarrow> None) keys
       | kInt64 \<Rightarrow> key_append (rv_GetValue (fg_row_view g) buf pos kInt64)
           (\<lambda>c. case c of VInt64 v \<Rightarrow> Some (to_string_int (sint v)) | _ \<Rightarrow> None) keys
       | kTimestamp \<Rightarrow> key_append (rv_GetValue (fg_row_view g) buf pos kTimestamp)
           (\<lambda>c. case c of VInt64 v \<Rightarrow> Some (to_string_int (sint v)) | _ \<Rightarrow> None) keys
       | _ \<Rightarrow> Some keys
     }
   }"

definition KeyGenerator_Gen :: "bool \<Rightarrow> row_fn FnGenerator \<Rightarrow> Row \<Rightarrow> Row \<Rightarrow> byte list option" where
  "KeyGenerator_Gen spark g row parameter = do {
     sz \<leftarrow> Row_size row 0;
     if sz = 0 then Some NONETOKEN
     else do {
       fn \<leftarrow> fg_fn g;
       key_row \<leftarrow> RowProject fn row parameter;
       buf \<leftarrow> Row_buf key_row 0;
       fold_opt (key_column spark g buf) (fg_idxs g) []
     }
   }"

text \<open>One column of \<open>KeyGenerator::GenConst\<close>, which reads through \<open>RowView::GetAsString\<close>; the texts of
  floating point numbers are parameters.\<close>

definition key_const_column :: "(u32 \<Rightarrow> byte list) \<Rightarrow> (u64 \<Rightarrow> byte list) \<Rightarrow> bool \<Rightarrow> 'f FnGenerator \<Rightarrow> RowView
    \<Rightarrow> u32 \<Rightarrow> byte list \<Rightarrow> byte list option" where
  "key_const_column fmt_float fmt_double spark g row_view pos keys = do {
     null \<leftarrow> RowView_IsNULL (rv_row row_view) pos;
     key \<leftarrow> (if null then Some NONETOKEN
              else do {
                column \<leftarrow> vec_at (fg_schema g) (unat pos);
                if col_type column = kDate then map_option (\<lambda>d. to_string_int (sint d)) (GetDateUnsafe row_view pos)
                else rv_GetAsString fmt_float fmt_double spark row_view pos
              });
     Some (key_sep keys @ (if key = [] then EMPTY_STRING else key))
   }"

definition KeyGenerator_GenConst :: "(u32 \<Rightarrow> byte list) \<Rightarrow> (u64 \<Rightarrow> byte list) \<Rightarrow> bool \<Rightarrow> const_fn FnGenerator
    \<Rightarrow> Row \<Rightarrow> byte list option" where
  "KeyGenerator_GenConst fmt_float fmt_double spark g parameter = do {
     fn \<leftarrow> fg_fn g;
     key_row \<leftarrow> RowConstProject fn parameter;
     buf \<leftarrow> Row_buf key_row 0;
     (ok, row_view) \<leftarrow> rv_Reset_row (fg_row_view g) buf;
     if \<not> ok then Some (bytes_of ''NA'')
     else fold_opt (key_const_column fmt_float fmt_double spark g row_view) (fg_idxs g) []
   }"

subsection \<open>Orders, conditions and projections\<close>

definition OrderGenerator_Gen :: "row_fn FnGenerator \<Rightarrow> Row \<Rightarrow> i64 option" where
  "OrderGenerator_Gen g row = do {
     fn \<leftarrow> fg_fn g;
     order_row \<leftarrow> RowProject fn row Row_default;
     buf \<leftarrow> Row_buf order_row 0;
     idx \<leftarrow> vec_at (fg_idxs g) 0;
     column \<leftarrow> vec_at (fg_schema g) (unat idx);
     GetColumnInt64 (fg_row_view g) buf idx (col_type column)
   }"

definition ComputeCondition :: "row_fn \<Rightarrow> Row \<Rightarrow> Row \<Rightarrow> RowView \<Rightarrow> u32 \<Rightarrow> bool option" where
  "ComputeCondition fn row parameter row_view out_idx = do {
     cond_row \<leftarrow> RowProject fn row parameter;
     buf \<leftarrow> Row_buf cond_row 0;
     column \<leftarrow> vec_at (rv_schema row_view) (unat out_idx);
     GetColumnBool row_view buf out_idx (col_type column)
   }"

definition ConditionGenerator_Gen :: "row_fn FnGenerator \<Rightarrow> Row \<Rightarrow> Row \<Rightarrow> bool option" where
  "ConditionGenerator_Gen g row parameter = do {
     fn \<leftarrow> fg_fn g;
     idx \<leftarrow> vec_at (fg_idxs g) 0;
     ComputeCondition fn row parameter (fg_row_view g) idx
   }"

definition ProjectGenerator_Gen :: "row_fn FnGenerator \<Rightarrow> Row \<Rightarrow> Row \<Rightarrow> Row option" where
  "ProjectGenerator_Gen g row parameter = do { fn \<leftarrow> fg_fn g; RowProject fn row parameter }"

definition ConstProjectGenerator_Gen :: "const_fn FnGenerator \<Rightarrow> Row \<Rightarrow> Row option" where
  "ConstProjectGenerator_Gen g parameter = do { fn \<leftarrow> fg_fn g; RowConstProject fn parameter }"

subsection \<open>The text of a key\<close>

primrec cell_text :: "cell \<Rightarrow> byte list" where
  "cell_text (VBool v) = (if v then bytes_of ''true'' else bytes_of ''false'')"
| "cell_text (VInt16 v) = to_string_int (sint v)"
| "cell_text (VInt32 v) = to_string_int (sint v)"
| "cell_text (VInt64 v) = to_string_int (sint v)"
| "cell_text (VTimestamp v) = to_string_int (sint v)"
| "cell_text (VDate y m d) = to_string_int (sint (date_data y m d))"
| "cell_text (VFloat v) = []"
| "cell_text (VDouble v) = []"
| "cell_text (VString s) = (if s = [] then EMPTY_STRING else s)"

definition key_text :: "cell option \<Rightarrow> byte list" where
  "key_text v = (case v of None \<Rightarrow> NONETOKEN | Some x \<Rightarrow> cell_text x)"

definition key_join :: "byte list list \<Rightarrow> byte list" where
  "key_join ts = fold (\<lambda>t keys. key_sep keys @ t) ts []"

subsection \<open>Reading an encoded key\<close>

primrec raw_cell :: "cell \<Rightarrow> cell" where
  "raw_cell (VBool v) = VBool v"
| "raw_cell (VInt16 v) = VInt16 v"
| "raw_cell (VInt32 v) = VInt32 v"
| "raw_cell (VInt64 v) = VInt64 v"
| "raw_cell (VTimestamp v) = VInt64 v"
| "raw_cell (VDate y m d) = VInt32 (date_data y m d)"
| "raw_cell (VFloat v) = VFloat v"
| "raw_cell (VDouble v) = VDouble v"
| "raw_cell (VString s) = VString s"

lemma rv_GetValue_enc:
  assumes ok: "enc_ok spark cs vals T" and mem: "enc_mem spark cs vals T (length cs) (length cs) m"
    and j: "j < length cs" "vals ! j = Some x" and str: "\<not> is_str (cs ! j)"
  shows "rv_GetValue (RowView_schema spark cs) (Some m) (of_nat j) (col_type (cs ! j)) = Some (0, Some (raw_cell x))"
proof -
  have c: "cell_ok (col_type (cs ! j)) x" by (rule row_ok_nth [OF enc_ok_facts(3) [OF ok] j])
  have cs: "cs \<noteq> []" using j(1) by auto
  note n = enc_checks(2) [OF ok mem j(1)] and l = enc_unsafe(2) [OF ok mem j str]
    and u = of_nat_index [OF ok j(1)] and g = RowView_new_enc(2,3) [OF ok mem]
  have o': "vec_at (map of_nat (col_offsets spark 0 (fix_off spark cs 0) cs)) j = Some (of_nat (fix_off spark cs j) :: u32)"
    using offset_at [OF j(1)] str j(1) by (simp add: vec_at_Some length_col_offsets)
  have sv: "rv_offset_vec (RowView_schema spark cs) = map of_nat (col_offsets spark 0 (fix_off spark cs 0) cs)"
    "rv_schema (RowView_schema spark cs) = cs" "rv_is_valid (RowView_schema spark cs)"
    using cs by (simp_all add: RowView_schema_supported [OF enc_ok_facts(1) [OF ok]])
  show ?thesis
    using c str j cs n l u g o' sv
    by (cases x)
       (simp_all add: rv_GetValue_def RowView_GetSize_def vec_at_Some
         GetBoolFieldUnsafe_def GetInt16FieldUnsafe_def GetInt32FieldUnsafe_def GetInt64FieldUnsafe_def
         GetFloatFieldUnsafe_def GetDoubleFieldUnsafe_def load_word_bytes le_word_le_bytes)
qed

lemma rv_GetValue_str_enc:
  assumes ok: "enc_ok False cs vals T" and mem: "enc_mem False cs vals T (length cs) (length cs) m"
    and j: "j < length cs" "vals ! j = Some (VString v)" and str: "is_str (cs ! j)"
  shows "\<exists>off. rv_GetValue_str False (RowView_schema False cs) (Some m) (of_nat j) =
      Some (0, Some (off, of_nat (length v))) \<and> load_bytes m off (length v) = Some v \<and>
      unat (of_nat (length v) :: u32) = length v"
proof -
  let ?s = "str_cnt cs j"
  have s: "?s < str_cnt cs (length cs)" using j(1) str by (rule str_cnt_lt)
  have v: "strs cs vals ! ?s = v"
    using nth_strs [OF enc_ok_facts(4) [OF ok] j(1) str] j(2) by (simp add: str_of_def)
  have len: "load_bytes m (body_off False cs vals (unat (GetAddrLength T)) ?s) (length v) = Some v"
    using mem s v by (auto simp: enc_mem_def)
  have "length v \<le> unat T" using load_bytes_length [OF len] mem len
    by (auto simp: enc_mem_def load_bytes_def split: if_splits)
  then have u: "unat (of_nat (length v) :: u32) = length v"
    using unat_less_u32 [of T] by (intro unat_u32) simp
  have cs: "cs \<noteq> []" using j(1) by auto
  have o': "vec_at (map of_nat (col_offsets False 0 (fix_off False cs 0) cs)) j = Some (of_nat ?s :: u32)"
    using offset_at [OF j(1)] str j(1) by (simp add: vec_at_Some length_col_offsets)
  have "rv_GetValue_str False (RowView_schema False cs) (Some m) (of_nat j) =
      Some (0, Some (body_off False cs vals (unat (GetAddrLength T)) ?s, of_nat (length v)))"
    using GetStrField_enc [OF ok mem s, of "of_nat j"] enc_checks(2) [OF ok mem j(1)] j str v cs o'
      RowView_new_enc(2,3) [OF ok mem] of_nat_index [OF ok j(1)]
    by (simp add: rv_GetValue_str_def RowView_schema_supported [OF enc_ok_facts(1) [OF ok]] RowView_GetSize_def vec_at_Some)
  with len u show ?thesis by blast
qed

lemma managed_row_enc:
  assumes ok: "enc_ok spark cs vals T" and mem: "enc_mem spark cs vals T k k m"
  shows "managed_row m = Some (Row_of_slice (slice_of m))"
  using RowView_new_enc(3) [OF assms] mem
  by (simp add: managed_row_def RowView_GetSize_def enc_mem_def load_bytes_def)

lemma Row_buf_slice: "Row_buf (Row_of_slice (slice_of s)) 0 = Some (Some s)"
  by (simp add: Row_buf_def Row_of_slice_def slice_of_def)

lemma cell_text_nonempty: "x \<noteq> [] \<Longrightarrow> bytes_of x \<noteq> []"
  by (simp add: bytes_of_def)

lemma key_column_enc:
  assumes ok: "enc_ok False cs vals T" and mem: "enc_mem False cs vals T (length cs) (length cs) m"
    and j: "j < length cs" and g: "fg_schema g = cs" "fg_row_view g = RowView_schema False cs"
  shows "key_column False g (Some m) (of_nat j) keys = Some (key_sep keys @ key_text (vals ! j))"
proof (cases "vals ! j")
  case None
  then show ?thesis using enc_checks(2) [OF ok mem j] by (simp add: key_column_def key_text_def)
next
  case (Some x)
  have c: "cell_ok (col_type (cs ! j)) x" by (rule row_ok_nth [OF enc_ok_facts(3) [OF ok] j Some])
  have n: "RowView_IsNULL (Some m) (of_nat j) = Some False" using enc_checks(2) [OF ok mem j] Some by simp
  have v: "vec_at cs (unat (of_nat j :: u32)) = Some (cs ! j)" using of_nat_index [OF ok j] j by (simp add: vec_at_Some)
  show ?thesis
  proof (cases "is_str (cs ! j)")
    case True
    then obtain s where x: "x = VString s" using c by (auto dest!: cell_ok_str)
    obtain off where "rv_GetValue_str False (RowView_schema False cs) (Some m) (of_nat j) = Some (0, Some (off, of_nat (length s)))"
      "load_bytes m off (length s) = Some s" "unat (of_nat (length s) :: u32) = length s"
      using rv_GetValue_str_enc [OF ok mem j _ True] Some x by blast
    moreover from this(3) have "(of_nat (length s) :: u32) = 0 \<longleftrightarrow> s = []" by (auto simp: unat_eq_0 [symmetric])
    ultimately show ?thesis using n v g True Some x by (simp add: key_column_def key_text_def)
  next
    case False
    then show ?thesis
      using rv_GetValue_enc [OF ok mem j Some False] c n v g Some
      by (cases x) (simp_all add: key_column_def key_text_def key_append_def)
  qed
qed

lemma fold_opt_upt:
  "(\<And>j acc. a \<le> j \<Longrightarrow> j < b \<Longrightarrow> f (of_nat j) acc = Some (h j acc)) \<Longrightarrow>
   fold_opt f (map of_nat [a..<b]) acc = Some (fold h [a..<b] acc)"
proof (induction "b - a" arbitrary: a acc)
  case (Suc n)
  then have "a < b" by simp
  then have u: "[a..<b] = a # [Suc a..<b]" by (rule upt_conv_Cons)
  have "fold_opt f (map of_nat [Suc a..<b]) (h a acc) = Some (fold h [Suc a..<b] (h a acc))"
    using Suc by (intro Suc.hyps(1)) simp_all
  then show ?case using Suc.prems [of a acc] \<open>a < b\<close> by (simp add: u)
qed simp

lemma key_join_nth: "fold (\<lambda>j keys. key_sep keys @ f (xs ! j)) [0..<length xs] [] = key_join (map f xs)"
proof -
  have "fold (\<lambda>j keys. key_sep keys @ f (xs ! j)) [0..<length xs] [] =
      fold (\<lambda>t keys. key_sep keys @ t) (map (\<lambda>j. f (xs ! j)) [0..<length xs]) []"
    by (simp add: fold_map comp_def)
  also have "map (\<lambda>j. f (xs ! j)) [0..<length xs] = map f xs" by (rule nth_equalityI) simp_all
  finally show ?thesis by (simp add: key_join_def)
qed

subsection \<open>Keys of encoded rows\<close>

text \<open>The buffer \<open>encode_row\<close> leaves when it is handed \<open>m0\<close>; \<open>encodable\<close> bounds the row's size to 32 bits.\<close>

definition encodable :: "Schema \<Rightarrow> cell option list \<Rightarrow> bool" where
  "encodable cs vals \<longleftrightarrow> supported cs \<and> cs \<noteq> [] \<and> length cs < 2 ^ 31 \<and> row_ok cs vals \<and>
     fix_off False cs (length cs) + str_total cs vals + 4 * str_cnt cs (length cs) < 2 ^ 32"

definition row_length :: "Schema \<Rightarrow> cell option list \<Rightarrow> nat" where
  "row_length cs vals = unat (CalTotalLength (RowBuilder_new False cs) (of_nat (str_total cs vals)))"

definition encoded_row :: "Schema \<Rightarrow> cell option list \<Rightarrow> buffer \<Rightarrow> buffer option" where
  "encoded_row cs vals m0 = do {
     (ok, b) \<leftarrow> encode_row False cs vals m0;
     if ok then rb_buf b else None
   }"

lemma encoded_row_enc:
  assumes "encodable cs vals" "length m0 = row_length cs vals" "encoded_row cs vals m0 = Some m"
  obtains T where "enc_ok False cs vals T" "enc_mem False cs vals T (length cs) (length cs) m"
proof -
  let ?T = "CalTotalLength (RowBuilder_new False cs) (of_nat (str_total cs vals))"
  have ok: "enc_ok False cs vals ?T" using assms(1) by (simp add: encodable_def enc_ok_def)
  show thesis
    using encode_row_inv [OF ok, of m0] assms(2,3) that [OF ok]
    by (auto simp: encoded_row_def row_length_def enc_state_def)
qed

lemma encoded_row_exists:
  assumes "encodable cs vals" "length m0 = row_length cs vals"
  shows "\<exists>m. encoded_row cs vals m0 = Some m"
proof -
  have "enc_ok False cs vals (CalTotalLength (RowBuilder_new False cs) (of_nat (str_total cs vals)))"
    using assms(1) by (simp add: encodable_def enc_ok_def)
  from encode_row_inv [OF this, of m0] show ?thesis
    using assms(2) by (auto simp: encoded_row_def row_length_def enc_state_def)
qed

lemma Gen_enc:
  assumes ok: "enc_ok False cs vals T" and mem: "enc_mem False cs vals T (length cs) (length cs) m"
    and f: "fn row parameter = (0, m)" and row: "Row_size row 0 \<noteq> Some 0"
  shows "KeyGenerator_Gen False (FnGenerator_new False (Some fn) cs) row parameter = Some (key_join (map key_text vals))"
proof -
  let ?g = "FnGenerator_new False (Some fn) cs"
  have len: "length vals = length cs" by (rule enc_ok_facts(4) [OF ok])
  have g: "fg_schema ?g = cs" "fg_row_view ?g = RowView_schema False cs" by (simp_all add: FnGenerator_new_def)
  have "fold_opt (key_column False ?g (Some m)) (map of_nat [0..<length cs]) [] =
      Some (fold (\<lambda>j keys. key_sep keys @ key_text (vals ! j)) [0..<length cs] [])"
    using key_column_enc [OF ok mem _ g] by (intro fold_opt_upt) simp
  moreover have "\<not> Row_empty row" using row by (auto simp: Row_empty_def Slice_empty_def Row_size_def)
  ultimately show ?thesis
    using row f managed_row_enc [OF ok mem] Row_buf_slice [of m] key_join_nth [of key_text vals] len
    by (simp add: KeyGenerator_Gen_def FnGenerator_new_def RowProject_def Row_size_def)
qed

text \<open>C25. The key of a row whose key columns the compiled function encodes as \<open>vals\<close> is the text of those
  values joined by \<open>|\<close>: the NULL token for a NULL, the empty-string token for an empty string, decimal numbers
  and the packed number of a date.\<close>

theorem KeyGenerator_Gen_text:
  assumes "encodable cs vals" and "length m0 = row_length cs vals" and "encoded_row cs vals m0 = Some m"
    and "fn row parameter = (0, m)" and "Row_size row 0 \<noteq> Some 0"
  shows "KeyGenerator_Gen False (FnGenerator_new False (Some fn) cs) row parameter = Some (key_join (map key_text vals))"
proof -
  obtain T where "enc_ok False cs vals T" "enc_mem False cs vals T (length cs) (length cs) m"
    by (rule encoded_row_enc [OF assms(1-3)])
  then show ?thesis using assms(4,5) by (rule Gen_enc)
qed

subsection \<open>Equal keys\<close>

text \<open>The values whose text determines them: no floating point numbers, no string with the separator in it
  and none that spells a token.\<close>

primrec plain_cell :: "cell \<Rightarrow> bool" where
  "plain_cell (VBool v) = True"
| "plain_cell (VInt16 v) = True"
| "plain_cell (VInt32 v) = True"
| "plain_cell (VInt64 v) = True"
| "plain_cell (VTimestamp v) = True"
| "plain_cell (VDate y m d) = True"
| "plain_cell (VFloat v) = False"
| "plain_cell (VDouble v) = False"
| "plain_cell (VString s) = (124 \<notin> set s \<and> s \<noteq> NONETOKEN \<and> s \<noteq> EMPTY_STRING)"

definition plain_key :: "cell option \<Rightarrow> bool" where
  "plain_key v = (case v of None \<Rightarrow> True | Some x \<Rightarrow> plain_cell x)"

definition undigit :: "byte list \<Rightarrow> nat" where
  "undigit = foldl (\<lambda>n d. 10 * n + (unat d - 48)) 0"

lemma undigit_dec: "undigit (dec_nat n) = n"
proof (induction n rule: dec_nat.induct)
  case (1 n)
  have "unat (48 + of_nat (n mod 10) :: byte) = 48 + n mod 10"
    by (simp add: unat_word_ariths unat_of_nat)
  with 1 show ?case
    by (subst dec_nat.simps) (auto simp: undigit_def unat_word_ariths unat_of_nat)
qed

lemma dec_nat_eq: "dec_nat a = dec_nat b \<longleftrightarrow> a = b"
  by (metis undigit_dec)

lemma dec_digits: "d \<in> set (dec_nat n) \<Longrightarrow> 48 \<le> unat d \<and> unat d < 58"
proof (induction n rule: dec_nat.induct)
  case (1 n)
  show ?case
  proof (cases "n < 10")
    case True
    with 1 show ?thesis by (subst (asm) dec_nat.simps) (auto simp: unat_word_ariths unat_of_nat)
  next
    case False
    have "unat (48 + of_nat (n mod 10) :: byte) = 48 + n mod 10" "n mod 10 < 10"
      by (simp_all add: unat_word_ariths unat_of_nat)
    with False 1 show ?thesis by (subst (asm) dec_nat.simps) auto
  qed
qed

lemma dec_nat_ne [simp]: "dec_nat n \<noteq> []"
  by (subst dec_nat.simps) simp

lemma minus_byte: "bytes_of ''-'' = [45]"
  by (simp add: bytes_of_def)

lemma to_string_int_chars: "d \<in> set (to_string_int i) \<Longrightarrow> d = 45 \<or> 48 \<le> unat d \<and> unat d < 58"
  using dec_digits by (auto simp: to_string_int_def minus_byte split: if_splits)

lemma to_string_int_ne [simp]: "to_string_int i \<noteq> []"
  by (simp add: to_string_int_def)

lemma dec_no_minus: "hd (dec_nat n) \<noteq> 45"
  using hd_in_set [OF dec_nat_ne, of n, THEN dec_digits] by auto

lemma to_string_int_inj: "to_string_int i = to_string_int j \<Longrightarrow> i = j"
proof -
  assume a: "to_string_int i = to_string_int j"
  have s: "i < 0 \<longleftrightarrow> hd (to_string_int i) = 45" for i
    using dec_no_minus by (simp add: to_string_int_def minus_byte)
  have "i < 0 \<longleftrightarrow> j < 0" using a s by simp
  then show "i = j" using a by (cases "i < 0") (simp_all add: to_string_int_def dec_nat_eq)
qed

lemma key_text_ne: "plain_key v \<Longrightarrow> key_text v \<noteq> []"
proof -
  have t: "NONETOKEN \<noteq> []" "EMPTY_STRING \<noteq> []" "bytes_of ''true'' \<noteq> []" "bytes_of ''false'' \<noteq> []"
    by (simp_all add: NONETOKEN_def EMPTY_STRING_def bytes_of_def)
  show "plain_key v \<Longrightarrow> key_text v \<noteq> []"
    using t by (cases v; cases "the v") (simp_all add: plain_key_def key_text_def)
qed

lemma token_bytes:
  "NONETOKEN = [33, 78, 64, 85, 35, 76, 36, 76, 37]" "EMPTY_STRING = [33, 64, 35, 36, 37]"
  "bytes_of ''true'' = [116, 114, 117, 101]" "bytes_of ''false'' = [102, 97, 108, 115, 101]" "bytes_of ''|'' = [124]"
  by (simp_all add: NONETOKEN_def EMPTY_STRING_def bytes_of_def)

lemma no_bar_int [simp]: "124 \<notin> set (to_string_int i)"
  using to_string_int_chars [of 124 i] by auto

lemma int_no_token [simp]: "to_string_int i \<noteq> NONETOKEN" "to_string_int i \<noteq> EMPTY_STRING"
  using to_string_int_chars [of 33 i] by (auto simp: token_bytes)

lemma cell_text_no_bar: "plain_cell x \<Longrightarrow> 124 \<notin> set (cell_text x)"
  by (cases x) (simp_all add: token_bytes)

lemma key_text_no_bar: "plain_key v \<Longrightarrow> 124 \<notin> set (key_text v)"
  using cell_text_no_bar [of "the v"] by (cases v) (simp_all add: plain_key_def key_text_def token_bytes)

lemma date_data_inj:
  "date_ok y m d \<Longrightarrow> date_ok y' m' d' \<Longrightarrow> date_data y m d = date_data y' m' d' \<Longrightarrow> y = y' \<and> m = m' \<and> d = d'"
  by (metis Date_Decode_date_data option.inject prod.inject)

lemma to_string_sint: "to_string_int (sint a) = to_string_int (sint b) \<longleftrightarrow> a = (b :: 'a::len word)"
  by (metis to_string_int_inj signed_word_eqI)

lemma cell_text_inj:
  assumes "cell_ok t x" "cell_ok t y" "plain_cell x" "plain_cell y" "cell_text x = cell_text y"
  shows "x = y"
proof (cases "t = kDate")
  case True
  then show ?thesis using assms by (cases x; cases y) (simp_all add: to_string_sint date_data_inj)
next
  case False
  have t: "bytes_of ''true'' \<noteq> bytes_of ''false''" by (simp add: token_bytes)
  show ?thesis
    using False assms t by (cases x; cases y) (simp_all add: to_string_sint split: if_splits)
qed

lemma cell_text_no_null: "plain_cell x \<Longrightarrow> cell_text x \<noteq> NONETOKEN"
  by (cases x) (simp_all, simp_all add: token_bytes)

lemma key_text_inj:
  assumes "case v of None \<Rightarrow> True | Some x \<Rightarrow> cell_ok t x" "case w of None \<Rightarrow> True | Some x \<Rightarrow> cell_ok t x"
    and "plain_key v" "plain_key w" "key_text v = key_text w"
  shows "v = w"
  using assms cell_text_inj [of t "the v" "the w"] cell_text_no_null [of "the v"] cell_text_no_null [of "the w"]
  by (cases v; cases w) (auto simp: plain_key_def key_text_def)

lemma key_join_snoc: "key_join (ts @ [t]) = key_sep (key_join ts) @ t"
  by (simp add: key_join_def)

lemma key_join_ne: "ts \<noteq> [] \<Longrightarrow> [] \<notin> set ts \<Longrightarrow> key_join ts \<noteq> []"
  by (cases ts rule: rev_cases) (auto simp: key_join_snoc)

lemma bar_split:
  "124 \<notin> set t \<Longrightarrow> 124 \<notin> set u \<Longrightarrow> a @ 124 # t = b @ 124 # (u :: byte list) \<Longrightarrow> a = b \<and> t = u"
proof -
  assume b: "124 \<notin> set t" "124 \<notin> set u" and e: "a @ 124 # t = b @ 124 # u"
  have "takeWhile (\<lambda>x. x \<noteq> 124) (rev (c @ 124 # v)) = rev v" if "124 \<notin> set v" for c v :: "byte list"
    using that by (auto simp: takeWhile_append)
  from this [OF b(1)] this [OF b(2)] e have "rev t = rev u" by metis
  with e show "a = b \<and> t = u" by simp
qed

lemma key_join_inj:
  "length ts = length us \<Longrightarrow> (\<forall>t \<in> set ts \<union> set us. t \<noteq> [] \<and> 124 \<notin> set t) \<Longrightarrow> key_join ts = key_join us \<Longrightarrow> ts = us"
proof (induction ts arbitrary: us rule: rev_induct)
  case (snoc t ts)
  obtain u vs where us: "us = vs @ [u]" using snoc.prems(1) by (cases us rule: rev_cases) auto
  have len: "length ts = length vs" using snoc.prems(1) us by simp
  have b: "124 \<notin> set t" "124 \<notin> set u" using snoc.prems(2) us by auto
  have e: "key_join ts = [] \<longleftrightarrow> ts = []" "key_join vs = [] \<longleftrightarrow> vs = []"
    using key_join_ne [of ts] key_join_ne [of vs] snoc.prems(2) us by (auto simp: key_join_def)
  show ?case
  proof (cases "ts = []")
    case True
    then show ?thesis using snoc.prems(3) len us by (simp add: key_join_snoc key_sep_def key_join_def)
  next
    case False
    then have "key_join ts @ 124 # t = key_join vs @ 124 # u"
      using snoc.prems(3) us len e by (auto simp: key_join_snoc key_sep_def token_bytes)
    then have "key_join ts = key_join vs \<and> t = u" using b bar_split by blast
    then show ?thesis using snoc.IH [OF len] snoc.prems(2) us by auto
  qed
qed simp

lemma key_texts_inj:
  assumes "row_ok cs vals" "row_ok cs vals'" "list_all plain_key vals" "list_all plain_key vals'"
    and "key_join (map key_text vals) = key_join (map key_text vals')"
  shows "vals = vals'"
proof -
  have len: "length vals = length cs" "length vals' = length cs" using assms(1,2) row_ok_length by auto
  have "\<forall>t \<in> set (map key_text vals) \<union> set (map key_text vals'). t \<noteq> [] \<and> 124 \<notin> set t"
    using assms(3,4) key_text_ne key_text_no_bar by (auto simp: list_all_iff)
  then have k: "map key_text vals = map key_text vals'" using len assms(5) by (intro key_join_inj) simp_all
  show ?thesis
  proof (rule nth_equalityI)
    fix j assume j: "j < length vals"
    have "key_text (vals ! j) = key_text (vals' ! j)" using arg_cong [OF k, of "\<lambda>l. l ! j"] j len by simp
    with assms(1-4) j len show "vals ! j = vals' ! j"
      by (intro key_text_inj [where t = "col_type (cs ! j)"]) (auto simp: row_ok_def list_all2_conv_all_nth list_all_length)
  qed (simp add: len)
qed

text \<open>C26. Grouping: where the key columns hold no floating point numbers and no string with the separator or a
  token's spelling, two rows get the same key exactly when their key columns are equal.\<close>

theorem KeyGenerator_Gen_groups:
  assumes "encodable cs vals" and "encodable cs vals'"
    and "length m0 = row_length cs vals" and "encoded_row cs vals m0 = Some m"
    and "length m0' = row_length cs vals'" and "encoded_row cs vals' m0' = Some m'"
    and "fn row parameter = (0, m)" and "fn row' parameter = (0, m')"
    and "Row_size row 0 \<noteq> Some 0" and "Row_size row' 0 \<noteq> Some 0"
    and "list_all plain_key vals" and "list_all plain_key vals'"
    and "g = FnGenerator_new False (Some fn) cs"
  shows "KeyGenerator_Gen False g row parameter = KeyGenerator_Gen False g row' parameter \<longleftrightarrow> vals = vals'"
proof -
  obtain T T' where "enc_ok False cs vals T" "enc_mem False cs vals T (length cs) (length cs) m"
    and "enc_ok False cs vals' T'" "enc_mem False cs vals' T' (length cs) (length cs) m'"
    using encoded_row_enc [OF assms(1,3,4)] encoded_row_enc [OF assms(2,5,6)] by metis
  then have "KeyGenerator_Gen False g row parameter = Some (key_join (map key_text vals))"
    "KeyGenerator_Gen False g row' parameter = Some (key_join (map key_text vals'))"
    using Gen_enc assms(7-10,13) by metis+
  then show ?thesis using key_texts_inj [of cs vals vals'] assms(1,2,11,12) by (auto simp: encodable_def)
qed

subsection \<open>Keys of constants\<close>

lemma as_cell_eq:
  "as_cell f r = Some (0, Some c) \<longleftrightarrow> (\<exists>x. r = Some (0, Some x) \<and> f x = c)"
  by (cases r) (auto simp: as_cell_def)

lemma Reset_row_enc:
  assumes ok: "enc_ok spark cs vals T" and mem: "enc_mem spark cs vals T (length cs) (length cs) m"
  shows "rv_Reset_row (RowView_schema spark cs) (Some m) = Some (True, enc_view spark cs T m)"
  using RowView_new_enc(2,3) [OF assms] ok
  by (simp add: rv_Reset_row_def RowView_schema_supported enc_ok_def enc_view_def RowView_default_def)

text \<open>The columns on which both ways of writing a key agree.\<close>

primrec const_cell :: "cell \<Rightarrow> bool" where
  "const_cell (VBool v) = True"
| "const_cell (VInt16 v) = True"
| "const_cell (VInt32 v) = True"
| "const_cell (VInt64 v) = True"
| "const_cell (VTimestamp v) = True"
| "const_cell (VDate y m d) = True"
| "const_cell (VFloat v) = False"
| "const_cell (VDouble v) = False"
| "const_cell (VString s) = (length s \<le> 4096)"

lemma GetAsString_enc:
  assumes ok: "enc_ok False cs vals T" and mem: "enc_mem False cs vals T (length cs) (length cs) m"
    and j: "j < length cs" "vals ! j = Some x" and x: "const_cell x" "col_type (cs ! j) \<noteq> kDate"
  shows "rv_GetAsString ff fd False (enc_view False cs T m) (of_nat j) =
    Some (case x of VString s \<Rightarrow> s | _ \<Rightarrow> cell_text x)"
proof -
  let ?v = "enc_view False cs T m"
  have c: "cell_ok (col_type (cs ! j)) x" by (rule row_ok_nth [OF enc_ok_facts(3) [OF ok] j])
  have f: "rv_schema ?v = cs" "rv_row ?v = Some m" "rv_size ?v = T" by (simp_all add: enc_view_def)
  have g: "rv_GetAsString ff fd False ?v (of_nat j) = (case col_type (cs ! j) of
      kInt32 \<Rightarrow> shown (\<lambda>x. to_string_int (sint x)) (rv_GetInt32 ?v (of_nat j))
    | kInt64 \<Rightarrow> shown (\<lambda>x. to_string_int (sint x)) (rv_GetInt64 ?v (of_nat j))
    | kInt16 \<Rightarrow> shown (\<lambda>x. to_string_int (sint x)) (rv_GetInt16 ?v (of_nat j))
    | kFloat \<Rightarrow> shown ff (rv_GetFloat ?v (of_nat j))
    | kDouble \<Rightarrow> shown fd (rv_GetDouble ?v (of_nat j))
    | kBool \<Rightarrow> shown (\<lambda>x. if x then bytes_of ''true'' else bytes_of ''false'') (rv_GetBool ?v (of_nat j))
    | kVarchar \<Rightarrow> do {
        (ret, out) \<leftarrow> rv_GetString False ?v (of_nat j);
        if ret = 0 then do { (val, len) \<leftarrow> out; m' \<leftarrow> rv_row ?v; load_bytes m' val (if len > 4096 then 4096 else unat len) }
        else Some (bytes_of ''NA'') }
    | kTimestamp \<Rightarrow> shown (\<lambda>x. to_string_int (sint x)) (rv_GetTimestamp ?v (of_nat j))
    | kDate \<Rightarrow> shown date_string (rv_GetDate ?v (of_nat j))
    | _ \<Rightarrow> Some (bytes_of ''NA''))"
    using RowView_new_enc(2) [OF ok mem] enc_checks(2) [OF ok mem j(1)] j of_nat_index [OF ok j(1)]
    by (cases "col_type (cs ! j)") (auto simp: rv_GetAsString_def f vec_at_Some)
  have r: "rv_read False ?v (col_type (cs ! j)) (of_nat j) = Some (0, Some x)"
    using rv_read_fixed [OF ok mem j] rv_read_str [OF ok mem j] by blast
  show ?thesis
  proof (cases "\<exists>s. x = VString s")
    case True
    then obtain s where s: "x = VString s" by blast
    then obtain a b where e: "rv_GetString False ?v (of_nat j) = Some (0, Some (a, b))" "load_bytes m a (unat b) = Some s"
      using r c by (auto simp: rv_read_def f bind_eq_Some_conv split: if_splits)
    have "\<not> 4096 < b" using load_bytes_length [OF e(2)] x(1) s by (simp add: word_less_nat_alt)
    then show ?thesis using e s c unfolding g by (simp add: f)
  next
    case False
    then show ?thesis using r c x unfolding g by (cases x) (auto simp: rv_read_def as_cell_eq shown_def)
  qed
qed

lemma key_const_column_enc:
  assumes ok: "enc_ok False cs vals T" and mem: "enc_mem False cs vals T (length cs) (length cs) m"
    and j: "j < length cs" and x: "\<And>x. vals ! j = Some x \<Longrightarrow> const_cell x" and g: "fg_schema g = cs"
  shows "key_const_column ff fd False g (enc_view False cs T m) (of_nat j) keys =
    Some (key_sep keys @ key_text (vals ! j))"
proof (cases "vals ! j")
  case None
  then show ?thesis using enc_checks(2) [OF ok mem j]
    by (simp add: key_const_column_def key_text_def enc_view_def token_bytes)
next
  case (Some x)
  have c: "cell_ok (col_type (cs ! j)) x" by (rule row_ok_nth [OF enc_ok_facts(3) [OF ok] j Some])
  have n: "RowView_IsNULL (rv_row (enc_view False cs T m)) (of_nat j) = Some False"
    using enc_checks(2) [OF ok mem j] Some by (simp add: enc_view_def)
  have v: "vec_at cs (unat (of_nat j :: u32)) = Some (cs ! j)" using of_nat_index [OF ok j] j by (simp add: vec_at_Some)
  have t: "bytes_of ''true'' \<noteq> []" "bytes_of ''false'' \<noteq> []" by (simp_all add: bytes_of_def)
  show ?thesis
  proof (cases "col_type (cs ! j) = kDate")
    case True
    then have "GetDateUnsafe (enc_view False cs T m) (of_nat j) = GetInt32FieldUnsafe m (of_nat (fix_off False cs j))"
      using enc_unsafe(1) [OF ok mem j Some] by (simp add: GetDateUnsafe_def)
    with True show ?thesis
      using n v g c Some enc_unsafe(2) [OF ok mem j Some]
      by (cases x) (simp_all add: key_const_column_def key_text_def GetInt32FieldUnsafe_def load_word_bytes)
  next
    case False
    then show ?thesis
      using n v g Some t c x GetAsString_enc [OF ok mem j Some x [OF Some] False, of ff fd]
      by (cases x) (simp_all add: key_const_column_def key_text_def)
  qed
qed

lemma GenConst_enc:
  assumes ok: "enc_ok False cs vals T" and mem: "enc_mem False cs vals T (length cs) (length cs) m"
    and f: "fn parameter = (0, m)" and x: "\<forall>x. Some x \<in> set vals \<longrightarrow> const_cell x"
  shows "KeyGenerator_GenConst ff fd False (FnGenerator_new False (Some fn) cs) parameter = Some (key_join (map key_text vals))"
proof -
  let ?g = "FnGenerator_new False (Some fn) cs"
  have len: "length vals = length cs" by (rule enc_ok_facts(4) [OF ok])
  have g: "fg_schema ?g = cs" by (simp add: FnGenerator_new_def)
  have "fold_opt (key_const_column ff fd False ?g (enc_view False cs T m)) (map of_nat [0..<length cs]) [] =
      Some (fold (\<lambda>j keys. key_sep keys @ key_text (vals ! j)) [0..<length cs] [])"
    using key_const_column_enc [OF ok mem _ _ g] x len by (intro fold_opt_upt) (metis nth_mem)
  then show ?thesis
    using managed_row_enc [OF ok mem] Row_buf_slice [of m] key_join_nth [of key_text vals] len f
      Reset_row_enc [OF ok mem]
    by (simp add: KeyGenerator_GenConst_def FnGenerator_new_def RowConstProject_def)
qed

text \<open>C27. \<open>GenConst\<close>, which reads the constant key through \<open>GetAsString\<close>, writes the same text as \<open>Gen\<close> does for a
  row, where the key has no floating point numbers and no string longer than 4096 bytes: a lookup by a constant key
  finds the partition \<open>Gen\<close> filed the row under.\<close>

theorem KeyGenerator_GenConst_eq_Gen:
  assumes "encodable cs vals" and "length m0 = row_length cs vals" and "encoded_row cs vals m0 = Some m"
    and "cfn parameter = (0, m)" and "fn row parameter = (0, m)" and "Row_size row 0 \<noteq> Some 0"
    and "\<forall>x. Some x \<in> set vals \<longrightarrow> const_cell x"
  shows "KeyGenerator_GenConst ff fd False (FnGenerator_new False (Some cfn) cs) parameter =
    KeyGenerator_Gen False (FnGenerator_new False (Some fn) cs) row parameter"
proof -
  obtain T where ok: "enc_ok False cs vals T" and mem: "enc_mem False cs vals T (length cs) (length cs) m"
    by (rule encoded_row_enc [OF assms(1-3)])
  show ?thesis
    using GenConst_enc [OF ok mem, of cfn parameter ff fd] Gen_enc [OF ok mem, of fn row parameter] assms(4-7) by simp
qed

text \<open>Without those conditions rows with different keys can share one: the separator is not escaped.\<close>

lemma key_text_collision:
  "key_join (map key_text [Some (VString [97, 124, 98]), Some (VString [99])]) =
   key_join (map key_text [Some (VString [97]), Some (VString [98, 124, 99])])"
  by (simp add: key_join_def key_text_def key_sep_def token_bytes)

subsection \<open>Orders and conditions of encoded rows\<close>

primrec order_cell :: "cell \<Rightarrow> i64" where
  "order_cell (VInt16 v) = scast v"
| "order_cell (VInt32 v) = scast v"
| "order_cell (VInt64 v) = v"
| "order_cell (VTimestamp v) = v"
| "order_cell (VBool v) = - 1"
| "order_cell (VFloat v) = - 1"
| "order_cell (VDouble v) = - 1"
| "order_cell (VDate y m d) = - 1"
| "order_cell (VString s) = - 1"

definition order_value :: "cell option \<Rightarrow> i64" where
  "order_value v = (case v of None \<Rightarrow> - 1 | Some x \<Rightarrow> order_cell x)"

primrec cond_cell :: "cell \<Rightarrow> bool" where
  "cond_cell (VBool v) = v"
| "cond_cell (VInt16 v) = (v \<noteq> 0)"
| "cond_cell (VInt32 v) = (v \<noteq> 0)"
| "cond_cell (VInt64 v) = (v \<noteq> 0)"
| "cond_cell (VFloat v) = (v AND 0x7FFFFFFF \<noteq> 0)"
| "cond_cell (VDouble v) = (v AND 0x7FFFFFFFFFFFFFFF \<noteq> 0)"
| "cond_cell (VTimestamp v) = False"
| "cond_cell (VDate y m d) = False"
| "cond_cell (VString s) = False"

definition cond_value :: "cell option \<Rightarrow> bool" where
  "cond_value v = (case v of None \<Rightarrow> False | Some x \<Rightarrow> cond_cell x)"

lemma rv_GetValue_null:
  assumes ok: "enc_ok spark cs vals T" and mem: "enc_mem spark cs vals T (length cs) (length cs) m"
    and j: "j < length cs" "vals ! j = None"
  shows "rv_GetValue (RowView_schema spark cs) (Some m) (of_nat j) (col_type (cs ! j)) = Some (1, None)"
  using enc_checks(2) [OF ok mem j(1)] of_nat_index [OF ok j(1)] RowView_new_enc(2,3) [OF ok mem] j
  by (auto simp: rv_GetValue_def RowView_schema_supported [OF enc_ok_facts(1) [OF ok]] RowView_GetSize_def vec_at_Some)

lemma column_values_enc:
  assumes ok: "enc_ok spark cs vals T" and mem: "enc_mem spark cs vals T (length cs) (length cs) m" and j: "j < length cs"
  shows "GetColumnInt64 (RowView_schema spark cs) (Some m) (of_nat j) (col_type (cs ! j)) = Some (order_value (vals ! j))"
    and "GetColumnBool (RowView_schema spark cs) (Some m) (of_nat j) (col_type (cs ! j)) = Some (cond_value (vals ! j))"
proof -
  have c: "cell_ok (col_type (cs ! j)) x" if "vals ! j = Some x" for x
    by (rule row_ok_nth [OF enc_ok_facts(3) [OF ok] j that])
  show "GetColumnInt64 (RowView_schema spark cs) (Some m) (of_nat j) (col_type (cs ! j)) = Some (order_value (vals ! j))"
  proof (cases "vals ! j")
    case None
    then show ?thesis using rv_GetValue_null [OF ok mem j] by (simp add: GetColumnInt64_def order_value_def)
  next
    case (Some x)
    then show ?thesis
      using rv_GetValue_enc [OF ok mem j Some] c [OF Some]
      by (cases x) (simp_all add: GetColumnInt64_def order_value_def)
  qed
  show "GetColumnBool (RowView_schema spark cs) (Some m) (of_nat j) (col_type (cs ! j)) = Some (cond_value (vals ! j))"
  proof (cases "vals ! j")
    case None
    then show ?thesis using rv_GetValue_null [OF ok mem j] by (simp add: GetColumnBool_def cond_value_def)
  next
    case (Some x)
    then show ?thesis
      using rv_GetValue_enc [OF ok mem j Some] c [OF Some]
      by (cases x) (simp_all add: GetColumnBool_def cond_value_def)
  qed
qed

lemma RowProject_enc:
  assumes "enc_ok spark cs vals T" "enc_mem spark cs vals T (length cs) (length cs) m"
    and "fn row parameter = (0, m)" "\<not> Row_empty row"
  shows "RowProject fn row parameter = Some (Row_of_slice (slice_of m))"
  using assms(3,4) managed_row_enc [OF assms(1,2)] by (simp add: RowProject_def)

lemma OrderGenerator_enc:
  assumes ok: "enc_ok False cs vals T" and mem: "enc_mem False cs vals T (length cs) (length cs) m"
    and fn: "fn row Row_default = (0, m)" "\<not> Row_empty row"
  shows "OrderGenerator_Gen (FnGenerator_new False (Some fn) cs) row = Some (order_value (vals ! 0))"
proof -
  have cs: "0 < length cs" using ok by (simp add: enc_ok_def)
  then have v: "vec_at (map of_nat [0..<length cs]) 0 = Some (0 :: u32)" "vec_at cs 0 = Some (cs ! 0)"
    by (simp_all add: vec_at_Some)
  show ?thesis
    using RowProject_enc [OF ok mem, of fn row Row_default] fn Row_buf_slice [of m] v column_values_enc(1) [OF ok mem cs]
    by (simp add: OrderGenerator_Gen_def FnGenerator_new_def)
qed

lemma ConditionGenerator_enc:
  assumes ok: "enc_ok False cs vals T" and mem: "enc_mem False cs vals T (length cs) (length cs) m"
    and fn: "fn row parameter = (0, m)" "\<not> Row_empty row"
  shows "ConditionGenerator_Gen (FnGenerator_new False (Some fn) cs) row parameter = Some (cond_value (vals ! 0))"
proof -
  have cs: "0 < length cs" using ok by (simp add: enc_ok_def)
  then have v: "vec_at (map of_nat [0..<length cs]) 0 = Some (0 :: u32)" "vec_at cs 0 = Some (cs ! 0)"
    by (simp_all add: vec_at_Some)
  have "rv_schema (RowView_schema False cs) = cs" by (simp add: RowView_schema_supported [OF enc_ok_facts(1) [OF ok]])
  then show ?thesis
    using RowProject_enc [OF ok mem, of fn row parameter] fn Row_buf_slice [of m] v column_values_enc(2) [OF ok mem cs]
    by (simp add: ConditionGenerator_Gen_def FnGenerator_new_def ComputeCondition_def)
qed

text \<open>C28. The order key of a row is the first column of the order expression, sign-extended to 64 bits, and -1 when it
  is NULL or of a type that is no integer and no timestamp; a condition holds when its first column is a non-zero
  number or true, and does not when it is NULL.\<close>

theorem order_and_condition_values:
  assumes "encodable cs vals" and "length m0 = row_length cs vals" and "encoded_row cs vals m0 = Some m"
    and "fn row Row_default = (0, m)" and "fn row parameter = (0, m)" and "\<not> Row_empty row"
  shows "OrderGenerator_Gen (FnGenerator_new False (Some fn) cs) row = Some (order_value (vals ! 0)) \<and>
    ConditionGenerator_Gen (FnGenerator_new False (Some fn) cs) row parameter = Some (cond_value (vals ! 0))"
proof -
  obtain T where ok: "enc_ok False cs vals T" and mem: "enc_mem False cs vals T (length cs) (length cs) m"
    by (rule encoded_row_enc [OF assms(1-3)])
  show ?thesis
    using OrderGenerator_enc [OF ok mem, of fn row] ConditionGenerator_enc [OF ok mem, of fn row parameter] assms(4-6) by simp
qed

subsection \<open>Concrete keys\<close>

definition key_schema :: Schema where
  "key_schema = [\<lparr>col_name = ''a'', col_type = kInt32\<rparr>, \<lparr>col_name = ''b'', col_type = kVarchar\<rparr>]"

definition key_row_1 :: "cell option list" where
  "key_row_1 = [Some (VInt32 (- 7)), Some (VString [97, 98])]"

definition key_row_2 :: "cell option list" where
  "key_row_2 = [Some (VInt32 12), None]"

lemmas layout_eval = key_schema_def key_row_1_def key_row_2_def supported_def row_ok_def date_ok_def fix_off_def
  bitmap_bytes_def BitMapSize_def fix_size_def type_size_def GetTypeSizeMap_def str_total_def strs_def
  str_of_def str_cnt_def CalTotalLength_def RowBuilder_new_def rb_column_def Let_def

lemma key_rows_encodable: "encodable key_schema key_row_1" "encodable key_schema key_row_2"
  by (simp_all add: encodable_def layout_eval)

lemma key_rows_length: "row_length key_schema key_row_1 = 14" "row_length key_schema key_row_2 = 12"
  by (simp_all add: row_length_def layout_eval)

lemma key_rows_text:
  "key_join (map key_text key_row_1) = bytes_of ''-7|ab''"
  "key_join (map key_text key_row_2) = bytes_of ''12|!N@U#L$L%''"
  by code_simp+

theorem KeyGenerator_Gen_text_witness:
  "\<exists>m. encoded_row key_schema key_row_2 (replicate 12 0) = Some m \<and>
     KeyGenerator_Gen False (FnGenerator_new False (Some (\<lambda>row parameter. (0, m))) key_schema) mem_row Row_default =
       Some (bytes_of ''12|!N@U#L$L%'')"
proof -
  obtain m where m: "encoded_row key_schema key_row_2 (replicate 12 0) = Some m"
    using encoded_row_exists [OF key_rows_encodable(2), of "replicate 12 0"] key_rows_length by auto
  have "Row_size mem_row 0 \<noteq> Some 0" by (simp add: mem_row_def Row_size_def Row_of_slice_def slice_of_def)
  with m show ?thesis
    using KeyGenerator_Gen_text [OF key_rows_encodable(2) _ m, of "\<lambda>row parameter. (0, m)" mem_row Row_default]
      key_rows_length key_rows_text by simp
qed

theorem KeyGenerator_Gen_groups_witness:
  "\<exists>m m'. encoded_row key_schema key_row_1 (replicate 14 0) = Some m \<and>
     encoded_row key_schema key_row_2 (replicate 12 0) = Some m' \<and>
     KeyGenerator_Gen False (FnGenerator_new False (Some (\<lambda>row parameter. (0, if row = mem_row then m else m'))) key_schema)
       mem_row Row_default \<noteq>
     KeyGenerator_Gen False (FnGenerator_new False (Some (\<lambda>row parameter. (0, if row = mem_row then m else m'))) key_schema)
       (Row_of_slice (slice_of [8])) Row_default"
proof -
  obtain m m' where m: "encoded_row key_schema key_row_1 (replicate 14 0) = Some m"
    "encoded_row key_schema key_row_2 (replicate 12 0) = Some m'"
    using encoded_row_exists [OF key_rows_encodable(1), of "replicate 14 0"]
      encoded_row_exists [OF key_rows_encodable(2), of "replicate 12 0"] key_rows_length by auto
  let ?fn = "\<lambda>row parameter. (0, if row = mem_row then m else m')"
  let ?row = "Row_of_slice (slice_of [8])"
  have r: "Row_size mem_row 0 \<noteq> Some 0" "Row_size ?row 0 \<noteq> Some 0" "?row \<noteq> mem_row"
    by (simp_all add: mem_row_def Row_size_def Row_of_slice_def slice_of_def)
  have p: "list_all plain_key key_row_1" "list_all plain_key key_row_2" "key_row_1 \<noteq> key_row_2"
    by (simp_all add: key_row_1_def key_row_2_def plain_key_def token_bytes)
  show ?thesis
    using KeyGenerator_Gen_groups [OF key_rows_encodable _ m(1) _ m(2), of ?fn mem_row Row_default ?row] m r p key_rows_length
    by auto
qed

theorem KeyGenerator_GenConst_eq_Gen_witness:
  "\<exists>m. encoded_row key_schema key_row_1 (replicate 14 0) = Some m \<and>
     KeyGenerator_GenConst (\<lambda>_. []) (\<lambda>_. []) False (FnGenerator_new False (Some (\<lambda>parameter. (0, m))) key_schema) Row_default =
     KeyGenerator_Gen False (FnGenerator_new False (Some (\<lambda>row parameter. (0, m))) key_schema) mem_row Row_default"
proof -
  obtain m where m: "encoded_row key_schema key_row_1 (replicate 14 0) = Some m"
    using encoded_row_exists [OF key_rows_encodable(1), of "replicate 14 0"] key_rows_length by auto
  have "Row_size mem_row 0 \<noteq> Some 0" by (simp add: mem_row_def Row_size_def Row_of_slice_def slice_of_def)
  moreover have "\<forall>x. Some x \<in> set key_row_1 \<longrightarrow> const_cell x" by (simp add: key_row_1_def)
  ultimately show ?thesis
    using KeyGenerator_GenConst_eq_Gen [OF key_rows_encodable(1) _ m, of "\<lambda>parameter. (0, m)" Row_default
        "\<lambda>row parameter. (0, m)" mem_row "\<lambda>_. []" "\<lambda>_. []"] key_rows_length m by simp
qed


subsection \<open>Concrete generators\<close>

definition mem_row_2 :: Row where
  "mem_row_2 = Row_of_slice (slice_of [8])"

lemma mem_rows [simp]:
  "Row_size mem_row 0 \<noteq> Some 0" "Row_size mem_row_2 0 \<noteq> Some 0" "\<not> Row_empty mem_row" "\<not> Row_empty mem_row_2"
  "mem_row \<noteq> mem_row_2" "mem_row_2 \<noteq> mem_row"
  by (simp_all add: mem_row_def mem_row_2_def Row_size_def Row_of_slice_def slice_of_def Row_empty_def Slice_empty_def)

lemma key_rows_encoded:
  obtains m m' T T' where "enc_ok False key_schema key_row_1 T"
      "enc_mem False key_schema key_row_1 T (length key_schema) (length key_schema) m"
    and "enc_ok False key_schema key_row_2 T'"
      "enc_mem False key_schema key_row_2 T' (length key_schema) (length key_schema) m'"
proof -
  obtain m m' where m: "encoded_row key_schema key_row_1 (replicate 14 0) = Some m"
    "encoded_row key_schema key_row_2 (replicate 12 0) = Some m'"
    using encoded_row_exists [OF key_rows_encodable(1), of "replicate 14 0"]
      encoded_row_exists [OF key_rows_encodable(2), of "replicate 12 0"] key_rows_length by auto
  then show thesis
    using encoded_row_enc [OF key_rows_encodable(1) _ m(1)] encoded_row_enc [OF key_rows_encodable(2) _ m(2)]
      key_rows_length that by (metis length_replicate)
qed

text \<open>A key generator that tells the two rows apart.\<close>

lemma key_generator_exists:
  obtains g where "fg_Valid g" "\<And>p. KeyGenerator_Gen False g mem_row p = Some (bytes_of ''-7|ab'')"
    "\<And>p. KeyGenerator_Gen False g mem_row_2 p = Some (bytes_of ''12|!N@U#L$L%'')"
proof -
  obtain m m' T T' where 1: "enc_ok False key_schema key_row_1 T"
      "enc_mem False key_schema key_row_1 T (length key_schema) (length key_schema) m"
    and 2: "enc_ok False key_schema key_row_2 T'"
      "enc_mem False key_schema key_row_2 T' (length key_schema) (length key_schema) m'"
    by (rule key_rows_encoded)
  let ?fn = "\<lambda>row parameter. (0, if row = mem_row then m else m')"
  show thesis
    by (rule that [of "FnGenerator_new False (Some ?fn) key_schema"])
      (use Gen_enc [OF 1, of ?fn mem_row] Gen_enc [OF 2, of ?fn mem_row_2] key_rows_text in
        \<open>simp_all add: fg_Valid_def FnGenerator_new_def\<close>)
qed

lemma const_key_generator_exists:
  obtains g where "fg_Valid g" "\<And>ff fd p. KeyGenerator_GenConst ff fd False g p = Some (bytes_of ''-7|ab'')"
proof -
  obtain m m' T T' where 1: "enc_ok False key_schema key_row_1 T"
      "enc_mem False key_schema key_row_1 T (length key_schema) (length key_schema) m"
    and 2: "enc_ok False key_schema key_row_2 T'"
      "enc_mem False key_schema key_row_2 T' (length key_schema) (length key_schema) m'"
    by (rule key_rows_encoded)
  have "\<forall>x. Some x \<in> set key_row_1 \<longrightarrow> const_cell x" by (simp add: key_row_1_def)
  then show thesis
    by (intro that [of "FnGenerator_new False (Some (\<lambda>parameter. (0, m))) key_schema"])
      (use GenConst_enc [OF 1, of "\<lambda>parameter. (0, m)"] key_rows_text in
        \<open>simp_all add: fg_Valid_def FnGenerator_new_def\<close>)
qed

text \<open>An order and condition generator, from the number in the first column.\<close>

lemma order_generator_exists:
  obtains g where "fg_Valid g" "OrderGenerator_Gen g mem_row = Some (- 7)" "OrderGenerator_Gen g mem_row_2 = Some 12"
    "\<And>p. ConditionGenerator_Gen g mem_row p = Some True" "\<And>p. ConditionGenerator_Gen g mem_row_2 p = Some True"
proof -
  obtain m m' T T' where 1: "enc_ok False key_schema key_row_1 T"
      "enc_mem False key_schema key_row_1 T (length key_schema) (length key_schema) m"
    and 2: "enc_ok False key_schema key_row_2 T'"
      "enc_mem False key_schema key_row_2 T' (length key_schema) (length key_schema) m'"
    by (rule key_rows_encoded)
  let ?fn = "\<lambda>row parameter. (0, if row = mem_row then m else m')"
  have v: "order_value (key_row_1 ! 0) = - 7" "order_value (key_row_2 ! 0) = 12" "cond_value (key_row_1 ! 0)" "cond_value (key_row_2 ! 0)"
    by (simp_all add: order_value_def cond_value_def key_row_1_def key_row_2_def)
  show thesis
    by (rule that [of "FnGenerator_new False (Some ?fn) key_schema"])
      (use OrderGenerator_enc [OF 1, of ?fn mem_row] OrderGenerator_enc [OF 2, of ?fn mem_row_2]
         ConditionGenerator_enc [OF 1, of ?fn mem_row] ConditionGenerator_enc [OF 2, of ?fn mem_row_2] v in \<open>simp_all add: fg_Valid_def FnGenerator_new_def\<close>)
qed

theorem order_and_condition_values_witness:
  "\<exists>m. encoded_row key_schema key_row_1 (replicate 14 0) = Some m \<and>
     OrderGenerator_Gen (FnGenerator_new False (Some (\<lambda>row parameter. (0, m))) key_schema) mem_row = Some (- 7) \<and>
     ConditionGenerator_Gen (FnGenerator_new False (Some (\<lambda>row parameter. (0, m))) key_schema) mem_row Row_default = Some True"
proof -
  obtain m where m: "encoded_row key_schema key_row_1 (replicate 14 0) = Some m"
    using encoded_row_exists [OF key_rows_encodable(1), of "replicate 14 0"] key_rows_length by auto
  have "order_value (key_row_1 ! 0) = - 7" "cond_value (key_row_1 ! 0)"
    by (simp_all add: order_value_def cond_value_def key_row_1_def)
  with m show ?thesis
    using order_and_condition_values [OF key_rows_encodable(1) _ m, of "\<lambda>row parameter. (0, m)" mem_row Row_default]
      key_rows_length by simp
qed

end
