(* ===== verification/Runner_Sort.thy ===== *)
theory Runner_Sort
  imports Runner_Keys
begin

text \<open>
  The generators of \<open>runner.h\<close> that sort, partition, seek and filter tables. A null pointer is \<open>None\<close> of the
  inner option; the outer \<open>None\<close> is a call without a result.
\<close>

subsection \<open>Traversals\<close>

definition th_loop :: "TableHandler \<Rightarrow> (u64 \<Rightarrow> Row \<Rightarrow> 's \<Rightarrow> 's option) \<Rightarrow> 's \<Rightarrow> 's option option" where
  "th_loop t body s = do {
     it \<leftarrow> th_first t;
     case it of None \<Rightarrow> Some None | Some i \<Rightarrow> map_option Some (iter_loop (th_ops t) body i s)
   }"

text \<open>The segments of a partition, in the order of its window iterator; a null segment iterator is skipped.\<close>

definition seg_loop :: "PartitionHandler \<Rightarrow> mem_iter \<Rightarrow> (u64 \<Rightarrow> Row \<Rightarrow> 's \<Rightarrow> 's option) \<Rightarrow> 's \<Rightarrow> 's option" where
  "seg_loop p it body s = do {
     i \<leftarrow> op_SeekToFirst (ph_ops p) it;
     iter_loop (ph_ops p) body i s
   }"

definition ph_loop :: "PartitionHandler \<Rightarrow> (byte list \<Rightarrow> u64 \<Rightarrow> Row \<Rightarrow> 's \<Rightarrow> 's option) \<Rightarrow> 's \<Rightarrow> 's option" where
  "ph_loop p body s =
     fold_opt (\<lambda>(key, seg) s. case seg of None \<Rightarrow> Some s | Some it \<Rightarrow> seg_loop p it (body key) s) (ph_windows p) s"

subsection \<open>SortGenerator\<close>

record SortGenerator =
  so_is_valid :: bool
  so_is_asc :: bool
  so_order_gen :: "row_fn FnGenerator"

definition so_asc :: "SortGenerator \<Rightarrow> bool \<Rightarrow> bool" where
  "so_asc g reverse = (if reverse then \<not> so_is_asc g else so_is_asc g)"

definition sort_row :: "SortGenerator \<Rightarrow> u64 \<Rightarrow> Row \<Rightarrow> MemTimeTableHandler \<Rightarrow> MemTimeTableHandler option" where
  "sort_row g k v out =
     (if fg_Valid (so_order_gen g) then do {
        key \<leftarrow> OrderGenerator_Gen (so_order_gen g) v;
        Some (mt_AddRow key v out)
      } else Some (mt_AddRow k v out))"

definition Sort_table :: "SortGenerator \<Rightarrow> TableHandler option \<Rightarrow> bool \<Rightarrow> TableHandler option option" where
  "Sort_table g table reverse =
     (case table of
        None \<Rightarrow> Some None
      | Some t \<Rightarrow>
          if \<not> so_is_valid g then Some table
          else if \<not> fg_Valid (so_order_gen g) \<and> (so_asc g reverse \<longleftrightarrow> th_order t = kAscOrder) then Some table
          else do {
            res \<leftarrow> th_loop t (sort_row g) \<lparr>mt_table = [], mt_order_type = th_order t\<rparr>;
            case res of
              None \<Rightarrow> Some None
            | Some out \<Rightarrow>
                if fg_Valid (so_order_gen g) then Some (Some (time_table (mt_Sort (so_asc g reverse) out)))
                else (case th_order t of
                        kDescOrder \<Rightarrow> Some (Some (time_table (if so_asc g reverse then mt_Reverse out else out)))
                      | kAscOrder \<Rightarrow> Some (Some (time_table (if \<not> so_asc g reverse then mt_Reverse out else out)))
                      | _ \<Rightarrow> Some None)
          })"

text \<open>One round of the loop over the segments in \<open>Sort\<close> on a partition: the windows still ahead of the window
  iterator and the output. Only a null segment moves the iterator on.\<close>

fun sort_segment :: "SortGenerator \<Rightarrow> PartitionHandler \<Rightarrow> (byte list \<times> mem_iter option) list \<times> MemPartitionHandler
    \<Rightarrow> ((byte list \<times> mem_iter option) list \<times> MemPartitionHandler) option" where
  "sort_segment g p ([], out) = Some ([], out)"
| "sort_segment g p ((key, None) # ws, out) = Some (ws, out)"
| "sort_segment g p ((key, Some it) # ws, out) = do {
     out' \<leftarrow> seg_loop p it (\<lambda>k v out. do {
        ts \<leftarrow> OrderGenerator_Gen (so_order_gen g) v;
        Some (snd (mp_AddRow key ts v out))
      }) out;
     Some ((key, Some it) # ws, out')
   }"

partial_function (option) sort_segments :: "SortGenerator \<Rightarrow> PartitionHandler
    \<Rightarrow> (byte list \<times> mem_iter option) list \<Rightarrow> MemPartitionHandler \<Rightarrow> MemPartitionHandler option" where
  "sort_segments g p ws out =
     (if ws = [] then Some out
      else do { (ws', out') \<leftarrow> sort_segment g p (ws, out); sort_segments g p ws' out' })"

definition Sort_partition :: "SortGenerator \<Rightarrow> PartitionHandler option \<Rightarrow> bool \<Rightarrow> PartitionHandler option option" where
  "Sort_partition g table reverse =
     (if \<not> so_is_valid g then Some table
      else case table of
        None \<Rightarrow> Some None
      | Some p \<Rightarrow>
          if \<not> fg_Valid (so_order_gen g) \<and> (so_asc g reverse \<longleftrightarrow> ph_order p = kAscOrder) then Some table
          else do {
            out \<leftarrow> sort_segments g p (ph_windows p) MemPartitionHandler_new;
            Some (Some (mem_partition
              (if fg_Valid (so_order_gen g) then mp_Sort (so_asc g reverse) out
               else if so_asc g reverse \<and> kDescOrder = ph_order p then mp_Reverse out
               else out)))
          })"

definition Sort_data :: "SortGenerator \<Rightarrow> DataHandler option \<Rightarrow> bool \<Rightarrow> DataHandler option option" where
  "Sort_data g input reverse =
     (case input of
        None \<Rightarrow> Some None
      | Some d \<Rightarrow>
          if \<not> so_is_valid g \<or> \<not> fg_Valid (so_order_gen g) then Some input
          else (case d of
            TableH t \<Rightarrow> map_option (map_option TableH) (Sort_table g (Some t) reverse)
          | PartitionH p \<Rightarrow> map_option (map_option PartitionH) (Sort_partition g (Some p) reverse)
          | RowH _ \<Rightarrow> Some None))"

subsection \<open>PartitionGenerator\<close>

type_synonym PartitionGenerator = "row_fn FnGenerator"

definition Partition_partition :: "bool \<Rightarrow> PartitionGenerator \<Rightarrow> PartitionHandler option \<Rightarrow> Row \<Rightarrow> PartitionHandler option option" where
  "Partition_partition spark g table parameter =
     (if \<not> fg_Valid g then Some table
      else case table of
        None \<Rightarrow> Some None
      | Some p \<Rightarrow> do {
          out \<leftarrow> ph_loop p (\<lambda>segment_key k v out. do {
              keys \<leftarrow> KeyGenerator_Gen spark g v parameter;
              Some (snd (mp_AddRow (segment_key @ bytes_of ''|'' @ keys) k v out))
            }) (MemPartitionHandler_new\<lparr>mp_order_type := ph_order p\<rparr>);
          Some (Some (mem_partition out))
        })"

definition Partition_table :: "bool \<Rightarrow> PartitionGenerator \<Rightarrow> TableHandler option \<Rightarrow> Row \<Rightarrow> PartitionHandler option option" where
  "Partition_table spark g table parameter =
     (if \<not> fg_Valid g then Some None
      else case table of
        None \<Rightarrow> Some None
      | Some t \<Rightarrow> do {
          res \<leftarrow> th_loop t (\<lambda>k v out. do {
              keys \<leftarrow> KeyGenerator_Gen spark g v parameter;
              Some (snd (mp_AddRow keys k v out))
            }) MemPartitionHandler_new;
          case res of
            None \<Rightarrow> Some None
          | Some out \<Rightarrow> Some (Some (mem_partition (out\<lparr>mp_order_type := th_order t\<rparr>)))
        })"

definition Partition_data :: "bool \<Rightarrow> PartitionGenerator \<Rightarrow> DataHandler \<Rightarrow> Row \<Rightarrow> PartitionHandler option option" where
  "Partition_data spark g input parameter =
     (case input of
        PartitionH p \<Rightarrow> Partition_partition spark g (Some p) parameter
      | TableH t \<Rightarrow> Partition_table spark g (Some t) parameter
      | RowH _ \<Rightarrow> Some None)"

subsection \<open>Seeking and filtering\<close>

definition SegmnetOfConstKey :: "(u32 \<Rightarrow> byte list) \<Rightarrow> (u64 \<Rightarrow> byte list) \<Rightarrow> bool \<Rightarrow> const_fn FnGenerator \<Rightarrow> Row
    \<Rightarrow> DataHandler option \<Rightarrow> TableHandler option option" where
  "SegmnetOfConstKey ff fd spark g parameter input =
     (case input of
        None \<Rightarrow> Some None
      | Some d \<Rightarrow>
          if \<not> fg_Valid g then (case d of TableH t \<Rightarrow> Some (Some t) | _ \<Rightarrow> Some None)
          else (case d of
            PartitionH p \<Rightarrow> do {
              key \<leftarrow> KeyGenerator_GenConst ff fd spark g parameter;
              Some (Some (ph_segment p key))
            }
          | _ \<Rightarrow> Some None))"

definition SegmentOfKey :: "bool \<Rightarrow> row_fn FnGenerator \<Rightarrow> Row \<Rightarrow> Row \<Rightarrow> DataHandler option \<Rightarrow> TableHandler option option" where
  "SegmentOfKey spark g row parameter input =
     (case input of
        None \<Rightarrow> Some None
      | Some d \<Rightarrow>
          if Row_empty row then Some None
          else if \<not> fg_Valid g then (case d of TableH t \<Rightarrow> Some (Some t) | _ \<Rightarrow> Some None)
          else (case d of
            PartitionH p \<Rightarrow> do {
              key \<leftarrow> KeyGenerator_Gen spark g row parameter;
              Some (Some (ph_segment p key))
            }
          | _ \<Rightarrow> Some None))"

record FilterGenerator =
  fi_condition_gen :: "row_fn FnGenerator"
  fi_index_seek_gen :: "const_fn FnGenerator"

definition fi_Valid :: "FilterGenerator \<Rightarrow> bool" where
  "fi_Valid g = (fg_Valid (fi_index_seek_gen g) \<or> fg_Valid (fi_condition_gen g))"

definition fi_apply :: "FilterGenerator \<Rightarrow> Row \<Rightarrow> Row \<Rightarrow> bool option" where
  "fi_apply g parameter row =
     (if \<not> fi_Valid g then Some True else ConditionGenerator_Gen (fi_condition_gen g) row parameter)"

definition Filter_table :: "FilterGenerator \<Rightarrow> TableHandler option \<Rightarrow> Row \<Rightarrow> TableHandler option" where
  "Filter_table g table parameter =
     (case table of
        None \<Rightarrow> None
      | Some t \<Rightarrow> if \<not> fg_Valid (fi_condition_gen g) then table
                  else Some (TableFilterWrapper (fi_apply g parameter) t))"

definition Filter_partition :: "(u32 \<Rightarrow> byte list) \<Rightarrow> (u64 \<Rightarrow> byte list) \<Rightarrow> bool \<Rightarrow> FilterGenerator
    \<Rightarrow> PartitionHandler option \<Rightarrow> Row \<Rightarrow> TableHandler option option" where
  "Filter_partition ff fd spark g table parameter = do {
     segment \<leftarrow> SegmnetOfConstKey ff fd spark (fi_index_seek_gen g) parameter (map_option PartitionH table);
     Some (Filter_table g segment parameter)
   }"

text \<open>\<open>FilterKeyGenerator\<close>, a key generator that keeps the rows of one key.\<close>

definition filter_key_row :: "bool \<Rightarrow> row_fn FnGenerator \<Rightarrow> Row \<Rightarrow> byte list \<Rightarrow> u64 \<Rightarrow> Row
    \<Rightarrow> MemTimeTableHandler \<Rightarrow> MemTimeTableHandler option" where
  "filter_key_row spark g parameter request_keys k v out = do {
     keys \<leftarrow> KeyGenerator_Gen spark g v parameter;
     Some (if request_keys = keys then mt_AddRow k v out else out)
   }"

text \<open>A null \<open>table\<close> is dereferenced.\<close>

definition FilterKey_Filter :: "bool \<Rightarrow> row_fn FnGenerator \<Rightarrow> Row \<Rightarrow> TableHandler option \<Rightarrow> byte list \<Rightarrow> TableHandler option option" where
  "FilterKey_Filter spark g parameter table request_keys =
     (if \<not> fg_Valid g then Some table
      else do {
        t \<leftarrow> table;
        let out = \<lparr>mt_table = [], mt_order_type = th_order t\<rparr>;
        res \<leftarrow> th_loop t (filter_key_row spark g parameter request_keys) out;
        Some (Some (time_table (case res of None \<Rightarrow> out | Some out' \<Rightarrow> out')))
      })"

definition FilterKey_GetKey :: "bool \<Rightarrow> row_fn FnGenerator \<Rightarrow> Row \<Rightarrow> Row \<Rightarrow> byte list option" where
  "FilterKey_GetKey spark g row parameter = (if fg_Valid g then KeyGenerator_Gen spark g row parameter else Some [])"

record RequestWindowGenertor =
  rw_filter_gen :: "row_fn FnGenerator"
  rw_sort_gen :: SortGenerator
  rw_range_gen :: "row_fn FnGenerator"
  rw_index_seek_gen :: "row_fn FnGenerator"

definition GetRequestWindow :: "bool \<Rightarrow> RequestWindowGenertor \<Rightarrow> Row \<Rightarrow> Row \<Rightarrow> DataHandler option \<Rightarrow> TableHandler option option" where
  "GetRequestWindow spark g row parameter input = do {
     segment \<leftarrow> SegmentOfKey spark (rw_index_seek_gen g) row parameter input;
     segment \<leftarrow> (if fg_Valid (rw_filter_gen g) then do {
         filter_key \<leftarrow> FilterKey_GetKey spark (rw_filter_gen g) row parameter;
         FilterKey_Filter spark (rw_filter_gen g) parameter segment filter_key
       } else Some segment);
     if so_is_valid (rw_sort_gen g) then Sort_table (rw_sort_gen g) segment True else Some segment
   }"

definition TableReverse :: "TableHandler option \<Rightarrow> TableHandler option option" where
  "TableReverse table =
     (case table of
        None \<Rightarrow> Some None
      | Some t \<Rightarrow> map_option (map_option (\<lambda>out. time_table (mt_Reverse out)))
          (th_loop t (\<lambda>k v out. Some (mt_AddRow k v out)) MemTimeTableHandler_new))"

subsection \<open>Traversals as folds\<close>

lemma fold_opt_total:
  "(\<And>x s. x \<in> set xs \<Longrightarrow> f x s = Some (g x s)) \<Longrightarrow> fold_opt f xs s = Some (fold g xs s)"
  by (induction xs arbitrary: s) simp_all

lemma th_loop_has:
  assumes "table_has t xs"
  shows "th_loop t body s = map_option Some (fold_opt (\<lambda>(k, v). body k v) xs s)"
proof -
  obtain it where "th_first t = Some (Some it)" "iter_loop (th_ops t) body it s = fold_opt (\<lambda>(k, v). body k v) xs s"
    using table_loop [OF assms] by metis
  then show ?thesis by (simp add: th_loop_def)
qed

lemma th_loop_null: "th_iter t = None \<Longrightarrow> th_loop t body s = Some None"
  by (simp add: th_loop_def th_first_def)

text \<open>The rows of a table; a table whose iterator is null has none.\<close>

definition table_rows :: "TableHandler \<Rightarrow> MemTimeTable \<Rightarrow> bool" where
  "table_rows t xs \<longleftrightarrow> table_has t xs \<or> th_iter t = None \<and> xs = []"

lemma th_loop_rows:
  assumes "table_rows t xs" and "\<And>k v s. (k, v) \<in> set xs \<Longrightarrow> body k v s = Some (f k v s)"
  shows "th_loop t body s = Some (if th_iter t = None then None else Some (fold (\<lambda>(k, v). f k v) xs s))"
proof (cases "table_has t xs")
  case True
  then have "th_iter t \<noteq> None" by (auto simp: table_has_def)
  moreover have "fold_opt (\<lambda>(k, v). body k v) xs s = Some (fold (\<lambda>(k, v). f k v) xs s)"
    using assms(2) by (intro fold_opt_total) auto
  ultimately show ?thesis using th_loop_has [OF True, of body s] by auto
next
  case False
  then show ?thesis using assms(1) by (simp add: table_rows_def th_loop_null)
qed

lemma segment_table_rows: "table_rows (segment_table h key) (seg_rows key h)"
  using segment_table_has [of key h]
  by (cases "seg_find key (mp_partitions h)") (auto simp: table_rows_def seg_rows_def)

lemma fold_AddRow:
  "fold (\<lambda>(k, v). mt_AddRow (f k v) v) xs h = h\<lparr>mt_table := mt_table h @ map (\<lambda>(k, v). (f k v, v)) xs\<rparr>"
  by (induction xs arbitrary: h) (auto simp: mt_AddRow_def)

lemma fold_mp_AddRow:
  "fold (\<lambda>(k, v) out. snd (mp_AddRow (f v) k v out)) xs h = mp_AddRows (map (\<lambda>(k, v). (f v, k, v)) xs) h"
  by (induction xs arbitrary: h) (auto simp: mp_AddRows_def)

subsection \<open>Sorting\<close>

definition order_keys :: "SortGenerator \<Rightarrow> MemTimeTable \<Rightarrow> MemTimeTable" where
  "order_keys g xs = map (\<lambda>(k, v). (the (OrderGenerator_Gen (so_order_gen g) v), v)) xs"

definition sort_key_cmp :: "bool \<Rightarrow> u64 \<times> Row \<Rightarrow> u64 \<times> Row \<Rightarrow> bool" where
  "sort_key_cmp asc = (if asc then AscComparor else DescComparor)"

lemma Sort_table_order:
  assumes "table_rows t xs" and "so_is_valid g" and "fg_Valid (so_order_gen g)"
    and "defined_on (OrderGenerator_Gen (so_order_gen g)) xs"
  shows "Sort_table g (Some t) reverse =
    Some (if th_iter t = None then None
          else Some (time_table \<lparr>mt_table = std_sort (sort_key_cmp (so_asc g reverse)) (order_keys g xs),
                 mt_order_type = (if so_asc g reverse then kAscOrder else kDescOrder)\<rparr>))"
proof -
  have "th_loop t (sort_row g) s = Some (if th_iter t = None then None
      else Some (fold (\<lambda>(k, v). mt_AddRow (the (OrderGenerator_Gen (so_order_gen g) v)) v) xs s))" for s
    using assms(4) by (intro th_loop_rows [OF assms(1)]) (auto simp: sort_row_def assms(3) defined_on_def)
  moreover have "fold (\<lambda>(k, v). mt_AddRow (the (OrderGenerator_Gen (so_order_gen g) v)) v) xs \<lparr>mt_table = [], mt_order_type = o'\<rparr> =
      \<lparr>mt_table = order_keys g xs, mt_order_type = o'\<rparr>" for o'
    by (simp add: fold_AddRow order_keys_def)
  ultimately show ?thesis
    using assms(2,3) by (simp add: Sort_table_def mt_Sort_def sort_key_cmp_def)
qed

subsection \<open>Partitioning\<close>

definition key_of :: "bool \<Rightarrow> row_fn FnGenerator \<Rightarrow> Row \<Rightarrow> Row \<Rightarrow> byte list" where
  "key_of spark g parameter row = the (KeyGenerator_Gen spark g row parameter)"

definition keys_defined :: "bool \<Rightarrow> row_fn FnGenerator \<Rightarrow> Row \<Rightarrow> MemTimeTable \<Rightarrow> bool" where
  "keys_defined spark g parameter xs = defined_on (\<lambda>row. KeyGenerator_Gen spark g row parameter) xs"

definition group_rows :: "bool \<Rightarrow> row_fn FnGenerator \<Rightarrow> Row \<Rightarrow> MemTimeTable \<Rightarrow> byte list \<Rightarrow> MemTimeTable" where
  "group_rows spark g parameter xs key = filter (\<lambda>p. key_of spark g parameter (snd p) = key) xs"

lemma mp_new_facts: "seg_sorted (mp_partitions MemPartitionHandler_new)" "seg_rows key MemPartitionHandler_new = []"
  by (simp_all add: MemPartitionHandler_new_def seg_sorted_def seg_rows_def)

lemma seg_rows_order [simp]: "seg_rows key (h\<lparr>mp_order_type := o'\<rparr>) = seg_rows key h"
  by (simp add: seg_rows_def)

lemma mp_AddRows_keys: "fst ` set (mp_partitions (mp_AddRows ps h)) = fst ` set (mp_partitions h) \<union> fst ` set ps"
proof (induction ps arbitrary: h)
  case (Cons p ps)
  then show ?case by (cases p) (auto simp: mp_AddRows_def mp_AddRow_put seg_put_fst)
qed (simp add: mp_AddRows_def)

lemma Partition_table_groups:
  assumes "table_has t xs" and "fg_Valid g" and "keys_defined spark g parameter xs"
  obtains h where "Partition_table spark g (Some t) parameter = Some (Some (mem_partition h))"
    "seg_sorted (mp_partitions h)" "\<And>key. seg_rows key h = group_rows spark g parameter xs key" "mp_order_type h = th_order t"
    "fst ` set (mp_partitions h) = key_of spark g parameter ` snd ` set xs"
proof -
  let ?ps = "map (\<lambda>(k, v). (key_of spark g parameter v, k, v)) xs"
  let ?h = "(mp_AddRows ?ps MemPartitionHandler_new)\<lparr>mp_order_type := th_order t\<rparr>"
  have "th_iter t \<noteq> None" using assms(1) by (auto simp: table_has_def)
  moreover have "th_loop t (\<lambda>k v out. do {
          keys \<leftarrow> KeyGenerator_Gen spark g v parameter;
          Some (snd (mp_AddRow keys k v out))
        }) s = Some (if th_iter t = None then None
        else Some (fold (\<lambda>(k, v) out. snd (mp_AddRow (key_of spark g parameter v) k v out)) xs s))" for s
    using assms(1,3) by (intro th_loop_rows) (auto simp: table_rows_def keys_defined_def defined_on_def key_of_def)
  ultimately have "Partition_table spark g (Some t) parameter = Some (Some (mem_partition ?h))"
    using assms(2) by (auto simp: Partition_table_def fold_mp_AddRow)
  moreover have "seg_sorted (mp_partitions ?h)" using mp_AddRows_rows(1) [OF mp_new_facts(1)] by simp
  moreover have "map snd (filter (\<lambda>p. fst p = key) ?ps) = group_rows spark g parameter xs key" for key
    by (induction xs) (auto simp: group_rows_def)
  then have "seg_rows key ?h = group_rows spark g parameter xs key" for key
    by (simp add: mp_AddRows_rows(2) [OF mp_new_facts(1)] mp_new_facts(2))
  moreover have "fst ` set ?ps = key_of spark g parameter ` snd ` set xs" by force
  then have "fst ` set (mp_partitions ?h) = key_of spark g parameter ` snd ` set xs"
    by (simp add: mp_AddRows_keys MemPartitionHandler_new_def)
  ultimately show thesis using that by simp
qed

subsection \<open>The loop over the segments of a partition\<close>

lemma sort_segments_none:
  assumes "sort_segments g p ws out = Some out'"
  shows "\<forall>w \<in> set ws. snd w = None"
proof (rule sort_segments.raw_induct [OF _ assms])
  fix loop g p ws out out'
  assume 1: "\<And>g p ws out out'. loop g p ws out = Some out' \<Longrightarrow> \<forall>w \<in> set ws. snd w = None"
    "(if ws = [] then Some out else do { (ws', out') \<leftarrow> sort_segment g p (ws, out); loop g p ws' out' }) = Some out'"
  show "\<forall>w \<in> set (ws :: (byte list \<times> mem_iter option) list). snd w = None"
  proof (cases ws)
    case (Cons w ws')
    then obtain key seg where w: "w = (key, seg)" by (cases w)
    show ?thesis
    proof (cases seg)
      case None
      then have "loop g p ws' out = Some out'" using 1(2) Cons w by simp
      then show ?thesis using 1(1) None Cons w by auto
    next
      case (Some it)
      then obtain out1 where "loop g p ws out1 = Some out'"
        using 1(2) Cons w by (auto simp: bind_eq_Some_conv)
      then show ?thesis using 1(1) by blast
    qed
  qed simp
qed

lemma sort_segment_again:
  assumes "seg_loop p it (\<lambda>k v out. do {
      ts \<leftarrow> OrderGenerator_Gen (so_order_gen g) v;
      Some (snd (mp_AddRow key ts v out))
    }) out = Some out'"
  shows "sort_segment g p ((key, Some it) # ws, out) = Some ((key, Some it) # ws, out')"
  using assms by simp

text \<open>The rows of a segment under their order keys.\<close>

lemma seg_loop_rows:
  assumes "rows_iterator (ph_ops p) ok rest whole" and "ok it" and "whole it = xs"
    and "defined_on (OrderGenerator_Gen (so_order_gen g)) xs"
  shows "seg_loop p it (\<lambda>k v out. do {
      ts \<leftarrow> OrderGenerator_Gen (so_order_gen g) v;
      Some (snd (mp_AddRow key ts v out))
    }) out = Some (mp_AddRows (map (\<lambda>(k, v). (key, k, v)) (order_keys g xs)) out)"
proof -
  note i = rows_iterator.axioms [OF assms(1)]
  obtain it' where it': "op_SeekToFirst (ph_ops p) it = Some it'" "ok it'" "rest it' = xs"
    using row_iterator.first_rest [OF i assms(2)] assms(3) by auto
  have "fold_opt (\<lambda>(k, v) out. do {
      ts \<leftarrow> OrderGenerator_Gen (so_order_gen g) v;
      Some (snd (mp_AddRow key ts v out))
    }) xs s = Some (fold (\<lambda>(k, v) out. snd (mp_AddRow key (the (OrderGenerator_Gen (so_order_gen g) v)) v out)) xs s)" for s
    using assms(4) by (intro fold_opt_total) (auto simp: defined_on_def)
  moreover have "fold (\<lambda>(k, v) out. snd (mp_AddRow key (the (OrderGenerator_Gen (so_order_gen g) v)) v out)) xs s =
      mp_AddRows (map (\<lambda>(k, v). (key, k, v)) (order_keys g xs)) s" for s
    by (induction xs arbitrary: s) (auto simp: mp_AddRows_def order_keys_def)
  moreover have "iter_loop (ph_ops p) body it' out = fold_opt (\<lambda>(k, v). body k v) xs out" for body
    using row_iterator.loop_rest [OF i it'(2)] it'(3) by simp
  ultimately show ?thesis using it'(1) by (simp add: seg_loop_def)
qed

subsection \<open>The contract of a partition\<close>

definition segs_rows :: "MemSegmentMap \<Rightarrow> byte list \<Rightarrow> MemTimeTable" where
  "segs_rows segs key = (case map_of segs key of None \<Rightarrow> [] | Some xs \<Rightarrow> xs)"

definition partition_has :: "PartitionHandler \<Rightarrow> MemSegmentMap \<Rightarrow> bool" where
  "partition_has p segs \<longleftrightarrow>
     (\<exists>ok rest whole. rows_iterator (ph_ops p) ok rest whole \<and>
        list_all2 (\<lambda>w s. fst w = fst s \<and> (\<exists>it. snd w = Some it \<and> ok it \<and> set (rest it) \<subseteq> set (snd s) \<and> whole it = snd s))
          (ph_windows p) segs) \<and>
     (\<forall>key. table_rows (ph_segment p key) (segs_rows segs key))"

lemma seg_sorted_find: "seg_sorted m \<Longrightarrow> seg_find key m = map_of m key"
proof (induction key m rule: seg_find.induct)
  case (2 key k t m)
  then show ?case by (auto simp: seg_sorted_Cons dest: map_of_SomeD)
qed simp

lemma mem_partition_has:
  assumes "seg_sorted (mp_partitions h)"
  shows "partition_has (mem_partition h) (mp_partitions h)"
proof -
  have "rows_iterator (ph_ops (mem_partition h)) mi_ok mi_rest mi_whole"
    unfolding mem_partition_def PartitionHandler.simps by unfold_locales
  moreover have "list_all2 (\<lambda>w s. fst w = fst s \<and> (\<exists>it. snd w = Some it \<and> mi_ok it \<and> set (mi_rest it) \<subseteq> set (snd s) \<and> mi_whole it = snd s))
      (ph_windows (mem_partition h)) (mp_partitions h)"
    by (auto simp: mem_partition_def list_all2_map1 list_all2_same mi_ok_def mi_rest_def mi_whole_def ti_new)
  moreover have "table_rows (ph_segment (mem_partition h) key) (segs_rows (mp_partitions h) key)" for key
    using segment_table_rows [of h key] seg_sorted_find [OF assms, of key]
    by (simp add: mem_partition_def segs_rows_def seg_rows_def)
  ultimately show ?thesis unfolding partition_has_def by blast
qed

lemma ph_loop_has:
  assumes "partition_has p segs"
  shows "ph_loop p body s = fold_opt (\<lambda>(key, xs). fold_opt (\<lambda>(k, v). body key k v) xs) segs s"
proof -
  obtain ok rest whole where i: "rows_iterator (ph_ops p) ok rest whole"
    and w: "list_all2 (\<lambda>w s. fst w = fst s \<and> (\<exists>it. snd w = Some it \<and> ok it \<and> set (rest it) \<subseteq> set (snd s) \<and> whole it = snd s))
        (ph_windows p) segs" using assms unfolding partition_has_def by blast
  note i = rows_iterator.axioms [OF i]
  have l: "seg_loop p it body' s = fold_opt (\<lambda>(k, v). body' k v) xs s"
    if it: "ok it" "whole it = xs" for it xs body' and s :: 'a
  proof -
    obtain it' where "op_SeekToFirst (ph_ops p) it = Some it'" "ok it'" "rest it' = xs"
      using row_iterator.first_rest [OF i it(1)] it(2) by auto
    then show ?thesis using row_iterator.loop_rest [OF i, of it' body' s] by (simp add: seg_loop_def)
  qed
  have "fold_opt (\<lambda>(key, seg) s. case seg of None \<Rightarrow> Some s | Some it \<Rightarrow> seg_loop p it (body key) s) ws s =
      fold_opt (\<lambda>(key, xs). fold_opt (\<lambda>(k, v). body key k v) xs) segs s"
    if "list_all2 (\<lambda>w s. fst w = fst s \<and> (\<exists>it. snd w = Some it \<and> ok it \<and> set (rest it) \<subseteq> set (snd s) \<and> whole it = snd s))
        ws segs" for ws segs and s :: 'a
    using that
  proof (induction arbitrary: s rule: list_all2_induct)
    case (Cons w ws g gs)
    then obtain key it xs where "w = (key, Some it)" "g = (key, xs)" "ok it" "whole it = xs" by (cases w; cases g) auto
    moreover have "fold_opt (\<lambda>(key, seg) s. case seg of None \<Rightarrow> Some s | Some it \<Rightarrow> seg_loop p it (body key) s) ws =
        fold_opt (\<lambda>(key, xs). fold_opt (\<lambda>(k, v). body key k v) xs) gs"
      by (rule ext) (rule Cons.IH)
    ultimately show ?case using l [of it xs "body key" s] by simp
  qed simp
  from this [OF w] show ?thesis by (simp add: ph_loop_def)
qed

subsection \<open>Properties\<close>

lemma mp_AddRows_append: "mp_AddRows (as @ bs) h = mp_AddRows bs (mp_AddRows as h)"
  by (simp add: mp_AddRows_def)

text \<open>C32. GROUP BY: partitioning a table puts every row into the segment of its key. The segment of a key, read
  through its handler, has exactly the rows with that key, in the table's order.\<close>

theorem Partition_groups_rows:
  assumes "table_has t xs" and "fg_Valid g" and "keys_defined spark g parameter xs"
  shows "\<exists>p. Partition_data spark g (TableH t) parameter = Some (Some p) \<and> ph_order p = th_order t \<and>
    (\<forall>key. table_rows (ph_segment p key) (filter (\<lambda>r. KeyGenerator_Gen spark g (snd r) parameter = Some key) xs))"
proof -
  obtain h where h: "Partition_table spark g (Some t) parameter = Some (Some (mem_partition h))"
    "seg_sorted (mp_partitions h)" "\<And>key. seg_rows key h = group_rows spark g parameter xs key" "mp_order_type h = th_order t"
    by (rule Partition_table_groups [OF assms]) blast
  have "group_rows spark g parameter xs key = filter (\<lambda>r. KeyGenerator_Gen spark g (snd r) parameter = Some key) xs" for key
    using assms(3) by (auto simp: group_rows_def keys_defined_def defined_on_def key_of_def intro!: filter_cong)
  then have "table_rows (ph_segment (mem_partition h) key) (filter (\<lambda>r. KeyGenerator_Gen spark g (snd r) parameter = Some key) xs)" for key
    using segment_table_rows [of h key] h(3) by (simp add: mem_partition_def)
  moreover have "ph_order (mem_partition h) = th_order t" using h(4) by (simp add: mem_partition_def)
  ultimately show ?thesis using h(1) by (auto simp: Partition_data_def)
qed

lemma filter_wrapper_rows:
  assumes "table_rows t xs" and "defined_on pred xs"
  shows "table_rows (TableFilterWrapper pred t) (filter (holds pred) xs)"
  using assms filter_wrapper_has [of t xs pred] by (auto simp: table_rows_def TableFilterWrapper_def)

text \<open>C33. An index seek by a constant key followed by the filter's condition gives the rows a scan of the whole table
  would keep: those whose key is the constant and which satisfy the condition, in the table's order.\<close>

theorem index_filter_eq_scan:
  assumes "table_has t xs" and "fg_Valid g" and "keys_defined spark g parameter xs"
    and "fg_Valid (fi_index_seek_gen f)" and "fg_Valid (fi_condition_gen f)"
    and "KeyGenerator_GenConst ff fd spark (fi_index_seek_gen f) parameter = Some c"
    and "defined_on (\<lambda>row. ConditionGenerator_Gen (fi_condition_gen f) row parameter) xs"
  shows "\<exists>p seg. Partition_data spark g (TableH t) parameter = Some (Some p) \<and>
    Filter_partition ff fd spark f (Some p) parameter = Some (Some seg) \<and>
    table_rows seg (filter (\<lambda>r. KeyGenerator_Gen spark g (snd r) parameter = Some c \<and>
      ConditionGenerator_Gen (fi_condition_gen f) (snd r) parameter = Some True) xs)"
proof -
  obtain h where h: "Partition_table spark g (Some t) parameter = Some (Some (mem_partition h))"
    "seg_sorted (mp_partitions h)" "\<And>key. seg_rows key h = group_rows spark g parameter xs key" "mp_order_type h = th_order t"
    by (rule Partition_table_groups [OF assms(1-3)]) blast
  have a: "fi_apply f parameter = (\<lambda>row. ConditionGenerator_Gen (fi_condition_gen f) row parameter)"
    using assms(4) by (auto simp: fi_apply_def fi_Valid_def)
  have "defined_on (fi_apply f parameter) (seg_rows c h)"
    using assms(7) by (auto simp: a h(3) group_rows_def defined_on_def)
  then have "table_rows (TableFilterWrapper (fi_apply f parameter) (segment_table h c))
      (filter (holds (fi_apply f parameter)) (seg_rows c h))"
    by (rule filter_wrapper_rows [OF segment_table_rows])
  moreover have "filter (holds (fi_apply f parameter)) (seg_rows c h) =
      filter (\<lambda>r. KeyGenerator_Gen spark g (snd r) parameter = Some c \<and>
        ConditionGenerator_Gen (fi_condition_gen f) (snd r) parameter = Some True) xs"
    unfolding h(3) group_rows_def filter_filter
    using assms(3)
    by (intro filter_cong) (auto simp: a keys_defined_def defined_on_def key_of_def holds_def)
  ultimately show ?thesis
    using h(1) assms(4-6)
    by (auto simp: Partition_data_def Filter_partition_def SegmnetOfConstKey_def Filter_table_def mem_partition_def)
qed

text \<open>C34. Sorting a partition by an order expression does not return when the partition has a segment: the loop over
  the segments never moves its iterator. After any number of rounds it is still at the first segment, whose rows it has
  added once per round.\<close>

theorem Sort_partition_never_ends:
  assumes "mp_partitions h = (key, xs) # ps" and "so_is_valid g" and "fg_Valid (so_order_gen g)"
    and "defined_on (OrderGenerator_Gen (so_order_gen g)) xs"
  shows "Sort_partition g (Some (mem_partition h)) reverse = None \<and>
    ((\<lambda>st. Option.bind st (sort_segment g (mem_partition h))) ^^ n) (Some (ph_windows (mem_partition h), MemPartitionHandler_new)) =
      Some (ph_windows (mem_partition h),
        mp_AddRows (concat (replicate n (map (\<lambda>(k, v). (key, k, v)) (order_keys g xs)))) MemPartitionHandler_new)"
proof -
  let ?p = "mem_partition h" and ?it = "TimeIt (MemTimeTableIterator_new xs)"
  obtain ws where ws: "ph_windows ?p = (key, Some ?it) # ws" using assms(1) by (simp add: mem_partition_def)
  have "sort_segments g ?p (ph_windows ?p) out = None" for out
    using sort_segments_none [of g ?p "ph_windows ?p" out] ws by (cases "sort_segments g ?p (ph_windows ?p) out") auto
  then have n: "Sort_partition g (Some ?p) reverse = None"
    using assms(2,3) by (simp add: Sort_partition_def)
  have i: "rows_iterator (ph_ops ?p) mi_ok mi_rest mi_whole"
    unfolding mem_partition_def PartitionHandler.simps by unfold_locales
  have "sort_segment g ?p (ph_windows ?p, out) =
      Some (ph_windows ?p, mp_AddRows (map (\<lambda>(k, v). (key, k, v)) (order_keys g xs)) out)" for out
    unfolding ws
    by (rule sort_segment_again, rule seg_loop_rows [OF i _ _ assms(4)]) (simp_all add: mi_ok_def mi_whole_def ti_new)
  then have "((\<lambda>st. Option.bind st (sort_segment g ?p)) ^^ n) (Some (ph_windows ?p, out)) =
      Some (ph_windows ?p, mp_AddRows (concat (replicate n (map (\<lambda>(k, v). (key, k, v)) (order_keys g xs)))) out)" for out
  proof (induction n arbitrary: out)
    case (Suc n)
    then show ?case by (simp add: funpow_Suc_right mp_AddRows_append del: funpow.simps)
  qed (simp add: mp_AddRows_def)
  with n show ?thesis by blast
qed

subsection \<open>Concrete tables\<close>

definition sample_table :: "MemTimeTable" where
  "sample_table = [(3, mem_row), (2, mem_row_2), (1, mem_row)]"

lemma sample_table_has: "table_has (time_table \<lparr>mt_table = sample_table, mt_order_type = kDescOrder\<rparr>) sample_table"
  using time_table_has [of "\<lparr>mt_table = sample_table, mt_order_type = kDescOrder\<rparr>"] by simp

theorem Partition_groups_rows_witness:
  "\<exists>g p. Partition_data False g (TableH (time_table \<lparr>mt_table = sample_table, mt_order_type = kDescOrder\<rparr>)) Row_default = Some (Some p) \<and>
     table_rows (ph_segment p (bytes_of ''-7|ab'')) [(3, mem_row), (1, mem_row)]"
proof -
  obtain g where g: "fg_Valid g" "\<And>p. KeyGenerator_Gen False g mem_row p = Some (bytes_of ''-7|ab'')"
    "\<And>p. KeyGenerator_Gen False g mem_row_2 p = Some (bytes_of ''12|!N@U#L$L%'')"
    by (rule key_generator_exists) blast
  have d: "keys_defined False g Row_default sample_table"
    using g(2,3) by (simp add: keys_defined_def defined_on_def sample_table_def)
  obtain p where p: "Partition_data False g (TableH (time_table \<lparr>mt_table = sample_table, mt_order_type = kDescOrder\<rparr>)) Row_default = Some (Some p)"
    "table_rows (ph_segment p (bytes_of ''-7|ab'')) (filter (\<lambda>r. KeyGenerator_Gen False g (snd r) Row_default = Some (bytes_of ''-7|ab'')) sample_table)"
    using Partition_groups_rows [OF sample_table_has g(1) d] by blast
  have "filter (\<lambda>r. KeyGenerator_Gen False g (snd r) Row_default = Some (bytes_of ''-7|ab'')) sample_table = [(3, mem_row), (1, mem_row)]"
    using g(2,3) by (simp add: sample_table_def bytes_of_def)
  with p show ?thesis by auto
qed

theorem Sort_partition_never_ends_witness:
  "\<exists>g. Sort_partition g (Some (mem_partition \<lparr>mp_partitions = [([97], [(3, mem_row)])], mp_order_type = kNoneOrder\<rparr>)) False = None"
proof -
  obtain g where g: "fg_Valid g" "OrderGenerator_Gen g mem_row = Some (- 7)" "OrderGenerator_Gen g mem_row_2 = Some 12"
    by (rule order_generator_exists) blast
  let ?g = "\<lparr>so_is_valid = True, so_is_asc = True, so_order_gen = g\<rparr>"
  have "Sort_partition ?g (Some (mem_partition \<lparr>mp_partitions = [([97], [(3, mem_row)])], mp_order_type = kNoneOrder\<rparr>)) False = None"
    by (rule Sort_partition_never_ends [THEN conjunct1, of _ "[97]" "[(3, mem_row)]" "[]"]) (use g in simp_all)
  then show ?thesis by blast
qed

theorem index_filter_eq_scan_witness:
  "\<exists>g f p seg. Partition_data False g (TableH (time_table \<lparr>mt_table = sample_table, mt_order_type = kDescOrder\<rparr>)) Row_default = Some (Some p) \<and>
     Filter_partition (\<lambda>_. []) (\<lambda>_. []) False f (Some p) Row_default = Some (Some seg) \<and>
     table_rows seg [(3, mem_row), (1, mem_row)]"
proof -
  obtain g where g: "fg_Valid g" "\<And>p. KeyGenerator_Gen False g mem_row p = Some (bytes_of ''-7|ab'')"
    "\<And>p. KeyGenerator_Gen False g mem_row_2 p = Some (bytes_of ''12|!N@U#L$L%'')"
    by (rule key_generator_exists) blast
  obtain i where i: "fg_Valid i" "\<And>ff fd p. KeyGenerator_GenConst ff fd False i p = Some (bytes_of ''-7|ab'')"
    by (rule const_key_generator_exists) blast
  obtain c where c: "fg_Valid c" "\<And>p. ConditionGenerator_Gen c mem_row p = Some True"
    "\<And>p. ConditionGenerator_Gen c mem_row_2 p = Some True"
    by (rule order_generator_exists) blast
  let ?f = "\<lparr>fi_condition_gen = c, fi_index_seek_gen = i\<rparr>"
  have d: "keys_defined False g Row_default sample_table"
    using g(2,3) by (simp add: keys_defined_def defined_on_def sample_table_def)
  have e: "defined_on (\<lambda>row. ConditionGenerator_Gen (fi_condition_gen ?f) row Row_default) sample_table"
    using c(2,3) by (auto simp: defined_on_def sample_table_def)
  note index_filter_eq_scan [OF sample_table_has g(1) d _ _ _ e, of "\<lambda>_. []" "\<lambda>_. []" "bytes_of ''-7|ab''"]
  moreover have "filter (\<lambda>r. KeyGenerator_Gen False g (snd r) Row_default = Some (bytes_of ''-7|ab'') \<and>
      ConditionGenerator_Gen c (snd r) Row_default = Some True) sample_table = [(3, mem_row), (1, mem_row)]"
    using g(2,3) c by (simp add: sample_table_def bytes_of_def)
  ultimately show ?thesis using i c by auto
qed

end
