(* ===== verification/Runner_Join.thy ===== *)
theory Runner_Join
  imports Runner_Sort
begin

text \<open>
  LAST JOIN: \<open>JoinGenerator\<close>, \<open>Runner::RowLastJoinTable\<close> and the two join runners. Every left row gets one row of the
  right table: the first that satisfies the condition, in the order the right table is sorted into.
\<close>

subsection \<open>Searching a table\<close>

partial_function (option) iter_find :: "('it, 'v) iter_ops \<Rightarrow> ('v \<Rightarrow> 'r option option) \<Rightarrow> 'it \<Rightarrow> 'r option option" where
  "iter_find ops f it =
     (if op_Valid ops it then do {
        v \<leftarrow> op_GetValue ops it;
        r \<leftarrow> f v;
        case r of
          Some x \<Rightarrow> Some (Some x)
        | None \<Rightarrow> do { it' \<leftarrow> op_Next ops it; iter_find ops f it' }
      } else Some None)"

subsection \<open>JoinGenerator\<close>

record JoinGenerator =
  jg_condition_gen :: "row_fn FnGenerator"
  jg_left_key_gen :: "row_fn FnGenerator"
  jg_right_group_gen :: PartitionGenerator
  jg_index_key_gen :: "row_fn FnGenerator"
  jg_right_sort_gen :: SortGenerator
  jg_left_slices :: nat
  jg_right_slices :: nat

text \<open>\<open>Row(left_slices, left_row, right_slices, Row())\<close>, the row of a left row without a match.\<close>

definition no_match :: "nat \<Rightarrow> Row \<Rightarrow> nat \<Rightarrow> Row option" where
  "no_match left_slices left_row right_slices = Row_concat left_slices left_row right_slices Row_default"

definition Runner_RowLastJoinTable :: "nat \<Rightarrow> Row \<Rightarrow> nat \<Rightarrow> TableHandler option \<Rightarrow> Row \<Rightarrow> SortGenerator
    \<Rightarrow> row_fn FnGenerator \<Rightarrow> Row option" where
  "Runner_RowLastJoinTable left_slices left_row right_slices right_table parameter right_sort cond_gen = do {
     right_table \<leftarrow> Sort_table right_sort right_table True;
     case right_table of
       None \<Rightarrow> no_match left_slices left_row right_slices
     | Some t \<Rightarrow> do {
         right_iter \<leftarrow> th_first t;
         case right_iter of
           None \<Rightarrow> no_match left_slices left_row right_slices
         | Some it \<Rightarrow>
             if \<not> op_Valid (th_ops t) it then no_match left_slices left_row right_slices
             else if \<not> fg_Valid cond_gen then do {
               v \<leftarrow> op_GetValue (th_ops t) it;
               Row_concat left_slices left_row right_slices v
             }
             else do {
               found \<leftarrow> iter_find (th_ops t) (\<lambda>v. do {
                   joined_row \<leftarrow> Row_concat left_slices left_row right_slices v;
                   b \<leftarrow> ConditionGenerator_Gen cond_gen joined_row parameter;
                   Some (if b then Some joined_row else None)
                 }) it;
               case found of Some r \<Rightarrow> Some r | None \<Rightarrow> no_match left_slices left_row right_slices
             }
       }
   }"

text \<open>The loop body of \<open>JoinGenerator::RowLastJoinTable\<close>: \<open>None\<close> goes on to the next right row.\<close>

definition join_candidate :: "bool \<Rightarrow> JoinGenerator \<Rightarrow> Row \<Rightarrow> Row \<Rightarrow> byte list \<Rightarrow> Row \<Rightarrow> Row option option" where
  "join_candidate spark g left_row parameter left_key_str v = do {
     skip \<leftarrow> (if fg_Valid (jg_right_group_gen g) then do {
         right_key_str \<leftarrow> KeyGenerator_Gen spark (jg_right_group_gen g) v parameter;
         Some (fg_Valid (jg_left_key_gen g) \<and> left_key_str \<noteq> right_key_str)
       } else Some False);
     if skip then Some None
     else do {
       joined_row \<leftarrow> Row_concat (jg_left_slices g) left_row (jg_right_slices g) v;
       if \<not> fg_Valid (jg_condition_gen g) then Some (Some joined_row)
       else do {
         b \<leftarrow> ConditionGenerator_Gen (jg_condition_gen g) joined_row parameter;
         Some (if b then Some joined_row else None)
       }
     }
   }"

definition RowLastJoinTable :: "bool \<Rightarrow> JoinGenerator \<Rightarrow> Row \<Rightarrow> TableHandler option \<Rightarrow> Row \<Rightarrow> Row option" where
  "RowLastJoinTable spark g left_row table parameter = do {
     table \<leftarrow> (if so_is_valid (jg_right_sort_gen g) then Sort_table (jg_right_sort_gen g) table True else Some table);
     case table of
       None \<Rightarrow> no_match (jg_left_slices g) left_row (jg_right_slices g)
     | Some t \<Rightarrow> do {
         right_iter \<leftarrow> th_first t;
         case right_iter of
           None \<Rightarrow> no_match (jg_left_slices g) left_row (jg_right_slices g)
         | Some it \<Rightarrow>
             if \<not> op_Valid (th_ops t) it then no_match (jg_left_slices g) left_row (jg_right_slices g)
             else if \<not> fg_Valid (jg_left_key_gen g) \<and> \<not> fg_Valid (jg_condition_gen g) then do {
               v \<leftarrow> op_GetValue (th_ops t) it;
               Row_concat (jg_left_slices g) left_row (jg_right_slices g) v
             }
             else do {
               left_key_str \<leftarrow> (if fg_Valid (jg_left_key_gen g)
                  then KeyGenerator_Gen spark (jg_left_key_gen g) left_row parameter else Some []);
               found \<leftarrow> iter_find (th_ops t) (join_candidate spark g left_row parameter left_key_str) it;
               case found of Some r \<Rightarrow> Some r | None \<Rightarrow> no_match (jg_left_slices g) left_row (jg_right_slices g)
             }
       }
   }"

definition RowLastJoinPartition :: "bool \<Rightarrow> JoinGenerator \<Rightarrow> Row \<Rightarrow> PartitionHandler \<Rightarrow> Row \<Rightarrow> Row option" where
  "RowLastJoinPartition spark g left_row p parameter =
     (if \<not> fg_Valid (jg_index_key_gen g) then Some Row_default
      else do {
        partition_key \<leftarrow> KeyGenerator_Gen spark (jg_index_key_gen g) left_row parameter;
        RowLastJoinTable spark g left_row (Some (ph_segment p partition_key)) parameter
      })"

definition RowLastJoin :: "bool \<Rightarrow> JoinGenerator \<Rightarrow> Row \<Rightarrow> DataHandler \<Rightarrow> Row \<Rightarrow> Row option" where
  "RowLastJoin spark g left_row right parameter =
     (case right of
        PartitionH p \<Rightarrow> RowLastJoinPartition spark g left_row p parameter
      | TableH t \<Rightarrow> RowLastJoinTable spark g left_row (Some t) parameter
      | RowH r \<Rightarrow> RowLastJoinTable spark g left_row (Some (row_table (tb_AddRow r MemTableHandler_new))) parameter)"

definition RowLastJoinDropLeftSlices :: "bool \<Rightarrow> JoinGenerator \<Rightarrow> Row \<Rightarrow> DataHandler \<Rightarrow> Row \<Rightarrow> Row option" where
  "RowLastJoinDropLeftSlices spark g left_row right parameter = do {
     joined \<leftarrow> RowLastJoin spark g left_row right parameter;
     Some (fold (\<lambda>offset right_row. Row_Append_slice right_row (GetSlice joined (jg_left_slices g + offset)))
            [1..<jg_right_slices g] (Row_of_slice (GetSlice joined (jg_left_slices g))))
   }"

definition TableJoin_table :: "JoinGenerator \<Rightarrow> TableHandler \<Rightarrow> TableHandler option \<Rightarrow> Row \<Rightarrow> MemTimeTableHandler
    \<Rightarrow> (bool \<times> MemTimeTableHandler) option" where
  "TableJoin_table g left right parameter output = do {
     res \<leftarrow> th_loop left (\<lambda>k left_row out. do {
         row \<leftarrow> Runner_RowLastJoinTable (jg_left_slices g) left_row (jg_right_slices g) right parameter
                  (jg_right_sort_gen g) (jg_condition_gen g);
         Some (mt_AddRow k row out)
       }) output;
     case res of None \<Rightarrow> Some (False, output) | Some out \<Rightarrow> Some (True, out)
   }"

text \<open>The key of the right segment: the index key and the left key, joined by the separator.\<close>

definition table_join_key :: "bool \<Rightarrow> JoinGenerator \<Rightarrow> Row \<Rightarrow> Row \<Rightarrow> byte list option" where
  "table_join_key spark g left_row parameter = do {
     key_str \<leftarrow> (if fg_Valid (jg_index_key_gen g) then KeyGenerator_Gen spark (jg_index_key_gen g) left_row parameter
                  else Some []);
     if fg_Valid (jg_left_key_gen g) then do {
       left_key \<leftarrow> KeyGenerator_Gen spark (jg_left_key_gen g) left_row parameter;
       Some (if key_str = [] then left_key else key_str @ bytes_of ''|'' @ left_key)
     } else Some key_str
   }"

definition TableJoin_partition :: "bool \<Rightarrow> JoinGenerator \<Rightarrow> TableHandler \<Rightarrow> PartitionHandler \<Rightarrow> Row \<Rightarrow> MemTimeTableHandler
    \<Rightarrow> (bool \<times> MemTimeTableHandler) option" where
  "TableJoin_partition spark g left right parameter output =
     (if \<not> fg_Valid (jg_left_key_gen g) \<and> \<not> fg_Valid (jg_index_key_gen g) then Some (False, output)
      else do {
        res \<leftarrow> th_loop left (\<lambda>k left_row out. do {
            key_str \<leftarrow> table_join_key spark g left_row parameter;
            row \<leftarrow> Runner_RowLastJoinTable (jg_left_slices g) left_row (jg_right_slices g)
                     (Some (ph_segment right key_str)) parameter (jg_right_sort_gen g) (jg_condition_gen g);
            Some (mt_AddRow k row out)
          }) output;
        case res of None \<Rightarrow> Some (False, output) | Some out \<Rightarrow> Some (True, out)
      })"

definition PartitionJoin_table :: "JoinGenerator \<Rightarrow> PartitionHandler \<Rightarrow> TableHandler option \<Rightarrow> Row \<Rightarrow> MemPartitionHandler
    \<Rightarrow> (bool \<times> MemPartitionHandler) option" where
  "PartitionJoin_table g left right parameter output = do {
     out \<leftarrow> ph_loop left (\<lambda>left_key k left_row out. do {
         row \<leftarrow> Runner_RowLastJoinTable (jg_left_slices g) left_row (jg_right_slices g) right parameter
                  (jg_right_sort_gen g) (jg_condition_gen g);
         Some (snd (mp_AddRow left_key k row out))
       }) output;
     Some (True, out)
   }"

definition partition_join_key :: "bool \<Rightarrow> JoinGenerator \<Rightarrow> Row \<Rightarrow> Row \<Rightarrow> byte list option" where
  "partition_join_key spark g left_row parameter =
     (if fg_Valid (jg_index_key_gen g) then do {
        index_key \<leftarrow> KeyGenerator_Gen spark (jg_index_key_gen g) left_row parameter;
        left_key \<leftarrow> KeyGenerator_Gen spark (jg_left_key_gen g) left_row parameter;
        Some (index_key @ bytes_of ''|'' @ left_key)
      } else KeyGenerator_Gen spark (jg_left_key_gen g) left_row parameter)"

definition PartitionJoin_partition :: "bool \<Rightarrow> JoinGenerator \<Rightarrow> PartitionHandler \<Rightarrow> PartitionHandler \<Rightarrow> Row \<Rightarrow> MemPartitionHandler
    \<Rightarrow> (bool \<times> MemPartitionHandler) option" where
  "PartitionJoin_partition spark g left right parameter output =
     (if \<not> fg_Valid (jg_left_key_gen g) then Some (False, output)
      else do {
        out \<leftarrow> ph_loop left (\<lambda>left_key k left_row out. do {
            key_str \<leftarrow> partition_join_key spark g left_row parameter;
            row \<leftarrow> Runner_RowLastJoinTable (jg_left_slices g) left_row (jg_right_slices g)
                     (Some (ph_segment right key_str)) parameter (jg_right_sort_gen g) (jg_condition_gen g);
            Some (snd (mp_AddRow left_key k row out))
          }) output;
        Some (True, out)
      })"

subsection \<open>The join runners\<close>

text \<open>The row of a \<open>RowHandler\<close> is its value; a result that is a null pointer is \<open>Some None\<close>.\<close>

definition RequestLastJoinRunner_Run :: "bool \<Rightarrow> JoinGenerator \<Rightarrow> bool \<Rightarrow> Row \<Rightarrow> DataHandler option list
    \<Rightarrow> DataHandler option option" where
  "RequestLastJoinRunner_Run spark g output_right_only parameter inputs =
     (case inputs of
        left # right # _ \<Rightarrow>
          (case (left, right) of
             (Some (RowH left_row), Some r) \<Rightarrow>
               map_option (\<lambda>row. Some (RowH row))
                 (if output_right_only then RowLastJoinDropLeftSlices spark g left_row r parameter
                  else RowLastJoin spark g left_row r parameter)
           | _ \<Rightarrow> Some None)
      | _ \<Rightarrow> Some None)"

text \<open>The right input, grouped when the join has a right key.\<close>

definition group_right :: "bool \<Rightarrow> JoinGenerator \<Rightarrow> DataHandler \<Rightarrow> Row \<Rightarrow> DataHandler option option" where
  "group_right spark g right parameter =
     (if fg_Valid (jg_right_group_gen g)
      then map_option (map_option PartitionH) (Partition_data spark (jg_right_group_gen g) right parameter)
      else Some (Some right))"

definition table_output :: "(bool \<times> MemTimeTableHandler) option \<Rightarrow> DataHandler option option" where
  "table_output r = map_option (\<lambda>(ok, out). if ok then Some (TableH (time_table out)) else None) r"

definition partition_output :: "(bool \<times> MemPartitionHandler) option \<Rightarrow> DataHandler option option" where
  "partition_output r = map_option (\<lambda>(ok, out). if ok then Some (PartitionH (mem_partition out)) else None) r"

text \<open>A row cast to a table is a null pointer.\<close>

definition as_table :: "DataHandler \<Rightarrow> TableHandler option" where
  "as_table d = (case d of TableH t \<Rightarrow> Some t | _ \<Rightarrow> None)"

definition LastJoinRunner_Run :: "bool \<Rightarrow> JoinGenerator \<Rightarrow> Row \<Rightarrow> DataHandler option list \<Rightarrow> DataHandler option option" where
  "LastJoinRunner_Run spark g parameter inputs =
     (case inputs of
        Some left # Some right # _ \<Rightarrow>
          (case left of
             TableH t \<Rightarrow> do {
               right' \<leftarrow> group_right spark g right parameter;
               case right' of
                 None \<Rightarrow> Some None
               | Some (PartitionH p) \<Rightarrow> table_output
                   (TableJoin_partition spark g t p parameter \<lparr>mt_table = [], mt_order_type = th_order t\<rparr>)
               | Some d \<Rightarrow> table_output
                   (TableJoin_table g t (as_table d) parameter \<lparr>mt_table = [], mt_order_type = th_order t\<rparr>)
             }
           | PartitionH l \<Rightarrow> do {
               right' \<leftarrow> group_right spark g right parameter;
               case right' of
                 None \<Rightarrow> Some None
               | Some (PartitionH p) \<Rightarrow> partition_output
                   (PartitionJoin_partition spark g l p parameter (MemPartitionHandler_new\<lparr>mp_order_type := ph_order l\<rparr>))
               | Some d \<Rightarrow> partition_output
                   (PartitionJoin_table g l (as_table d) parameter (MemPartitionHandler_new\<lparr>mp_order_type := ph_order l\<rparr>))
             }
           | RowH left_row \<Rightarrow> map_option (\<lambda>row. Some (RowH row)) (RowLastJoin spark g left_row right parameter))
      | _ \<Rightarrow> Some None)"

subsection \<open>The row a search finds\<close>

context row_iterator
begin

lemma find_rest:
  assumes "ok it" and "\<forall>p \<in> set (rest it). f (snd p) = Some (if P (snd p) then Some (j (snd p)) else None)"
  shows "iter_find ops f it = Some (map_option j (find P (map snd (rest it))))"
  using assms
proof (induction "rest it" arbitrary: it)
  case Nil
  then show ?case using valid_rest [of it] by (subst iter_find.simps) simp
next
  case (Cons p ps)
  note r = Cons.hyps(2) [symmetric]
  have v: "op_Valid ops it" "op_GetValue ops it = Some (snd p)"
    using at_rest [OF Cons.prems(1), of "fst p" "snd p"] valid_rest [OF Cons.prems(1)] r by simp_all
  obtain it' where it': "op_Next ops it = Some it'" "ok it'" "rest it' = ps" "whole it' = whole it"
    using next_rest [OF Cons.prems(1) r] by auto
  have "iter_find ops f it' = Some (map_option j (find P (map snd ps)))"
    using Cons.hyps(1) [of it'] Cons.prems it' r by simp
  then show ?case using v it'(1) Cons.prems(2) r by (subst iter_find.simps) auto
qed

end

lemma table_find:
  assumes "table_has t xs"
  obtains it where "th_first t = Some (Some it)" "op_Valid (th_ops t) it \<longleftrightarrow> xs \<noteq> []"
    "xs \<noteq> [] \<Longrightarrow> op_GetValue (th_ops t) it = Some (snd (hd xs))"
    "\<And>(f :: Row \<Rightarrow> 'r option option) P j. \<forall>p \<in> set xs. f (snd p) = Some (if P (snd p) then Some (j (snd p)) else None) \<Longrightarrow>
       iter_find (th_ops t) f it = Some (map_option j (find P (map snd xs)))"
proof -
  obtain ok rest whole it it' where r: "rows_iterator (th_ops t) ok rest whole" "th_first t = Some (Some it')" "ok it'" "rest it' = xs"
    using table_hasE [OF assms] by metis
  note i = rows_iterator.axioms [OF r(1)]
  show thesis
  proof
    show "th_first t = Some (Some it')" by fact
    show "op_Valid (th_ops t) it' \<longleftrightarrow> xs \<noteq> []" using row_iterator.valid_rest [OF i r(3)] r(4) by simp
    show "op_GetValue (th_ops t) it' = Some (snd (hd xs))" if "xs \<noteq> []"
      using row_iterator.at_rest [OF i r(3), of "fst (hd xs)" "snd (hd xs)" "tl xs"] r(4) that by simp
    show "iter_find (th_ops t) f it' = Some (map_option j (find P (map snd xs)))"
      if "\<forall>p \<in> set xs. f (snd p) = Some (if P (snd p) then Some (j (snd p)) else None)"
      for f :: "Row \<Rightarrow> 'r option option" and P j
      using row_iterator.find_rest [OF i r(3)] that r(4) by simp
  qed
qed

subsection \<open>The row LAST JOIN takes\<close>

definition joined :: "nat \<Rightarrow> Row \<Rightarrow> nat \<Rightarrow> Row \<Rightarrow> Row" where
  "joined left_slices left_row right_slices v = the (Row_concat left_slices left_row right_slices v)"

lemma Row_concat_joined: "0 < m \<Longrightarrow> 0 < n \<Longrightarrow> Row_concat m l n r = Some (joined m l n r)"
  by (rule Row_concat_some [of m n l r]) (simp_all add: joined_def)

definition sort_ready :: "SortGenerator \<Rightarrow> MemTimeTable \<Rightarrow> bool" where
  "sort_ready g xs \<longleftrightarrow> (so_is_valid g \<longrightarrow> fg_Valid (so_order_gen g) \<and> defined_on (OrderGenerator_Gen (so_order_gen g)) xs)"

text \<open>The right rows in the order the search visits them.\<close>

definition right_rows :: "SortGenerator \<Rightarrow> MemTimeTable \<Rightarrow> Row list" where
  "right_rows g xs = map snd (if so_is_valid g then std_sort (sort_key_cmp (so_asc g True)) (order_keys g xs) else xs)"

lemma right_rows_set: "set (right_rows g xs) = snd ` set xs"
  by (force simp: right_rows_def st.srt_set order_keys_def)

lemma Sort_right:
  assumes "table_rows t xs" and "sort_ready g xs"
  obtains "Sort_table g (Some t) True = Some None" "xs = []"
  | t' ys where "Sort_table g (Some t) True = Some (Some t')" "table_rows t' ys" "map snd ys = right_rows g xs"
proof (cases "so_is_valid g")
  case True
  then have g: "fg_Valid (so_order_gen g)" "defined_on (OrderGenerator_Gen (so_order_gen g)) xs"
    using assms(2) by (auto simp: sort_ready_def)
  note s = Sort_table_order [OF assms(1) True g, of True]
  show thesis
  proof (cases "th_iter t = None")
    case True
    then show thesis using that(1) s assms(1) by (auto simp: table_rows_def table_has_def)
  next
    case False
    let ?h = "\<lparr>mt_table = std_sort (sort_key_cmp (so_asc g True)) (order_keys g xs),
      mt_order_type = (if so_asc g True then kAscOrder else kDescOrder)\<rparr>"
    have "table_rows (time_table ?h) (mt_table ?h)" unfolding table_rows_def by (rule disjI1) (rule time_table_has)
    then show thesis using that(2) s False True \<open>so_is_valid g\<close> by (simp add: right_rows_def)
  qed
next
  case False
  then show thesis using that(2) [of t xs] assms(1) by (simp add: Sort_table_def right_rows_def)
qed

definition join_cond :: "row_fn FnGenerator \<Rightarrow> Row \<Rightarrow> nat \<Rightarrow> Row \<Rightarrow> nat \<Rightarrow> Row \<Rightarrow> bool" where
  "join_cond c parameter m l n v \<longleftrightarrow> fg_Valid c \<longrightarrow> ConditionGenerator_Gen c (joined m l n v) parameter = Some True"

definition cond_ready :: "row_fn FnGenerator \<Rightarrow> Row \<Rightarrow> nat \<Rightarrow> Row \<Rightarrow> nat \<Rightarrow> MemTimeTable \<Rightarrow> bool" where
  "cond_ready c parameter m l n xs \<longleftrightarrow>
     (fg_Valid c \<longrightarrow> (\<forall>p \<in> set xs. ConditionGenerator_Gen c (joined m l n (snd p)) parameter \<noteq> None))"

definition or_empty :: "Row option \<Rightarrow> Row" where
  "or_empty r = (case r of None \<Rightarrow> Row_default | Some v \<Rightarrow> v)"

lemma search_table:
  assumes "table_rows t ys" and "now \<Longrightarrow> \<forall>p \<in> set ys. P (snd p)"
    and "\<not> now \<Longrightarrow> \<forall>p \<in> set ys. f (snd p) = Some (if P (snd p) then Some (j (snd p)) else None)"
  shows "(do {
      right_iter \<leftarrow> th_first t;
      case right_iter of
        None \<Rightarrow> Some z
      | Some it \<Rightarrow>
          if \<not> op_Valid (th_ops t) it then Some z
          else if now then do { v \<leftarrow> op_GetValue (th_ops t) it; Some (j v) }
          else do { found \<leftarrow> iter_find (th_ops t) f it; case found of Some r \<Rightarrow> Some r | None \<Rightarrow> Some z }
    }) = Some (case find P (map snd ys) of None \<Rightarrow> z | Some v \<Rightarrow> j v)"
proof (cases "table_has t ys")
  case False
  then have "th_iter t = None" "ys = []" using assms(1) by (auto simp: table_rows_def)
  then show ?thesis by (simp add: th_first_def)
next
  case True
  obtain it where it: "th_first t = Some (Some it)" "op_Valid (th_ops t) it \<longleftrightarrow> ys \<noteq> []"
    "ys \<noteq> [] \<Longrightarrow> op_GetValue (th_ops t) it = Some (snd (hd ys))"
    "\<forall>p \<in> set ys. f (snd p) = Some (if P (snd p) then Some (j (snd p)) else None) \<Longrightarrow>
       iter_find (th_ops t) f it = Some (map_option j (find P (map snd ys)))"
    using table_find [OF True] by metis
  show ?thesis
  proof (cases now)
    case True
    then show ?thesis using it(1-3) assms(2) by (cases ys) simp_all
  next
    case False
    then show ?thesis using it(1,2) it(4) [OF assms(3)] by (auto split: option.splits)
  qed
qed

lemma Runner_RowLastJoinTable_finds:
  assumes "table_rows t xs" and "sort_ready g xs" and "0 < m" and "0 < n" and "cond_ready c parameter m l n xs"
  shows "Runner_RowLastJoinTable m l n (Some t) parameter g c =
    Some (joined m l n (or_empty (find (join_cond c parameter m l n) (right_rows g xs))))"
proof (rule Sort_right [OF assms(1,2)])
  assume "Sort_table g (Some t) True = Some None" "xs = []"
  then show ?thesis
    using assms(3,4) right_rows_set [of g xs]
    by (simp add: Runner_RowLastJoinTable_def no_match_def Row_concat_joined or_empty_def)
next
  fix t' ys assume s: "Sort_table g (Some t) True = Some (Some t')" "table_rows t' ys" "map snd ys = right_rows g xs"
  let ?P = "join_cond c parameter m l n" and ?j = "joined m l n"
  have "snd ` set ys = snd ` set xs" using right_rows_set [of g xs] s(3) by (metis set_map)
  then have f: "\<forall>p \<in> set ys. (do {
      b \<leftarrow> ConditionGenerator_Gen c (?j (snd p)) parameter;
      Some (if b then Some (?j (snd p)) else None)
    }) = Some (if ?P (snd p) then Some (?j (snd p)) else None)" if "fg_Valid c"
    using assms(5) that by (force simp: cond_ready_def join_cond_def)
  have "Runner_RowLastJoinTable m l n (Some t) parameter g c =
      Some (case find ?P (map snd ys) of None \<Rightarrow> ?j Row_default | Some v \<Rightarrow> ?j v)"
    unfolding Runner_RowLastJoinTable_def no_match_def Row_concat_joined [OF assms(3,4)] s(1) Option.bind.simps option.case
    by (rule search_table [OF s(2)]) (use f in \<open>simp_all add: join_cond_def\<close>)
  then show ?thesis using s(3) by (simp add: or_empty_def split: option.splits)
qed

text \<open>The rows \<open>JoinGenerator::RowLastJoinTable\<close> accepts: those of the left row's key that satisfy the condition.\<close>

definition join_match :: "bool \<Rightarrow> JoinGenerator \<Rightarrow> Row \<Rightarrow> Row \<Rightarrow> Row \<Rightarrow> bool" where
  "join_match spark g parameter l v \<longleftrightarrow>
     (fg_Valid (jg_right_group_gen g) \<and> fg_Valid (jg_left_key_gen g) \<longrightarrow>
        key_of spark (jg_right_group_gen g) parameter v = key_of spark (jg_left_key_gen g) parameter l) \<and>
     join_cond (jg_condition_gen g) parameter (jg_left_slices g) l (jg_right_slices g) v"

text \<open>The generators of a join have results on a left row and the right rows.\<close>

definition join_ready :: "bool \<Rightarrow> JoinGenerator \<Rightarrow> Row \<Rightarrow> Row \<Rightarrow> MemTimeTable \<Rightarrow> bool" where
  "join_ready spark g parameter l xs \<longleftrightarrow>
     0 < jg_left_slices g \<and> 0 < jg_right_slices g \<and> sort_ready (jg_right_sort_gen g) xs \<and>
     cond_ready (jg_condition_gen g) parameter (jg_left_slices g) l (jg_right_slices g) xs \<and>
     (fg_Valid (jg_right_group_gen g) \<longrightarrow> keys_defined spark (jg_right_group_gen g) parameter xs) \<and>
     (fg_Valid (jg_left_key_gen g) \<longrightarrow> KeyGenerator_Gen spark (jg_left_key_gen g) l parameter \<noteq> None)"

lemma join_candidate_match:
  assumes "join_ready spark g parameter l xs" and "v \<in> snd ` set xs"
    and "fg_Valid (jg_left_key_gen g) \<Longrightarrow> key = key_of spark (jg_left_key_gen g) parameter l"
  shows "join_candidate spark g l parameter key v =
    Some (if join_match spark g parameter l v then Some (joined (jg_left_slices g) l (jg_right_slices g) v) else None)"
proof -
  let ?m = "jg_left_slices g" and ?n = "jg_right_slices g"
  have c: "Row_concat ?m l ?n v = Some (joined ?m l ?n v)"
    using assms(1) by (intro Row_concat_joined) (simp_all add: join_ready_def)
  have k: "KeyGenerator_Gen spark (jg_right_group_gen g) v parameter = Some (key_of spark (jg_right_group_gen g) parameter v)"
    if "fg_Valid (jg_right_group_gen g)"
    using assms(1,2) that by (force simp: join_ready_def keys_defined_def defined_on_def key_of_def)
  have d: "\<exists>b. ConditionGenerator_Gen (jg_condition_gen g) (joined ?m l ?n v) parameter = Some b"
    if "fg_Valid (jg_condition_gen g)"
    using assms(1,2) that by (force simp: join_ready_def cond_ready_def)
  show ?thesis
    using c k d assms(3)
    by (cases "fg_Valid (jg_right_group_gen g)"; cases "fg_Valid (jg_left_key_gen g)"; cases "fg_Valid (jg_condition_gen g)")
      (auto simp: join_candidate_def join_match_def join_cond_def)
qed

lemma RowLastJoinTable_finds:
  assumes "table_rows t xs" and r: "join_ready spark g parameter l xs"
  shows "RowLastJoinTable spark g l (Some t) parameter =
    Some (joined (jg_left_slices g) l (jg_right_slices g)
      (or_empty (find (join_match spark g parameter l) (right_rows (jg_right_sort_gen g) xs))))"
proof -
  let ?m = "jg_left_slices g" and ?n = "jg_right_slices g" and ?s = "jg_right_sort_gen g"
  let ?P = "join_match spark g parameter l"
  have c: "Row_concat ?m l ?n v = Some (joined ?m l ?n v)" for v
    using r by (intro Row_concat_joined) (simp_all add: join_ready_def)
  have S: "(if so_is_valid ?s then Sort_table ?s (Some t) True else Some (Some t)) = Sort_table ?s (Some t) True"
    by (simp add: Sort_table_def)
  show ?thesis
  proof (rule Sort_right [of t xs ?s])
    show "table_rows t xs" by fact
    show "sort_ready ?s xs" using r by (simp add: join_ready_def)
  next
    assume "Sort_table ?s (Some t) True = Some None" "xs = []"
    then show ?thesis using S right_rows_set [of ?s xs] c by (simp add: RowLastJoinTable_def no_match_def or_empty_def)
  next
    fix t' ys assume s: "Sort_table ?s (Some t) True = Some (Some t')" "table_rows t' ys" "map snd ys = right_rows ?s xs"
    have e: "snd ` set ys = snd ` set xs" using right_rows_set [of ?s xs] s(3) by (metis set_map)
    let ?key = "if fg_Valid (jg_left_key_gen g) then key_of spark (jg_left_key_gen g) parameter l else []"
    have key: "(if fg_Valid (jg_left_key_gen g) then KeyGenerator_Gen spark (jg_left_key_gen g) l parameter else Some []) = Some ?key"
      using r by (auto simp: join_ready_def key_of_def)
    have "\<forall>p \<in> set ys. join_candidate spark g l parameter ?key (snd p) =
        Some (if ?P (snd p) then Some (joined ?m l ?n (snd p)) else None)"
    proof
      fix p assume "p \<in> set ys"
      then have "snd p \<in> snd ` set xs" unfolding e [symmetric] by (rule imageI)
      then show "join_candidate spark g l parameter ?key (snd p) =
          Some (if ?P (snd p) then Some (joined ?m l ?n (snd p)) else None)"
        by (rule join_candidate_match [OF r]) simp
    qed
    then have "RowLastJoinTable spark g l (Some t) parameter =
        Some (case find ?P (map snd ys) of None \<Rightarrow> joined ?m l ?n Row_default | Some v \<Rightarrow> joined ?m l ?n v)"
      unfolding RowLastJoinTable_def no_match_def c trans [OF S s(1)] key Option.bind.simps option.case
      by (intro search_table [OF s(2), where P = ?P and j = "joined ?m l ?n"
            and now = "\<not> fg_Valid (jg_left_key_gen g) \<and> \<not> fg_Valid (jg_condition_gen g)"])
        (simp_all add: join_match_def join_cond_def)
    then show ?thesis using s(3) by (simp add: or_empty_def split: option.splits)
  qed
qed

subsection \<open>The latest match\<close>

definition order_of :: "SortGenerator \<Rightarrow> Row \<Rightarrow> u64" where
  "order_of g v = the (OrderGenerator_Gen (so_order_gen g) v)"

lemma find_first: "find P xs = Some v \<Longrightarrow> \<exists>i < length xs. xs ! i = v \<and> P v \<and> (\<forall>j < i. \<not> P (xs ! j))"
  by (auto simp: find_Some_iff)

text \<open>\<open>w\<close> does not come after \<open>v\<close> in the order asked for.\<close>

definition not_after :: "SortGenerator \<Rightarrow> Row \<Rightarrow> Row \<Rightarrow> bool" where
  "not_after g w v = (if so_is_asc g then order_of g w \<le> order_of g v else order_of g v \<le> order_of g w)"

lemma reverse_sorted:
  "sorted_wrt (\<lambda>x y. if so_is_asc g then fst y \<le> fst x else fst x \<le> fst y)
     (std_sort (sort_key_cmp (so_asc g True)) (order_keys g xs))"
  using st.srt_sorted [OF comparors_strict_weak(1), of "order_keys g xs"] st.srt_sorted [OF comparors_strict_weak(2), of "order_keys g xs"]
  by (simp add: sort_key_cmp_def so_asc_def AscComparor_def DescComparor_def not_less)

lemma find_latest:
  assumes "so_is_valid g" and "find P (right_rows g xs) = Some v" and "w \<in> snd ` set xs" and "P w"
  shows "not_after g w v"
proof -
  let ?ys = "std_sort (sort_key_cmp (so_asc g True)) (order_keys g xs)"
  have rr: "right_rows g xs = map snd ?ys" using assms(1) by (simp add: right_rows_def)
  obtain i where i: "i < length ?ys" "snd (?ys ! i) = v" "\<forall>j < i. \<not> P (snd (?ys ! j))"
    using find_first [OF assms(2)] by (auto simp: rr)
  have k: "fst p = order_of g (snd p)" if "p \<in> set ?ys" for p
    using that by (auto simp: st.srt_set order_keys_def order_of_def)
  have "w \<in> snd ` set ?ys" using assms(3) right_rows_set [of g xs] by (simp add: rr)
  then obtain j where j: "j < length ?ys" "snd (?ys ! j) = w" by (auto simp: in_set_conv_nth)
  then have "i \<le> j" using i(3) assms(4) by (meson not_le)
  then have "if so_is_asc g then fst (?ys ! j) \<le> fst (?ys ! i) else fst (?ys ! i) \<le> fst (?ys ! j)"
    using j(1) reverse_sorted [of g xs] by (cases "i = j") (simp_all add: sorted_wrt_iff_nth_less)
  then show ?thesis using k [OF nth_mem [OF i(1)]] k [OF nth_mem [OF j(1)]] i(2) j(2)
    by (cases "so_is_asc g") (simp_all add: not_after_def)
qed

text \<open>The row chosen by a search for \<open>P\<close> among the rows \<open>xs\<close>: a latest one of those that satisfy it.\<close>

definition latest_match :: "SortGenerator \<Rightarrow> (Row \<Rightarrow> bool) \<Rightarrow> MemTimeTable \<Rightarrow> Row option \<Rightarrow> bool" where
  "latest_match g P xs r \<longleftrightarrow>
     (case r of
        None \<Rightarrow> \<forall>w \<in> snd ` set xs. \<not> P w
      | Some v \<Rightarrow> v \<in> snd ` set xs \<and> P v \<and> (\<forall>w \<in> snd ` set xs. P w \<longrightarrow> not_after g w v))"

lemma right_rows_latest:
  assumes "so_is_valid g"
  shows "latest_match g P xs (find P (right_rows g xs))"
proof (cases "find P (right_rows g xs)")
  case None
  then have "\<forall>w \<in> snd ` set xs. \<not> P w" using right_rows_set [of g xs] by (auto simp: find_None_iff)
  then show ?thesis using None by (simp add: latest_match_def)
next
  case (Some v)
  then have "v \<in> snd ` set xs" "P v" using right_rows_set [of g xs] by (auto simp: find_Some_iff)
  then show ?thesis using find_latest [OF assms Some] Some by (auto simp: latest_match_def)
qed

text \<open>Where the order tells the rows apart there is only one such row.\<close>

lemma latest_match_unique:
  assumes "latest_match g P xs r" and "latest_match g P xs s" and "inj_on (order_of g) (snd ` set xs)"
  shows "r = s"
proof (cases r)
  case None
  then show ?thesis using assms(1,2) by (cases s) (auto simp: latest_match_def)
next
  case (Some v)
  then obtain w where w: "s = Some w" using assms(1,2) by (cases s) (auto simp: latest_match_def)
  have "v \<in> snd ` set xs" "w \<in> snd ` set xs" "not_after g v w" "not_after g w v"
    using assms(1,2) unfolding latest_match_def Some w option.case by blast+
  then have "v = w" using inj_onD [OF assms(3), of v w] by (metis not_after_def order_antisym)
  then show ?thesis using Some w by simp
qed

subsection \<open>Properties\<close>

text \<open>C30. LAST JOIN of a row with a table ordered by an expression: the joined row holds a right row with the left row's
  key that satisfies the condition and comes last in the order asked for. In ascending order no such row has a greater
  order key, in descending order none has a smaller one; the keys are compared as unsigned numbers. Where no right row
  qualifies, the right side is the empty row.\<close>

theorem RowLastJoin_takes_latest:
  assumes "table_rows t xs" and "join_ready spark g parameter l xs" and "so_is_valid (jg_right_sort_gen g)"
  shows "\<exists>r. latest_match (jg_right_sort_gen g) (join_match spark g parameter l) xs r \<and>
    RowLastJoin spark g l (TableH t) parameter = Row_concat (jg_left_slices g) l (jg_right_slices g) (or_empty r)"
proof -
  have "Row_concat (jg_left_slices g) l (jg_right_slices g) v = Some (joined (jg_left_slices g) l (jg_right_slices g) v)" for v
    using assms(2) by (intro Row_concat_joined) (simp_all add: join_ready_def)
  then show ?thesis
    using RowLastJoinTable_finds [OF assms(1,2)] right_rows_latest [OF assms(3)]
    by (auto simp: RowLastJoin_def)
qed

text \<open>The order of the right rows is determined: none is asked for, or the order expression tells them apart.\<close>

definition order_decides :: "SortGenerator \<Rightarrow> MemTimeTable \<Rightarrow> bool" where
  "order_decides g xs \<longleftrightarrow> (so_is_valid g \<longrightarrow> inj_on (order_of g) (snd ` set xs))"

lemma latest_match_filter:
  "latest_match g P (filter (\<lambda>p. Q (snd p)) xs) r = latest_match g (\<lambda>v. Q v \<and> P v) xs r"
  by (cases r) (auto simp: latest_match_def)

lemma find_filter_map: "find P (map snd (filter (\<lambda>p. Q (snd p)) xs)) = find (\<lambda>v. Q v \<and> P v) (map snd xs)"
  by (induction xs) auto

lemma find_group:
  assumes "order_decides g xs"
  shows "find P (right_rows g (filter (\<lambda>p. Q (snd p)) xs)) = find (\<lambda>v. Q v \<and> P v) (right_rows g xs)"
proof (cases "so_is_valid g")
  case True
  then have a: "inj_on (order_of g) (snd ` set xs)" using assms by (auto simp: order_decides_def)
  have "latest_match g (\<lambda>v. Q v \<and> P v) xs (find P (right_rows g (filter (\<lambda>p. Q (snd p)) xs)))"
    using right_rows_latest [OF True, of P "filter (\<lambda>p. Q (snd p)) xs"] by (simp add: latest_match_filter)
  then show ?thesis using right_rows_latest [OF True] a by (rule latest_match_unique)
next
  case False
  then show ?thesis by (simp add: right_rows_def find_filter_map)
qed

lemma join_ready_group:
  assumes "join_ready spark g parameter l xs"
  shows "sort_ready (jg_right_sort_gen g) (filter Q xs)"
    and "cond_ready (jg_condition_gen g) parameter (jg_left_slices g) l (jg_right_slices g) (filter Q xs)"
  using assms by (auto simp: join_ready_def sort_ready_def defined_on_def cond_ready_def)

text \<open>Joining with the segment of the left row's key is joining with the whole table.\<close>

lemma join_segment_eq_table:
  assumes r: "join_ready spark g parameter l xs" and "order_decides (jg_right_sort_gen g) xs"
    and v: "fg_Valid (jg_right_group_gen g)" "fg_Valid (jg_left_key_gen g)"
    and seg: "table_rows seg (group_rows spark (jg_right_group_gen g) parameter xs (key_of spark (jg_left_key_gen g) parameter l))"
    and t: "table_rows t xs"
  shows "Runner_RowLastJoinTable (jg_left_slices g) l (jg_right_slices g) (Some seg) parameter (jg_right_sort_gen g) (jg_condition_gen g) =
    RowLastJoin spark g l (TableH t) parameter"
proof -
  let ?Q = "\<lambda>v. key_of spark (jg_right_group_gen g) parameter v = key_of spark (jg_left_key_gen g) parameter l"
  let ?c = "join_cond (jg_condition_gen g) parameter (jg_left_slices g) l (jg_right_slices g)"
  have j: "join_match spark g parameter l = (\<lambda>v. ?Q v \<and> ?c v)" using v by (auto simp: join_match_def)
  have "Runner_RowLastJoinTable (jg_left_slices g) l (jg_right_slices g) (Some seg) parameter (jg_right_sort_gen g) (jg_condition_gen g) =
      Some (joined (jg_left_slices g) l (jg_right_slices g)
        (or_empty (find ?c (right_rows (jg_right_sort_gen g) (filter (\<lambda>p. ?Q (snd p)) xs)))))"
    using r by (intro Runner_RowLastJoinTable_finds [OF seg [unfolded group_rows_def]] join_ready_group [OF r])
      (simp_all add: join_ready_def)
  then show ?thesis
    using RowLastJoinTable_finds [OF t r] find_group [OF assms(2), of ?c ?Q] by (simp add: RowLastJoin_def j)
qed

lemma th_loop_joins:
  assumes "table_has lt ls" and "\<And>l. l \<in> snd ` set ls \<Longrightarrow> f l = Some (h l)"
  shows "th_loop lt (\<lambda>k l out. do { row \<leftarrow> f l; Some (mt_AddRow k row out) }) out =
    Some (Some (out\<lparr>mt_table := mt_table out @ map (\<lambda>(k, l). (k, h l)) ls\<rparr>))"
proof -
  have "fold_opt (\<lambda>(k, l) out. do { row \<leftarrow> f l; Some (mt_AddRow k row out) }) ls out =
      Some (fold (\<lambda>(k, l) out. mt_AddRow k (h l) out) ls out)"
    using assms(2) by (intro fold_opt_total) force
  moreover have "fold (\<lambda>(k, l) out. mt_AddRow k (h l) out) ls out = out\<lparr>mt_table := mt_table out @ map (\<lambda>(k, l). (k, h l)) ls\<rparr>"
    by (induction ls arbitrary: out) (auto simp: mt_AddRow_def)
  ultimately show ?thesis unfolding th_loop_has [OF assms(1)] by simp
qed

text \<open>The row batch mode computes for a left row, from the partition of the right table.\<close>

definition batch_row :: "bool \<Rightarrow> JoinGenerator \<Rightarrow> PartitionHandler \<Rightarrow> Row \<Rightarrow> Row \<Rightarrow> Row option" where
  "batch_row spark g right parameter l = do {
     key_str \<leftarrow> table_join_key spark g l parameter;
     Runner_RowLastJoinTable (jg_left_slices g) l (jg_right_slices g) (Some (ph_segment right key_str)) parameter
       (jg_right_sort_gen g) (jg_condition_gen g)
   }"

lemma batch_row_eq_request:
  assumes r: "join_ready spark g parameter l xs" and "order_decides (jg_right_sort_gen g) xs"
    and v: "fg_Valid (jg_right_group_gen g)" "fg_Valid (jg_left_key_gen g)" "\<not> fg_Valid (jg_index_key_gen g)"
    and h: "\<And>key. seg_rows key h = group_rows spark (jg_right_group_gen g) parameter xs key" and rt: "table_has rt xs"
  shows "batch_row spark g (mem_partition h) parameter l = RowLastJoin spark g l (TableH rt) parameter"
    and "\<exists>row. RowLastJoin spark g l (TableH rt) parameter = Some row"
proof -
  have t: "table_rows rt xs" using rt by (simp add: table_rows_def)
  have k: "table_join_key spark g l parameter = Some (key_of spark (jg_left_key_gen g) parameter l)"
    using r v by (auto simp: table_join_key_def join_ready_def key_of_def)
  have "table_rows (ph_segment (mem_partition h) key) (group_rows spark (jg_right_group_gen g) parameter xs key)" for key
    using segment_table_rows [of h key] h by (simp add: mem_partition_def)
  then show "batch_row spark g (mem_partition h) parameter l = RowLastJoin spark g l (TableH rt) parameter"
    using join_segment_eq_table [OF r assms(2) v(1,2) _ t] k by (simp add: batch_row_def)
  show "\<exists>row. RowLastJoin spark g l (TableH rt) parameter = Some row"
    using RowLastJoinTable_finds [OF t r] by (simp add: RowLastJoin_def)
qed

text \<open>C29. Batch and request mode agree: LAST JOIN of a whole left table, which partitions the right table by its key and
  looks every left row up in its segment, gives each left row, in order and under its own key, the row that request mode
  computes for that left row alone by scanning the right table. The join has a left and a right key and no index key,
  and an order expression that tells the right rows apart, in either direction, or none.\<close>

theorem last_join_batch_eq_request:
  assumes "table_has lt ls" and "table_has rt xs"
    and "fg_Valid (jg_right_group_gen g)" and "fg_Valid (jg_left_key_gen g)" and "\<not> fg_Valid (jg_index_key_gen g)"
    and "order_decides (jg_right_sort_gen g) xs" and "keys_defined spark (jg_right_group_gen g) parameter xs"
    and "\<forall>l \<in> snd ` set ls. join_ready spark g parameter l xs"
  shows "\<exists>out rows. LastJoinRunner_Run spark g parameter [Some (TableH lt), Some (TableH rt)] = Some (Some (TableH out)) \<and>
    table_has out (zip (map fst ls) rows) \<and> th_order out = th_order lt \<and> length rows = length ls \<and>
    (\<forall>i < length ls. RequestLastJoinRunner_Run spark g False parameter [Some (RowH (snd (ls ! i))), Some (TableH rt)] =
       Some (Some (RowH (rows ! i))))"
proof -
  obtain h where h: "Partition_table spark (jg_right_group_gen g) (Some rt) parameter = Some (Some (mem_partition h))"
    "seg_sorted (mp_partitions h)" "\<And>key. seg_rows key h = group_rows spark (jg_right_group_gen g) parameter xs key"
    "mp_order_type h = th_order rt"
    by (rule Partition_table_groups [OF assms(2,3,7)]) blast
  let ?row = "\<lambda>l. the (RowLastJoin spark g l (TableH rt) parameter)"
  let ?rows = "map (\<lambda>p. ?row (snd p)) ls"
  let ?out = "time_table \<lparr>mt_table = map (\<lambda>(k, l). (k, ?row l)) ls, mt_order_type = th_order lt\<rparr>"
  have j: "batch_row spark g (mem_partition h) parameter l = Some (?row l)" "RowLastJoin spark g l (TableH rt) parameter = Some (?row l)"
    if "l \<in> snd ` set ls" for l
    using batch_row_eq_request [OF _ assms(6,3-5) h(3) assms(2), of l] assms(8) that by auto
  have "LastJoinRunner_Run spark g parameter [Some (TableH lt), Some (TableH rt)] = Some (Some (TableH ?out))"
    using th_loop_joins [OF assms(1) j(1)] h(1) assms(3-5)
    by (simp add: LastJoinRunner_Run_def group_right_def Partition_data_def table_output_def TableJoin_partition_def batch_row_def
        Option.bind_assoc)
  moreover have "zip (map fst ls) ?rows = map (\<lambda>(k, l). (k, ?row l)) ls" by (induction ls) auto
  then have "table_has ?out (zip (map fst ls) ?rows)"
    using time_table_has [of "\<lparr>mt_table = map (\<lambda>(k, l). (k, ?row l)) ls, mt_order_type = th_order lt\<rparr>"] by simp
  moreover have "\<forall>i < length ls. RequestLastJoinRunner_Run spark g False parameter [Some (RowH (snd (ls ! i))), Some (TableH rt)] =
       Some (Some (RowH (?rows ! i)))"
    using j(2) by (simp add: RequestLastJoinRunner_Run_def)
  moreover have "th_order ?out = th_order lt" "length ?rows = length ls" by (simp_all add: time_table_def)
  ultimately show ?thesis by blast
qed

lemma seg_rows_joins:
  assumes "partition_has p segs" and "distinct (map fst segs)" and "\<And>key l. l \<in> snd ` set (segs_rows segs key) \<Longrightarrow> f l = Some (h l)"
  shows "\<exists>out. ph_loop p (\<lambda>key k l out. do { row \<leftarrow> f l; Some (snd (mp_AddRow key k row out)) }) (MemPartitionHandler_new\<lparr>mp_order_type := o'\<rparr>) = Some out \<and>
    seg_sorted (mp_partitions out) \<and> (\<forall>key. seg_rows key out = map (\<lambda>(k, l). (k, h l)) (segs_rows segs key))"
proof -
  let ?new = "MemPartitionHandler_new\<lparr>mp_order_type := o'\<rparr>"
  let ?ps = "concat (map (\<lambda>(key, xs). map (\<lambda>(k, l). (key, k, h l)) xs) segs)"
  have r: "segs_rows segs key = xs" if "(key, xs) \<in> set segs" for key xs
    using that assms(2) by (simp add: segs_rows_def)
  have ins: "fold_opt (\<lambda>(k, l) out. do { row \<leftarrow> f l; Some (snd (mp_AddRow key k row out)) }) xs out =
      Some (mp_AddRows (map (\<lambda>(k, l). (key, k, h l)) xs) out)" if "(key, xs) \<in> set segs" for key xs out
  proof -
    have "f l = Some (h l)" if "(k, l) \<in> set xs" for k l
      using assms(3) [of l key] r [OF \<open>(key, xs) \<in> set segs\<close>] that by force
    then have "fold_opt (\<lambda>(k, l) out. do { row \<leftarrow> f l; Some (snd (mp_AddRow key k row out)) }) xs out =
        Some (fold (\<lambda>(k, l) out. snd (mp_AddRow key k (h l) out)) xs out)"
      by (intro fold_opt_total) auto
    moreover have "fold (\<lambda>(k, l) out. snd (mp_AddRow key k (h l) out)) xs out = mp_AddRows (map (\<lambda>(k, l). (key, k, h l)) xs) out"
      by (induction xs arbitrary: out) (auto simp: mp_AddRows_def)
    ultimately show ?thesis by simp
  qed
  have "fold_opt (\<lambda>(key, xs). fold_opt (\<lambda>(k, l) out. do { row \<leftarrow> f l; Some (snd (mp_AddRow key k row out)) }) xs) segs ?new =
      Some (fold (\<lambda>(key, xs). mp_AddRows (map (\<lambda>(k, l). (key, k, h l)) xs)) segs ?new)"
    using ins by (intro fold_opt_total) auto
  moreover have "fold (\<lambda>(key, xs). mp_AddRows (map (\<lambda>(k, l). (key, k, h l)) xs)) gs out =
      mp_AddRows (concat (map (\<lambda>(key, xs). map (\<lambda>(k, l). (key, k, h l)) xs) gs)) out" for gs out
    by (induction gs arbitrary: out) (auto simp: mp_AddRows_append, simp add: mp_AddRows_def)
  ultimately have l: "ph_loop p (\<lambda>key k l out. do { row \<leftarrow> f l; Some (snd (mp_AddRow key k row out)) }) ?new = Some (mp_AddRows ?ps ?new)"
    unfolding ph_loop_has [OF assms(1)] by simp
  have n: "seg_sorted (mp_partitions ?new)" "seg_rows key ?new = []" for key using mp_new_facts by simp_all
  have "map snd (filter (\<lambda>p. fst p = key) (concat (map (\<lambda>(key, xs). map (\<lambda>(k, l). (key, k, h l)) xs) gs))) =
      map (\<lambda>(k, l). (k, h l)) (segs_rows gs key)" if "distinct (map fst gs)" for key gs
    using that
  proof (induction gs)
    case (Cons g gs)
    obtain k xs where g: "g = (k, xs)" by (cases g)
    have "map_of gs k = None" using Cons.prems g by (simp add: map_of_eq_None_iff)
    moreover have "filter (\<lambda>p. fst p = key) (map (\<lambda>(k', l). (k, k', h l)) xs) = (if k = key then map (\<lambda>(k', l). (k, k', h l)) xs else [])"
      by (induction xs) auto
    ultimately show ?case using Cons g by (auto simp: segs_rows_def case_prod_unfold)
  qed (simp add: segs_rows_def)
  from this [OF assms(2)] show ?thesis using l mp_AddRows_rows [OF n(1)] n(2) by auto
qed

lemma join_table_eq_request:
  assumes "join_ready spark g parameter l xs" and "\<not> fg_Valid (jg_right_group_gen g)" and "table_has rt xs"
  shows "Runner_RowLastJoinTable (jg_left_slices g) l (jg_right_slices g) (Some rt) parameter (jg_right_sort_gen g) (jg_condition_gen g) =
      RowLastJoin spark g l (TableH rt) parameter"
    and "\<exists>row. RowLastJoin spark g l (TableH rt) parameter = Some row"
proof -
  have t: "table_rows rt xs" using assms(3) by (simp add: table_rows_def)
  have j: "join_match spark g parameter l = join_cond (jg_condition_gen g) parameter (jg_left_slices g) l (jg_right_slices g)"
    using assms(2) by (auto simp: join_match_def)
  show "Runner_RowLastJoinTable (jg_left_slices g) l (jg_right_slices g) (Some rt) parameter (jg_right_sort_gen g) (jg_condition_gen g) =
      RowLastJoin spark g l (TableH rt) parameter"
    using RowLastJoinTable_finds [OF t assms(1)] Runner_RowLastJoinTable_finds [OF t] assms(1)
    by (simp add: RowLastJoin_def j join_ready_def)
  show "\<exists>row. RowLastJoin spark g l (TableH rt) parameter = Some row"
    using RowLastJoinTable_finds [OF t assms(1)] by (simp add: RowLastJoin_def)
qed

text \<open>C31. LAST JOIN of a partitioned left table keeps its segments: the segment of a key of the output has the rows of the
  left segment, in order and under their keys, each joined as request mode joins it with the right table, and that join
  is always defined. Where the right table is grouped by a key, the join has a left key and no index key, and an order
  expression that tells the right rows apart, in either direction, or none; where it is not grouped, there is no such
  condition.\<close>

theorem last_join_keeps_segments:
  assumes "partition_has lp segs" and "distinct (map fst segs)" and "table_has rt xs"
    and "\<forall>key. \<forall>l \<in> snd ` set (segs_rows segs key). join_ready spark g parameter l xs"
    and "fg_Valid (jg_right_group_gen g) \<Longrightarrow> fg_Valid (jg_left_key_gen g) \<and> \<not> fg_Valid (jg_index_key_gen g) \<and>
      order_decides (jg_right_sort_gen g) xs \<and> keys_defined spark (jg_right_group_gen g) parameter xs"
  shows "\<exists>out. LastJoinRunner_Run spark g parameter [Some (PartitionH lp), Some (TableH rt)] = Some (Some (PartitionH out)) \<and>
    (\<forall>key. table_rows (ph_segment out key)
       (map (\<lambda>(k, l). (k, the (RowLastJoin spark g l (TableH rt) parameter))) (segs_rows segs key)) \<and>
      (\<forall>l \<in> snd ` set (segs_rows segs key). RowLastJoin spark g l (TableH rt) parameter \<noteq> None))"
proof -
  let ?row = "\<lambda>l. the (RowLastJoin spark g l (TableH rt) parameter)"
  let ?new = "MemPartitionHandler_new\<lparr>mp_order_type := ph_order lp\<rparr>"
  have "\<exists>h. LastJoinRunner_Run spark g parameter [Some (PartitionH lp), Some (TableH rt)] = Some (Some (PartitionH (mem_partition h))) \<and>
      (\<forall>key. seg_rows key h = map (\<lambda>(k, l). (k, ?row l)) (segs_rows segs key))"
  proof (cases "fg_Valid (jg_right_group_gen g)")
    case True
    note v = assms(5) [OF True]
    obtain h where h: "Partition_table spark (jg_right_group_gen g) (Some rt) parameter = Some (Some (mem_partition h))"
      "seg_sorted (mp_partitions h)" "\<And>key. seg_rows key h = group_rows spark (jg_right_group_gen g) parameter xs key"
      "mp_order_type h = th_order rt"
      using Partition_table_groups [OF assms(3) True] v by metis
    have "batch_row spark g (mem_partition h) parameter l = Some (?row l)" if "l \<in> snd ` set (segs_rows segs key)" for key l
      using batch_row_eq_request [OF _ _ True _ _ h(3) assms(3), of l] assms(4) v that by auto
    then obtain out where "ph_loop lp (\<lambda>key k l out. do {
          row \<leftarrow> batch_row spark g (mem_partition h) parameter l; Some (snd (mp_AddRow key k row out))
        }) ?new = Some out" "\<And>key. seg_rows key out = map (\<lambda>(k, l). (k, ?row l)) (segs_rows segs key)"
      using seg_rows_joins [OF assms(1,2), of "batch_row spark g (mem_partition h) parameter" ?row "ph_order lp"] by blast
    moreover have k: "partition_join_key spark g l parameter = table_join_key spark g l parameter" for l
      using v by (simp add: partition_join_key_def table_join_key_def)
    ultimately show ?thesis
      using h(1) True v
      by (intro exI [of _ out]) (simp add: LastJoinRunner_Run_def group_right_def Partition_data_def partition_output_def PartitionJoin_partition_def
          batch_row_def k Option.bind_assoc)
  next
    case False
    have "Runner_RowLastJoinTable (jg_left_slices g) l (jg_right_slices g) (Some rt) parameter (jg_right_sort_gen g) (jg_condition_gen g) =
        Some (?row l)" if "l \<in> snd ` set (segs_rows segs key)" for key l
      using join_table_eq_request [OF _ False assms(3), of spark parameter l] assms(4) that by auto
    then obtain out where "ph_loop lp (\<lambda>key k l out. do {
          row \<leftarrow> Runner_RowLastJoinTable (jg_left_slices g) l (jg_right_slices g) (Some rt) parameter
            (jg_right_sort_gen g) (jg_condition_gen g);
          Some (snd (mp_AddRow key k row out))
        }) ?new = Some out" "\<And>key. seg_rows key out = map (\<lambda>(k, l). (k, ?row l)) (segs_rows segs key)"
      using seg_rows_joins [OF assms(1,2), of "\<lambda>l. Runner_RowLastJoinTable (jg_left_slices g) l (jg_right_slices g)
        (Some rt) parameter (jg_right_sort_gen g) (jg_condition_gen g)" ?row "ph_order lp"] by blast
    then show ?thesis
      using False by (intro exI [of _ out]) (simp add: LastJoinRunner_Run_def group_right_def partition_output_def PartitionJoin_table_def as_table_def)
  qed
  then obtain h where h: "LastJoinRunner_Run spark g parameter [Some (PartitionH lp), Some (TableH rt)] = Some (Some (PartitionH (mem_partition h)))"
    "\<And>key. seg_rows key h = map (\<lambda>(k, l). (k, ?row l)) (segs_rows segs key)" by blast
  have "table_rows (ph_segment (mem_partition h) key) (map (\<lambda>(k, l). (k, ?row l)) (segs_rows segs key))" for key
    using segment_table_rows [of h key] h(2) by (simp add: mem_partition_def)
  moreover have "RowLastJoin spark g l (TableH rt) parameter \<noteq> None" if "l \<in> snd ` set (segs_rows segs key)" for key l
    using RowLastJoinTable_finds [of rt xs spark g parameter l] assms(3,4) that by (auto simp: RowLastJoin_def table_rows_def)
  ultimately show ?thesis using h(1) by blast
qed

subsection \<open>A concrete join\<close>

definition none_gen :: "row_fn FnGenerator" where
  "none_gen = FnGenerator_new False None []"

text \<open>A left and a right key, an order and no condition.\<close>

definition sample_join :: "bool \<Rightarrow> row_fn FnGenerator \<Rightarrow> row_fn FnGenerator \<Rightarrow> JoinGenerator" where
  "sample_join asc key order =
     \<lparr>jg_condition_gen = none_gen, jg_left_key_gen = key, jg_right_group_gen = key, jg_index_key_gen = none_gen,
      jg_right_sort_gen = \<lparr>so_is_valid = True, so_is_asc = asc, so_order_gen = order\<rparr>, jg_left_slices = 1, jg_right_slices = 1\<rparr>"

lemma none_gen_invalid [simp]: "\<not> fg_Valid none_gen"
  by (simp add: none_gen_def FnGenerator_new_def fg_Valid_def)

lemma sample_join_exists:
  obtains g where "so_is_valid (jg_right_sort_gen g)" "\<not> so_is_asc (jg_right_sort_gen g)"
    "fg_Valid (jg_right_group_gen g)" "fg_Valid (jg_left_key_gen g)" "\<not> fg_Valid (jg_index_key_gen g)"
    "\<And>p l. l \<in> {mem_row, mem_row_2} \<Longrightarrow> join_ready False g p l sample_table"
    "\<And>p. keys_defined False (jg_right_group_gen g) p sample_table"
    "inj_on (order_of (jg_right_sort_gen g)) (snd ` set sample_table)"
proof -
  obtain k where k: "fg_Valid k" "\<And>p. KeyGenerator_Gen False k mem_row p = Some (bytes_of ''-7|ab'')"
    "\<And>p. KeyGenerator_Gen False k mem_row_2 p = Some (bytes_of ''12|!N@U#L$L%'')"
    by (rule key_generator_exists) blast
  obtain c where c: "fg_Valid c" "OrderGenerator_Gen c mem_row = Some (- 7)" "OrderGenerator_Gen c mem_row_2 = Some 12"
    by (rule order_generator_exists) blast
  show thesis
    by (rule that [of "sample_join False k c"])
      (use k c in \<open>auto simp: sample_join_def join_ready_def sort_ready_def cond_ready_def keys_defined_def defined_on_def
        sample_table_def order_of_def inj_on_def\<close>)
qed

theorem RowLastJoin_takes_latest_witness:
  "\<exists>g r. \<not> so_is_asc (jg_right_sort_gen g) \<and>
     latest_match (jg_right_sort_gen g) (join_match False g Row_default mem_row_2) sample_table r \<and>
     RowLastJoin False g mem_row_2 (TableH (time_table \<lparr>mt_table = sample_table, mt_order_type = kDescOrder\<rparr>)) Row_default =
       Row_concat (jg_left_slices g) mem_row_2 (jg_right_slices g) (or_empty r)"
proof -
  obtain g where g: "so_is_valid (jg_right_sort_gen g)" "\<not> so_is_asc (jg_right_sort_gen g)"
    "\<And>p l. l \<in> {mem_row, mem_row_2} \<Longrightarrow> join_ready False g p l sample_table"
    by (rule sample_join_exists) blast
  have "table_rows (time_table \<lparr>mt_table = sample_table, mt_order_type = kDescOrder\<rparr>) sample_table"
    using sample_table_has by (simp add: table_rows_def)
  then show ?thesis using RowLastJoin_takes_latest [OF _ g(3) g(1)] g(2) by blast
qed

theorem last_join_batch_eq_request_witness:
  "\<exists>g t out rows. LastJoinRunner_Run False g Row_default [Some (TableH t), Some (TableH t)] = Some (Some (TableH out)) \<and>
    table_has out (zip (map fst sample_table) rows) \<and> length rows = length sample_table \<and>
    RequestLastJoinRunner_Run False g False Row_default [Some (RowH mem_row_2), Some (TableH t)] = Some (Some (RowH (rows ! 1)))"
proof -
  obtain g where g: "so_is_valid (jg_right_sort_gen g)" "\<not> so_is_asc (jg_right_sort_gen g)"
    "fg_Valid (jg_right_group_gen g)" "fg_Valid (jg_left_key_gen g)" "\<not> fg_Valid (jg_index_key_gen g)"
    "\<And>p l. l \<in> {mem_row, mem_row_2} \<Longrightarrow> join_ready False g p l sample_table"
    "\<And>p. keys_defined False (jg_right_group_gen g) p sample_table"
    "inj_on (order_of (jg_right_sort_gen g)) (snd ` set sample_table)"
    by (rule sample_join_exists) blast
  let ?t = "time_table \<lparr>mt_table = sample_table, mt_order_type = kDescOrder\<rparr>"
  have o': "order_decides (jg_right_sort_gen g) sample_table" using g(8) by (simp add: order_decides_def)
  have r: "\<forall>l \<in> snd ` set sample_table. join_ready False g Row_default l sample_table"
    using g(6) by (simp add: sample_table_def)
  have "1 < length sample_table" "snd (sample_table ! 1) = mem_row_2" by (simp_all add: sample_table_def)
  then show ?thesis
    using last_join_batch_eq_request [OF sample_table_has sample_table_has g(3-5) o' g(7) r] by metis
qed

theorem last_join_keeps_segments_witness:
  "\<exists>g out. LastJoinRunner_Run False g Row_default
      [Some (PartitionH (mem_partition \<lparr>mp_partitions = [([97], [(5, mem_row)])], mp_order_type = kNoneOrder\<rparr>)),
       Some (TableH (time_table \<lparr>mt_table = sample_table, mt_order_type = kDescOrder\<rparr>))] = Some (Some (PartitionH out)) \<and>
    table_rows (ph_segment out [97])
      [(5, the (RowLastJoin False g mem_row (TableH (time_table \<lparr>mt_table = sample_table, mt_order_type = kDescOrder\<rparr>)) Row_default))]"
proof -
  obtain g where g: "so_is_valid (jg_right_sort_gen g)" "\<not> so_is_asc (jg_right_sort_gen g)"
    "fg_Valid (jg_right_group_gen g)" "fg_Valid (jg_left_key_gen g)" "\<not> fg_Valid (jg_index_key_gen g)"
    "\<And>p l. l \<in> {mem_row, mem_row_2} \<Longrightarrow> join_ready False g p l sample_table"
    "\<And>p. keys_defined False (jg_right_group_gen g) p sample_table"
    "inj_on (order_of (jg_right_sort_gen g)) (snd ` set sample_table)"
    by (rule sample_join_exists) blast
  let ?h = "\<lparr>mp_partitions = [([97], [(5, mem_row)])], mp_order_type = kNoneOrder\<rparr>"
  have p: "partition_has (mem_partition ?h) (mp_partitions ?h)" by (rule mem_partition_has) (simp add: seg_sorted_def)
  have o': "order_decides (jg_right_sort_gen g) sample_table" using g(8) by (simp add: order_decides_def)
  have r: "\<forall>key. \<forall>l \<in> snd ` set (segs_rows (mp_partitions ?h) key). join_ready False g Row_default l sample_table"
    using g(6) by (auto simp: segs_rows_def split: if_splits)
  have s: "segs_rows (mp_partitions ?h) [97] = [(5, mem_row)]" by (simp add: segs_rows_def)
  have d: "distinct (map fst (mp_partitions ?h))" by simp
  from last_join_keeps_segments [OF p d sample_table_has r conjI [OF g(4) conjI [OF g(5) conjI [OF o' g(7)]]]]
  obtain out where out: "LastJoinRunner_Run False g Row_default [Some (PartitionH (mem_partition ?h)),
       Some (TableH (time_table \<lparr>mt_table = sample_table, mt_order_type = kDescOrder\<rparr>))] = Some (Some (PartitionH out))"
    "table_rows (ph_segment out [97]) (map (\<lambda>(k, l). (k, the (RowLastJoin False g l
       (TableH (time_table \<lparr>mt_table = sample_table, mt_order_type = kDescOrder\<rparr>)) Row_default))) (segs_rows (mp_partitions ?h) [97]))"
    by blast
  then show ?thesis unfolding s by auto
qed

end
