(* ===== verification/Runner_Rel.thy ===== *)
theory Runner_Rel
  imports Runner_Join
begin

text \<open>
  The \<open>Run\<close> functions of the runners that group, sort, project, filter, limit and aggregate a table, and the functions
  that read the rows of a result. Inputs and results are null pointers where they are \<open>None\<close> of the inner option.
\<close>

subsection \<open>Grouping and sorting\<close>

definition GroupRunner_Run :: "bool \<Rightarrow> PartitionGenerator \<Rightarrow> Row \<Rightarrow> DataHandler option list \<Rightarrow> DataHandler option option" where
  "GroupRunner_Run spark g parameter inputs =
     (case inputs of
        Some input # _ \<Rightarrow> map_option (map_option PartitionH) (Partition_data spark g input parameter)
      | _ \<Rightarrow> Some None)"

definition SortRunner_Run :: "SortGenerator \<Rightarrow> DataHandler option list \<Rightarrow> DataHandler option option" where
  "SortRunner_Run g inputs =
     (case inputs of Some input # _ \<Rightarrow> Sort_data g (Some input) False | _ \<Rightarrow> Some None)"

subsection \<open>Projections\<close>

definition ConstProjectRunner_Run :: "const_fn FnGenerator \<Rightarrow> Row \<Rightarrow> DataHandler option option" where
  "ConstProjectRunner_Run g parameter = do {
     row \<leftarrow> ConstProjectGenerator_Gen g parameter;
     Some (Some (TableH (row_table (tb_AddRow row MemTableHandler_new))))
   }"

text \<open>The loop of a projection with a limit: \<open>limit_cnt_ > 0 && cnt++ >= limit_cnt_\<close> leaves it.\<close>

partial_function (option) project_loop :: "('it, Row) iter_ops \<Rightarrow> int \<Rightarrow> (Row \<Rightarrow> Row option) \<Rightarrow> 'it \<Rightarrow> int
    \<Rightarrow> MemTableHandler \<Rightarrow> MemTableHandler option" where
  "project_loop ops limit_cnt gen it cnt out =
     (if op_Valid ops it then
        if limit_cnt > 0 \<and> cnt \<ge> limit_cnt then Some out
        else do {
          v \<leftarrow> op_GetValue ops it;
          row \<leftarrow> gen v;
          it' \<leftarrow> op_Next ops it;
          project_loop ops limit_cnt gen it' (if limit_cnt > 0 then cnt + 1 else cnt) (tb_AddRow row out)
        }
      else Some out)"

definition TableProjectRunner_Run :: "row_fn FnGenerator \<Rightarrow> i32 \<Rightarrow> Row \<Rightarrow> DataHandler option list \<Rightarrow> DataHandler option option" where
  "TableProjectRunner_Run g limit_cnt parameter inputs =
     (case inputs of
        Some (TableH t) # _ \<Rightarrow> do {
          it \<leftarrow> th_first t;
          case it of
            None \<Rightarrow> Some None
          | Some i \<Rightarrow> do {
              out \<leftarrow> project_loop (th_ops t) (sint limit_cnt) (\<lambda>row. ProjectGenerator_Gen g row parameter) i 0 MemTableHandler_new;
              Some (Some (TableH (row_table out)))
            }
        }
      | _ \<Rightarrow> Some None)"

text \<open>A null input is dereferenced here, and one that is not a row is cast to a null pointer.\<close>

definition RowProjectRunner_Run :: "row_fn FnGenerator \<Rightarrow> Row \<Rightarrow> DataHandler option list \<Rightarrow> DataHandler option option" where
  "RowProjectRunner_Run g parameter inputs =
     (case inputs of
        [] \<Rightarrow> Some None
      | Some (RowH row) # _ \<Rightarrow> map_option (\<lambda>r. Some (RowH r)) (ProjectGenerator_Gen g row parameter)
      | _ \<Rightarrow> None)"

text \<open>The wrappers of \<open>catalog_wrapper.h\<close> apply the function when a row is read; a row's value is read here.\<close>

definition project_wrapper :: "(Row \<Rightarrow> Row option) \<Rightarrow> DataHandler option list \<Rightarrow> DataHandler option option" where
  "project_wrapper fn inputs =
     (case inputs of
        Some (TableH t) # _ \<Rightarrow> Some (Some (TableH (TableProjectWrapper fn t)))
      | Some (PartitionH p) # _ \<Rightarrow> Some (Some (PartitionH (PartitionProjectWrapper fn p)))
      | Some (RowH row) # _ \<Rightarrow> map_option (\<lambda>r. Some (RowH r)) (RowProjectWrapper_GetValue fn row)
      | _ \<Rightarrow> Some None)"

definition SimpleProjectRunner_Run :: "row_fn FnGenerator \<Rightarrow> Row \<Rightarrow> DataHandler option list \<Rightarrow> DataHandler option option" where
  "SimpleProjectRunner_Run g parameter inputs =
     project_wrapper (\<lambda>row. do { fn \<leftarrow> fg_fn g; RowProject fn row parameter }) inputs"

definition GetSliceFn :: "nat \<Rightarrow> Row \<Rightarrow> Row" where
  "GetSliceFn idx row =
     (if idx < GetRowPtrCnt row then Row_of_slice (GetSlice row idx) else Row_default)"

definition SelectSliceRunner_Run :: "nat \<Rightarrow> DataHandler option list \<Rightarrow> DataHandler option option" where
  "SelectSliceRunner_Run idx inputs = project_wrapper (\<lambda>row. Some (GetSliceFn idx row)) inputs"

subsection \<open>Limit and filter\<close>

partial_function (option) limit_loop :: "('it, Row) iter_ops \<Rightarrow> int \<Rightarrow> 'it \<Rightarrow> int \<Rightarrow> MemTableHandler \<Rightarrow> MemTableHandler option" where
  "limit_loop ops limit_cnt it cnt out =
     (if cnt < limit_cnt \<and> op_Valid ops it then do {
        v \<leftarrow> op_GetValue ops it;
        it' \<leftarrow> op_Next ops it;
        limit_loop ops limit_cnt it' (cnt + 1) (tb_AddRow v out)
      } else Some out)"

definition LimitRunner_Run :: "i32 \<Rightarrow> DataHandler option list \<Rightarrow> DataHandler option option" where
  "LimitRunner_Run limit_cnt inputs =
     (case inputs of
        Some (TableH t) # _ \<Rightarrow> do {
          it \<leftarrow> th_first t;
          case it of
            None \<Rightarrow> Some None
          | Some i \<Rightarrow> do {
              out \<leftarrow> limit_loop (th_ops t) (sint limit_cnt) i 0 MemTableHandler_new;
              Some (Some (TableH (row_table out)))
            }
        }
      | Some (RowH row) # _ \<Rightarrow> Some (Some (RowH row))
      | _ \<Rightarrow> Some None)"

definition FilterRunner_Run :: "(u32 \<Rightarrow> byte list) \<Rightarrow> (u64 \<Rightarrow> byte list) \<Rightarrow> bool \<Rightarrow> FilterGenerator \<Rightarrow> Row
    \<Rightarrow> DataHandler option list \<Rightarrow> DataHandler option option" where
  "FilterRunner_Run ff fd spark g parameter inputs =
     (case inputs of
        Some (TableH t) # _ \<Rightarrow> Some (map_option TableH (Filter_table g (Some t) parameter))
      | Some (PartitionH p) # _ \<Rightarrow> map_option (map_option TableH) (Filter_partition ff fd spark g (Some p) parameter)
      | _ \<Rightarrow> Some None)"

subsection \<open>Aggregation\<close>

text \<open>A compiled aggregate: the first row of the table with its key, the table and the parameter row.\<close>

type_synonym agg_fn = "u64 \<Rightarrow> Row \<Rightarrow> TableHandler \<Rightarrow> Row \<Rightarrow> u32 \<times> buffer"

definition GroupbyProject :: "agg_fn \<Rightarrow> Row \<Rightarrow> TableHandler \<Rightarrow> Row option" where
  "GroupbyProject fn parameter table = do {
     it \<leftarrow> th_first table;
     case it of
       None \<Rightarrow> Some Row_default
     | Some i \<Rightarrow>
         if \<not> op_Valid (th_ops table) i then Some Row_default
         else do {
           row \<leftarrow> op_GetValue (th_ops table) i;
           row_key \<leftarrow> op_GetKey (th_ops table) i;
           case fn row_key row table parameter of (ret, buf) \<Rightarrow>
             if ret \<noteq> 0 then Some Row_default else managed_row buf
         }
   }"

definition AggGenerator_Gen :: "agg_fn FnGenerator \<Rightarrow> Row \<Rightarrow> TableHandler \<Rightarrow> Row option" where
  "AggGenerator_Gen g parameter table = do { fn \<leftarrow> fg_fn g; GroupbyProject fn parameter table }"

definition AggRunner_Run :: "agg_fn FnGenerator \<Rightarrow> Row \<Rightarrow> DataHandler option list \<Rightarrow> DataHandler option option" where
  "AggRunner_Run g parameter inputs =
     (case inputs of
        Some (TableH t) # _ \<Rightarrow> map_option (\<lambda>r. Some (RowH r)) (AggGenerator_Gen g parameter t)
      | _ \<Rightarrow> Some None)"

text \<open>A null segment iterator ends the run with a null result.\<close>

fun group_agg_loop :: "agg_fn FnGenerator \<Rightarrow> int \<Rightarrow> Row \<Rightarrow> PartitionHandler \<Rightarrow> (byte list \<times> mem_iter option) list \<Rightarrow> int
    \<Rightarrow> MemTableHandler \<Rightarrow> MemTableHandler option option" where
  "group_agg_loop g limit_cnt parameter p [] cnt out = Some (Some out)"
| "group_agg_loop g limit_cnt parameter p ((key, seg) # ws) cnt out =
     (if limit_cnt > 0 \<and> cnt \<ge> limit_cnt then Some (Some out)
      else case seg of
        None \<Rightarrow> Some None
      | Some _ \<Rightarrow> do {
          row \<leftarrow> AggGenerator_Gen g parameter (ph_segment p key);
          group_agg_loop g limit_cnt parameter p ws (if limit_cnt > 0 then cnt + 1 else cnt) (tb_AddRow row out)
        })"

definition GroupAggRunner_Run :: "agg_fn FnGenerator \<Rightarrow> i32 \<Rightarrow> Row \<Rightarrow> DataHandler option list \<Rightarrow> DataHandler option option" where
  "GroupAggRunner_Run g limit_cnt parameter inputs =
     (case inputs of
        Some (PartitionH p) # _ \<Rightarrow>
          map_option (map_option (\<lambda>out. TableH (row_table out)))
            (group_agg_loop g (sint limit_cnt) parameter p (ph_windows p) 0 MemTableHandler_new)
      | _ \<Rightarrow> Some None)"

subsection \<open>Concatenation\<close>

text \<open>Both handlers compute their rows when they are first read; they are read here.\<close>

definition ConcatRunner_Run :: "nat \<Rightarrow> nat \<Rightarrow> DataHandler option list \<Rightarrow> DataHandler option option" where
  "ConcatRunner_Run left_slices right_slices inputs =
     (case inputs of
        left # right # _ \<Rightarrow>
          (case left of
             Some (RowH row) \<Rightarrow>
               map_option (\<lambda>r. Some (RowH r))
                 (RowCombine_value left_slices right_slices (Some row)
                   (case right of Some (RowH r) \<Rightarrow> Some (RowH r) | _ \<Rightarrow> None))
           | Some (TableH t) \<Rightarrow>
               map_option (\<lambda>h. Some (TableH (time_table h)))
                 (case right of
                    Some (TableH r) \<Rightarrow>
                      ct_SyncValue (th_ops t) (th_ops r) left_slices right_slices (th_iter t) (th_iter r) MemTimeTableHandler_new
                  | _ \<Rightarrow> ct_SyncValue (th_ops t) mem_iter_ops left_slices right_slices (th_iter t) None MemTimeTableHandler_new)
           | _ \<Rightarrow> Some None)
      | _ \<Rightarrow> Some None)"

subsection \<open>Reading results\<close>

definition ExtractRow :: "DataHandler \<Rightarrow> (bool \<times> Row option) option" where
  "ExtractRow handler =
     (case handler of
        TableH t \<Rightarrow> do {
          it \<leftarrow> th_first t;
          case it of
            None \<Rightarrow> Some (False, None)
          | Some i \<Rightarrow> if op_Valid (th_ops t) i then do { v \<leftarrow> op_GetValue (th_ops t) i; Some (True, Some v) }
                      else Some (False, None)
        }
      | RowH row \<Rightarrow> Some (True, Some row)
      | PartitionH _ \<Rightarrow> Some (False, None))"

definition ExtractRows :: "DataHandler option \<Rightarrow> Row list \<Rightarrow> (bool \<times> Row list) option" where
  "ExtractRows handler out_rows =
     (case handler of
        None \<Rightarrow> Some (False, out_rows)
      | Some (TableH t) \<Rightarrow> do {
          res \<leftarrow> th_loop t (\<lambda>k v rows. Some (rows @ [v])) out_rows;
          case res of None \<Rightarrow> Some (False, out_rows) | Some rows \<Rightarrow> Some (True, rows)
        }
      | Some (RowH row) \<Rightarrow> Some (True, out_rows @ [row])
      | Some (PartitionH _) \<Rightarrow> Some (False, out_rows))"

text \<open>Of a batch: a null handler is an empty row, and the first failure ends the loop.\<close>

fun extract_batch :: "DataHandler option list \<Rightarrow> Row list \<Rightarrow> (bool \<times> Row list) option" where
  "extract_batch [] out_rows = Some (True, out_rows)"
| "extract_batch (None # hs) out_rows = extract_batch hs (out_rows @ [Row_default])"
| "extract_batch (Some h # hs) out_rows = do {
     (ok, rows) \<leftarrow> ExtractRows (Some h) out_rows;
     if ok then extract_batch hs rows else Some (False, rows)
   }"

definition ExtractRows_list :: "DataHandlerList option \<Rightarrow> Row list \<Rightarrow> (bool \<times> Row list) option" where
  "ExtractRows_list handlers out_rows =
     (case handlers of
        None \<Rightarrow> Some (False, out_rows)
      | Some l \<Rightarrow> extract_batch (map (dl_Get l) [0..<dl_GetSize l]) out_rows)"

subsection \<open>The loops\<close>

context rows_iterator
begin

lemma project_loop_rest:
  assumes "ok it" and "\<forall>p \<in> set (rest it). gen (snd p) = Some (f (snd p))"
  shows "project_loop ops lim gen it cnt out =
    Some (out\<lparr>tb_table := tb_table out @ map f (if lim > 0 then take (nat (lim - cnt)) (map snd (rest it)) else map snd (rest it))\<rparr>)"
  using assms
proof (induction "rest it" arbitrary: it cnt out)
  case Nil
  then show ?case using valid_rest [of it] by (subst project_loop.simps) simp
next
  case (Cons p ps)
  note r = Cons.hyps(2) [symmetric]
  have v: "op_Valid ops it" "op_GetValue ops it = Some (snd p)"
    using at_rest [OF Cons.prems(1), of "fst p" "snd p"] valid_rest [OF Cons.prems(1)] r by simp_all
  obtain it' where it': "op_Next ops it = Some it'" "ok it'" "rest it' = ps" "whole it' = whole it"
    using next_rest [OF Cons.prems(1) r] by auto
  note IH = Cons.hyps(1) [of it', unfolded it'(3), OF refl it'(2)]
  show ?case
  proof (cases "lim > 0 \<and> cnt \<ge> lim")
    case True
    then show ?thesis using v by (subst project_loop.simps) simp
  next
    case False
    then have "lim > 0 \<Longrightarrow> nat (lim - cnt) = Suc (nat (lim - (cnt + 1)))" by simp
    then show ?thesis using False v it'(1) IH Cons.prems(2) r by (subst project_loop.simps) (auto simp: tb_AddRow_def)
  qed
qed

lemma limit_loop_rest:
  assumes "ok it"
  shows "limit_loop ops lim it cnt out = Some (out\<lparr>tb_table := tb_table out @ take (nat (lim - cnt)) (map snd (rest it))\<rparr>)"
  using assms
proof (induction "rest it" arbitrary: it cnt out)
  case Nil
  then show ?case using valid_rest [of it] by (subst limit_loop.simps) simp
next
  case (Cons p ps)
  note r = Cons.hyps(2) [symmetric]
  have v: "op_Valid ops it" "op_GetValue ops it = Some (snd p)"
    using at_rest [OF Cons.prems(1), of "fst p" "snd p"] valid_rest [OF Cons.prems(1)] r by simp_all
  obtain it' where it': "op_Next ops it = Some it'" "ok it'" "rest it' = ps" "whole it' = whole it"
    using next_rest [OF Cons.prems(1) r] by auto
  note IH = Cons.hyps(1) [of it', unfolded it'(3), OF refl it'(2)]
  show ?case
  proof (cases "cnt < lim")
    case True
    then have "nat (lim - cnt) = Suc (nat (lim - (cnt + 1)))" by simp
    then show ?thesis using True v it'(1) IH r by (subst limit_loop.simps) (simp add: tb_AddRow_def)
  next
    case False
    then show ?thesis by (subst limit_loop.simps) simp
  qed
qed

end

lemma table_loops:
  assumes "table_has t xs"
  obtains it where "th_first t = Some (Some it)"
    "\<And>lim gen f cnt out. \<forall>p \<in> set xs. gen (snd p) = Some (f (snd p)) \<Longrightarrow> project_loop (th_ops t) lim gen it cnt out =
      Some (out\<lparr>tb_table := tb_table out @ map f (if lim > 0 then take (nat (lim - cnt)) (map snd xs) else map snd xs)\<rparr>)"
    "\<And>lim cnt out. limit_loop (th_ops t) lim it cnt out = Some (out\<lparr>tb_table := tb_table out @ take (nat (lim - cnt)) (map snd xs)\<rparr>)"
proof -
  obtain ok rest whole it it' where r: "rows_iterator (th_ops t) ok rest whole" "th_first t = Some (Some it')" "ok it'" "rest it' = xs"
    using table_hasE [OF assms] by metis
  show thesis
  proof
    show "th_first t = Some (Some it')" by fact
    show "project_loop (th_ops t) lim gen it' cnt out =
      Some (out\<lparr>tb_table := tb_table out @ map f (if lim > 0 then take (nat (lim - cnt)) (map snd xs) else map snd xs)\<rparr>)"
      if "\<forall>p \<in> set xs. gen (snd p) = Some (f (snd p))" for lim gen f cnt out
      unfolding r(4) [symmetric] by (rule rows_iterator.project_loop_rest [OF r(1,3)]) (use that r(4) in simp)
    show "limit_loop (th_ops t) lim it' cnt out = Some (out\<lparr>tb_table := tb_table out @ take (nat (lim - cnt)) (map snd xs)\<rparr>)" for lim cnt out
      using rows_iterator.limit_loop_rest [OF r(1,3)] r(4) by simp
  qed
qed

definition projected :: "row_fn FnGenerator \<Rightarrow> Row \<Rightarrow> MemTimeTable \<Rightarrow> Row list" where
  "projected g parameter xs = map (\<lambda>p. the (ProjectGenerator_Gen g (snd p) parameter)) xs"

lemma TableProjectRunner_rows:
  assumes "table_has t xs" and "defined_on (\<lambda>row. ProjectGenerator_Gen g row parameter) xs"
  shows "TableProjectRunner_Run g n parameter [Some (TableH t)] =
    Some (Some (TableH (row_table \<lparr>tb_table = (if 0 < sint n then take (nat (sint n)) (projected g parameter xs) else projected g parameter xs),
      tb_order_type = kNoneOrder\<rparr>)))"
proof -
  have "\<forall>p \<in> set xs. ProjectGenerator_Gen g (snd p) parameter = Some (the (ProjectGenerator_Gen g (snd p) parameter))"
    using assms(2) by (auto simp: defined_on_def)
  then show ?thesis
    by (rule_tac table_loops [OF assms(1)])
      (auto simp: TableProjectRunner_Run_def MemTableHandler_new_def projected_def take_map comp_def)
qed

lemma LimitRunner_rows:
  assumes "table_has t xs"
  shows "LimitRunner_Run n [Some (TableH t)] =
    Some (Some (TableH (row_table \<lparr>tb_table = take (nat (sint n)) (map snd xs), tb_order_type = kNoneOrder\<rparr>)))"
  by (rule table_loops [OF assms]) (simp add: LimitRunner_Run_def MemTableHandler_new_def)

subsection \<open>Properties\<close>

text \<open>C36. A projection with a positive limit gives the table that the projection without a limit followed by the limit
  runner gives, where the projection is defined on every row of the input.\<close>

theorem project_limit_eq_limit_project:
  assumes "table_has t xs" and "defined_on (\<lambda>row. ProjectGenerator_Gen g row parameter) xs" and "0 < sint n"
  shows "TableProjectRunner_Run g n parameter [Some (TableH t)] =
    (do { out \<leftarrow> TableProjectRunner_Run g 0 parameter [Some (TableH t)]; LimitRunner_Run n [out] })"
proof -
  let ?all = "\<lparr>tb_table = projected g parameter xs, tb_order_type = kNoneOrder\<rparr>"
  have "LimitRunner_Run n [Some (TableH (row_table ?all))] =
      Some (Some (TableH (row_table \<lparr>tb_table = take (nat (sint n)) (map snd (row_entries (tb_table ?all))), tb_order_type = kNoneOrder\<rparr>)))"
    by (rule LimitRunner_rows) (rule row_table_has)
  then show ?thesis
    using TableProjectRunner_rows [OF assms(1,2)] assms(3) by simp
qed

lemma group_agg_loop_rows:
  assumes "\<And>w. w \<in> set ws \<Longrightarrow> snd w \<noteq> None \<and> AggGenerator_Gen g parameter (ph_segment p (fst w)) = Some (f (fst w))"
  shows "group_agg_loop g 0 parameter p ws cnt out = Some (Some (out\<lparr>tb_table := tb_table out @ map (\<lambda>w. f (fst w)) ws\<rparr>))"
  using assms
proof (induction ws arbitrary: cnt out)
  case (Cons w ws)
  obtain key seg where w: "w = (key, seg)" by (cases w)
  have "seg \<noteq> None" "AggGenerator_Gen g parameter (ph_segment p key) = Some (f key)" using Cons.prems [of w] w by simp_all
  moreover have "group_agg_loop g 0 parameter p ws cnt' out' = Some (Some (out'\<lparr>tb_table := tb_table out' @ map (\<lambda>w. f (fst w)) ws\<rparr>))"
    for cnt' out' using Cons.prems by (intro Cons.IH) simp
  ultimately show ?case using w by (auto simp: tb_AddRow_def)
qed simp

text \<open>C35. GROUP BY with an aggregate: the output has one row per distinct key of the table, the keys in descending order,
  and each row is the aggregate of the segment of its key, which holds exactly the rows with that key.\<close>

theorem group_by_aggregates:
  assumes "table_has t xs" and "fg_Valid g" and "keys_defined spark g parameter xs"
    and "\<forall>seg ys. table_rows seg ys \<longrightarrow> AggGenerator_Gen a parameter seg \<noteq> None"
  shows "\<exists>p keys out. GroupRunner_Run spark g parameter [Some (TableH t)] = Some (Some (PartitionH p)) \<and>
    sorted_wrt (\<lambda>k k'. k' < k) keys \<and> set keys = key_of spark g parameter ` snd ` set xs \<and>
    GroupAggRunner_Run a 0 parameter [Some (PartitionH p)] = Some (Some (TableH (row_table out))) \<and>
    map Some (tb_table out) = map (\<lambda>key. AggGenerator_Gen a parameter (ph_segment p key)) keys \<and>
    (\<forall>key. table_rows (ph_segment p key) (group_rows spark g parameter xs key))"
proof -
  obtain h where h: "Partition_table spark g (Some t) parameter = Some (Some (mem_partition h))" "seg_sorted (mp_partitions h)"
    "\<And>key. seg_rows key h = group_rows spark g parameter xs key" "fst ` set (mp_partitions h) = key_of spark g parameter ` snd ` set xs"
    by (rule Partition_table_groups [OF assms(1-3)]) blast
  let ?p = "mem_partition h" and ?keys = "map fst (mp_partitions h)"
  let ?f = "\<lambda>key. the (AggGenerator_Gen a parameter (ph_segment ?p key))"
  have s: "table_rows (ph_segment ?p key) (group_rows spark g parameter xs key)" for key
    using segment_table_rows [of h key] h(3) by (simp add: mem_partition_def)
  then have f: "AggGenerator_Gen a parameter (ph_segment ?p key) = Some (?f key)" for key
    using assms(4) by (metis option.collapse)
  have w: "map fst (ph_windows ?p) = ?keys" "\<forall>w \<in> set (ph_windows ?p). snd w \<noteq> None"
    by (auto simp: mem_partition_def)
  have "map (\<lambda>w. ?f (fst w)) (ph_windows ?p) = map ?f (map fst (ph_windows ?p))" by simp
  then have "GroupAggRunner_Run a 0 parameter [Some (PartitionH ?p)] =
      Some (Some (TableH (row_table (MemTableHandler_new\<lparr>tb_table := map ?f ?keys\<rparr>))))"
    using group_agg_loop_rows [of "ph_windows ?p" a parameter ?p ?f 0 MemTableHandler_new] f w
    by (simp add: GroupAggRunner_Run_def MemTableHandler_new_def)
  moreover have "GroupRunner_Run spark g parameter [Some (TableH t)] = Some (Some (PartitionH ?p))"
    using h(1) by (simp add: GroupRunner_Run_def Partition_data_def)
  moreover have "sorted_wrt (\<lambda>k k'. k' < k) ?keys" using h(2) by (simp add: seg_sorted_def sorted_wrt_map)
  moreover have "map Some (map ?f ?keys) = map (\<lambda>key. AggGenerator_Gen a parameter (ph_segment ?p key)) ?keys" using f by simp
  ultimately show ?thesis using s h(4)
    by (intro exI [of _ ?p] exI [of _ ?keys] exI [of _ "MemTableHandler_new\<lparr>tb_table := map ?f ?keys\<rparr>"]) simp
qed

subsection \<open>Concrete projections and aggregates\<close>

lemma GroupbyProject_some:
  assumes "table_rows seg ys" and "\<And>k v. case fn k v seg parameter of (ret, buf) \<Rightarrow> ret \<noteq> 0 \<or> managed_row buf \<noteq> None"
  shows "GroupbyProject fn parameter seg \<noteq> None"
proof (cases "table_has seg ys")
  case True
  obtain it where it: "th_first seg = Some (Some it)" "op_Valid (th_ops seg) it \<longleftrightarrow> ys \<noteq> []"
    "\<And>k v zs. ys = (k, v) # zs \<Longrightarrow> op_GetKey (th_ops seg) it = Some k \<and> op_GetValue (th_ops seg) it = Some v"
    using table_loop [OF True] by metis
  show ?thesis
  proof (cases ys)
    case Nil
    then show ?thesis using it(1,2) by (simp add: GroupbyProject_def)
  next
    case (Cons q zs)
    then show ?thesis
      using it(1,2) it(3) [of "fst q" "snd q" zs] assms(2) [of "fst q" "snd q"]
      by (auto simp: GroupbyProject_def split: prod.splits)
  qed
next
  case False
  then show ?thesis using assms(1) by (simp add: table_rows_def GroupbyProject_def th_first_def)
qed

theorem project_limit_eq_limit_project_witness:
  "\<exists>g t. TableProjectRunner_Run g 2 Row_default [Some (TableH t)] =
    (do { out \<leftarrow> TableProjectRunner_Run g 0 Row_default [Some (TableH t)]; LimitRunner_Run 2 [out] }) \<and>
    TableProjectRunner_Run g 2 Row_default [Some (TableH t)] \<noteq> None"
proof -
  obtain m m' T T' where m: "enc_ok False key_schema key_row_1 T"
      "enc_mem False key_schema key_row_1 T (length key_schema) (length key_schema) m"
    and "enc_ok False key_schema key_row_2 T'"
      "enc_mem False key_schema key_row_2 T' (length key_schema) (length key_schema) m'"
    by (rule key_rows_encoded)
  let ?g = "FnGenerator_new False (Some (\<lambda>row parameter. (0, m))) key_schema"
  have d: "defined_on (\<lambda>row. ProjectGenerator_Gen ?g row Row_default) sample_table"
    using RowProject_enc [OF m, of "\<lambda>row parameter. (0, m)"]
    by (auto simp: defined_on_def sample_table_def ProjectGenerator_Gen_def FnGenerator_new_def)
  let ?t = "time_table \<lparr>mt_table = sample_table, mt_order_type = kDescOrder\<rparr>"
  have "TableProjectRunner_Run ?g 2 Row_default [Some (TableH ?t)] =
    (do { out \<leftarrow> TableProjectRunner_Run ?g 0 Row_default [Some (TableH ?t)]; LimitRunner_Run 2 [out] })"
    by (rule project_limit_eq_limit_project [OF sample_table_has d]) simp
  moreover have "TableProjectRunner_Run ?g 2 Row_default [Some (TableH ?t)] \<noteq> None"
    unfolding TableProjectRunner_rows [OF sample_table_has d] by simp
  ultimately show ?thesis by blast
qed

theorem group_by_aggregates_witness:
  "\<exists>g a p keys out. GroupRunner_Run False g Row_default
      [Some (TableH (time_table \<lparr>mt_table = sample_table, mt_order_type = kDescOrder\<rparr>))] = Some (Some (PartitionH p)) \<and>
    set keys = {bytes_of ''-7|ab'', bytes_of ''12|!N@U#L$L%''} \<and>
    GroupAggRunner_Run a 0 Row_default [Some (PartitionH p)] = Some (Some (TableH (row_table out))) \<and>
    map Some (tb_table out) = map (\<lambda>key. AggGenerator_Gen a Row_default (ph_segment p key)) keys"
proof -
  obtain g where g: "fg_Valid g" "\<And>p. KeyGenerator_Gen False g mem_row p = Some (bytes_of ''-7|ab'')"
    "\<And>p. KeyGenerator_Gen False g mem_row_2 p = Some (bytes_of ''12|!N@U#L$L%'')"
    by (rule key_generator_exists) blast
  obtain m m' T T' where m: "enc_ok False key_schema key_row_1 T"
      "enc_mem False key_schema key_row_1 T (length key_schema) (length key_schema) m"
    and "enc_ok False key_schema key_row_2 T'"
      "enc_mem False key_schema key_row_2 T' (length key_schema) (length key_schema) m'"
    by (rule key_rows_encoded)
  let ?a = "FnGenerator_new False (Some (\<lambda>k v t parameter. (0, m))) key_schema"
  have a: "\<forall>seg ys. table_rows seg ys \<longrightarrow> AggGenerator_Gen ?a Row_default seg \<noteq> None"
    using GroupbyProject_some [of _ _ "\<lambda>k v t parameter. (0, m)" Row_default] managed_row_enc [OF m]
    by (simp add: AggGenerator_Gen_def FnGenerator_new_def)
  have d: "keys_defined False g Row_default sample_table"
    using g(2,3) by (simp add: keys_defined_def defined_on_def sample_table_def)
  have "key_of False g Row_default ` snd ` set sample_table = {bytes_of ''-7|ab'', bytes_of ''12|!N@U#L$L%''}"
    using g(2,3) by (auto simp: key_of_def sample_table_def)
  then show ?thesis using group_by_aggregates [OF sample_table_has g(1) d a] by metis
qed

end
