(* ===== verification/Runner_Window.thy ===== *)
theory Runner_Window
  imports Runner_Rel
begin

text \<open>
  Windows of the runners: the request window, which merges the segments of the request's key from the newest row back
  (\<open>RequestUnionRunner\<close>), and the batch window, which buffers the rows of a segment in order of time
  (\<open>WindowAggRunner\<close>). A compiled window function is a parameter: it gets the key, the row and the rows of the window,
  newest first.
\<close>

subsection \<open>IteratorStatus\<close>

record IteratorStatus =
  is_valid :: bool
  is_key :: u64

definition IteratorStatus_new :: IteratorStatus where
  "IteratorStatus_new = \<lparr>is_valid = False, is_key = 0\<rparr>"

definition IteratorStatus_key :: "u64 \<Rightarrow> IteratorStatus" where
  "IteratorStatus_key key = \<lparr>is_valid = True, is_key = key\<rparr>"

definition MarkInValid :: "IteratorStatus \<Rightarrow> IteratorStatus" where
  "MarkInValid s = s\<lparr>is_valid := False, is_key := 0\<rparr>"

definition set_key :: "u64 \<Rightarrow> IteratorStatus \<Rightarrow> IteratorStatus" where
  "set_key key s = s\<lparr>is_key := key\<rparr>"

fun pick_min :: "nat \<Rightarrow> IteratorStatus list \<Rightarrow> int \<Rightarrow> u64 \<Rightarrow> int" where
  "pick_min i [] pos order = pos"
| "pick_min i (s # ss) pos order =
     (if is_valid s \<and> is_key s < order then pick_min (Suc i) ss (int i) (is_key s)
      else pick_min (Suc i) ss pos order)"

definition PickIteratorWithMininumKey :: "IteratorStatus list \<Rightarrow> int" where
  "PickIteratorWithMininumKey ss = pick_min 0 ss (- 1) (- 1)"

fun pick_max :: "nat \<Rightarrow> IteratorStatus list \<Rightarrow> int \<Rightarrow> u64 \<Rightarrow> int" where
  "pick_max i [] pos order = pos"
| "pick_max i (s # ss) pos order =
     (if is_valid s \<and> is_key s \<ge> order then pick_max (Suc i) ss (int i) (is_key s)
      else pick_max (Suc i) ss pos order)"

definition PickIteratorWithMaximizeKey :: "IteratorStatus list \<Rightarrow> int" where
  "PickIteratorWithMaximizeKey ss = pick_max 0 ss (- 1) 0"

text \<open>The status of an iterator, and the one after a step.\<close>

type_synonym segment_iter = "(TableHandler \<times> mem_iter) option"

definition iter_status :: "TableHandler \<Rightarrow> mem_iter \<Rightarrow> IteratorStatus option" where
  "iter_status t it =
     (if \<not> op_Valid (th_ops t) it then Some IteratorStatus_new
      else do { ts \<leftarrow> op_GetKey (th_ops t) it; Some (IteratorStatus_key ts) })"

definition step_status :: "TableHandler \<Rightarrow> mem_iter \<Rightarrow> IteratorStatus \<Rightarrow> IteratorStatus option" where
  "step_status t it s =
     (if \<not> op_Valid (th_ops t) it then Some (MarkInValid s)
      else do { ts \<leftarrow> op_GetKey (th_ops t) it; Some (set_key ts s) })"

definition segment_status :: "(TableHandler \<Rightarrow> mem_iter \<Rightarrow> mem_iter option) \<Rightarrow> TableHandler option
    \<Rightarrow> (segment_iter \<times> IteratorStatus) option" where
  "segment_status seek segment =
     (case segment of
        None \<Rightarrow> Some (None, IteratorStatus_new)
      | Some t \<Rightarrow>
          (case th_iter t of
             None \<Rightarrow> Some (None, IteratorStatus_new)
           | Some it \<Rightarrow> do { it' \<leftarrow> seek t it; s \<leftarrow> iter_status t it'; Some (Some (t, it'), s) }))"

subsection \<open>The request window\<close>

partial_function (option) request_union_loop :: "WindowRange \<Rightarrow> u64 \<Rightarrow> u64 \<Rightarrow> u64 \<Rightarrow> u64 \<Rightarrow> segment_iter list
    \<Rightarrow> IteratorStatus list \<Rightarrow> u64 \<Rightarrow> MemTimeTableHandler \<Rightarrow> MemTimeTableHandler option" where
  "request_union_loop r start end' rows_start max_size iters status cnt out =
     (let pos = PickIteratorWithMaximizeKey status in
      if pos = - 1 then Some out
      else if max_size > 0 \<and> cnt \<ge> max_size then Some out
      else do {
        s \<leftarrow> vec_at status (nat pos);
        let range_status = GetWindowPositionStatus r (cnt > rows_start) (is_key s > end') (is_key s < start);
        if range_status = kExceedWindow then Some out
        else do {
          seg \<leftarrow> vec_at iters (nat pos);
          ti \<leftarrow> seg;
          out' \<leftarrow> (if range_status = kInWindow
                   then do { v \<leftarrow> op_GetValue (th_ops (fst ti)) (snd ti); Some (mt_AddRow (is_key s) v out) }
                   else Some out);
          it' \<leftarrow> op_Next (th_ops (fst ti)) (snd ti);
          s' \<leftarrow> step_status (fst ti) it' s;
          request_union_loop r start end' rows_start max_size (iters[nat pos := Some (fst ti, it')]) (status[nat pos := s'])
            (if range_status = kInWindow then cnt + 1 else cnt) out'
        }
      })"

definition RequestUnionWindow :: "Row \<Rightarrow> TableHandler option list \<Rightarrow> i64 \<Rightarrow> WindowRange \<Rightarrow> bool \<Rightarrow> bool \<Rightarrow> TableHandler option" where
  "RequestUnionWindow request union_segments ts_gen r output_request_row exclude_current_time = do {
     let start = (if sint ts_gen \<ge> 0 then offset_ts ts_gen (wr_start_offset r) else 0);
     let end' = (if sint ts_gen \<ge> 0
                 then offset_ts ts_gen (if exclude_current_time \<and> 0 = wr_end_offset r then - 1 else wr_end_offset r)
                 else - 1);
     let rows_start_preceding = (if sint ts_gen \<ge> 0 then wr_start_row r else 0);
     let max_size = (if sint ts_gen \<ge> 0 then wr_max_size r else 0);
     let request_key = (if sint ts_gen > 0 then ts_gen else 0);
     segs \<leftarrow> those (map (segment_status (\<lambda>t. op_Seek (th_ops t) end')) union_segments);
     let range_status = GetWindowPositionStatus r (0 > rows_start_preceding) (sint (wr_end_offset r) < 0) (request_key < start);
     let out = (if output_request_row then mt_AddRow request_key request MemTimeTableHandler_new else MemTimeTableHandler_new);
     res \<leftarrow> request_union_loop r start end' rows_start_preceding max_size (map fst segs) (map snd segs)
             (if kInWindow = range_status then 1 else 0) out;
     Some (time_table res)
   }"

text \<open>\<open>RequestUnionRunner::Run\<close>: the outputs of the union's input runners, one per window generator.\<close>

definition GetRequestWindows :: "bool \<Rightarrow> RequestWindowGenertor list \<Rightarrow> Row \<Rightarrow> Row \<Rightarrow> DataHandler option list
    \<Rightarrow> TableHandler option list option" where
  "GetRequestWindows spark windows_gen row parameter union_inputs =
     those (map2 (\<lambda>g input. GetRequestWindow spark g row parameter input) windows_gen union_inputs)"

record RangeGenerator =
  ra_ts_gen :: "row_fn FnGenerator"
  ra_window_range :: WindowRange

definition RequestUnionRunner_Run :: "bool \<Rightarrow> RangeGenerator \<Rightarrow> RequestWindowGenertor list \<Rightarrow> bool \<Rightarrow> bool \<Rightarrow> Row
    \<Rightarrow> DataHandler option list \<Rightarrow> DataHandler option list \<Rightarrow> DataHandler option option" where
  "RequestUnionRunner_Run spark range_gen windows_gen exclude_current_time output_request_row parameter union_inputs inputs =
     (case inputs of
        Some (RowH request) # Some right # _ \<Rightarrow> do {
          ts_gen \<leftarrow> (if fg_Valid (ra_ts_gen range_gen) then OrderGenerator_Gen (ra_ts_gen range_gen) request else Some (- 1));
          union_segments \<leftarrow> GetRequestWindows spark windows_gen request parameter union_inputs;
          t \<leftarrow> RequestUnionWindow request union_segments ts_gen (ra_window_range range_gen) output_request_row exclude_current_time;
          Some (Some (TableH t))
        }
      | _ \<Rightarrow> Some None)"

text \<open>\<open>PostRequestUnionRunner::Run\<close>: what its \<open>RequestUnionTableHandler\<close> is built from.\<close>

definition PostRequestUnionRunner_Run :: "row_fn FnGenerator \<Rightarrow> DataHandler option list
    \<Rightarrow> (u64 \<times> Row \<times> TableHandler) option option" where
  "PostRequestUnionRunner_Run ts_gen inputs =
     (case inputs of
        Some (RowH request_row) # Some right # _ \<Rightarrow> do {
          request_key \<leftarrow> OrderGenerator_Gen ts_gen request_row;
          Some (case right of TableH t \<Rightarrow> Some (request_key, request_row, t) | _ \<Rightarrow> None)
        }
      | _ \<Rightarrow> Some None)"

subsection \<open>The batch window\<close>

type_synonym window_fn = "u64 \<Rightarrow> Row \<Rightarrow> MemTimeTable \<Rightarrow> Row \<Rightarrow> u32 \<times> buffer"

definition WindowProject :: "window_fn \<Rightarrow> u64 \<Rightarrow> Row \<Rightarrow> Row \<Rightarrow> bool \<Rightarrow> nat \<Rightarrow> Window \<Rightarrow> (Row \<times> Window) option" where
  "WindowProject fn key row parameter is_instance append_slices w =
     (if Row_empty row then Some (row, w)
      else do {
        (ok, w1) \<leftarrow> HistoryWindow_BufferData key row w;
        if \<not> ok then Some (Row_default, w1)
        else if \<not> is_instance then Some (Row_default, w1)
        else (case fn key row (w_table w1) parameter of (ret, out_buf) \<Rightarrow>
          if ret \<noteq> 0 then Some (Row_default, w1)
          else do {
            w2 \<leftarrow> (if w_instance_not_in_window w1 then HistoryWindow_PopFrontData w1 else Some w1);
            out \<leftarrow> managed_row out_buf;
            out' \<leftarrow> (if append_slices > 0 then Row_cons (row_slice out) append_slices row else Some out);
            Some (out', w2)
          })
      })"

definition WindowProjectGenerator_Gen :: "window_fn FnGenerator \<Rightarrow> u64 \<Rightarrow> Row \<Rightarrow> Row \<Rightarrow> bool \<Rightarrow> nat \<Rightarrow> Window \<Rightarrow> (Row \<times> Window) option" where
  "WindowProjectGenerator_Gen g key row parameter is_instance append_slices w = do {
     fn \<leftarrow> fg_fn g;
     WindowProject fn key row parameter is_instance append_slices w
   }"

record WindowGenerator =
  wg_partition_gen :: PartitionGenerator
  wg_sort_gen :: SortGenerator
  wg_range_gen :: RangeGenerator

definition OrderKey :: "WindowGenerator \<Rightarrow> Row \<Rightarrow> i64 option" where
  "OrderKey g row = OrderGenerator_Gen (ra_ts_gen (wg_range_gen g)) row"

definition PartitionEach :: "bool \<Rightarrow> WindowGenerator list \<Rightarrow> DataHandler option list \<Rightarrow> Row \<Rightarrow> PartitionHandler option list option" where
  "PartitionEach spark windows_gen union_inputs parameter =
     those (map2 (\<lambda>g input. do { d \<leftarrow> input; Partition_data spark (wg_partition_gen g) d parameter }) windows_gen union_inputs)"

definition WindowJoin_Join :: "bool \<Rightarrow> JoinGenerator list \<Rightarrow> Row \<Rightarrow> DataHandler option list \<Rightarrow> Row \<Rightarrow> Row option" where
  "WindowJoin_Join spark joins_gen left_row join_right_tables parameter =
     fold_opt (\<lambda>(g, right) row. do { d \<leftarrow> right; RowLastJoin spark g row d parameter }) (zip joins_gen join_right_tables) left_row"

record WindowAggRunner =
  wa_limit_cnt :: i32
  wa_instance_not_in_window :: bool
  wa_exclude_current_time :: bool
  wa_append_slices :: nat
  wa_instance_window_gen :: WindowGenerator
  wa_windows_union_gen :: "WindowGenerator list"
  wa_windows_join_gen :: "JoinGenerator list"
  wa_window_project_gen :: "window_fn FnGenerator"

text \<open>A row joined with the tables of the window's joins.\<close>

definition window_row :: "bool \<Rightarrow> WindowAggRunner \<Rightarrow> DataHandler option list \<Rightarrow> Row \<Rightarrow> Row \<Rightarrow> Row option" where
  "window_row spark g joins parameter row =
     (if wa_windows_join_gen g \<noteq> [] then WindowJoin_Join spark (wa_windows_join_gen g) row joins parameter else Some row)"

text \<open>The inner loop: the union rows strictly older than the instance row.\<close>

partial_function (option) window_union_loop :: "(Row \<Rightarrow> Row option) \<Rightarrow> (u64 \<Rightarrow> Row \<Rightarrow> Window \<Rightarrow> (Row \<times> Window) option) \<Rightarrow> u64
    \<Rightarrow> segment_iter list \<Rightarrow> IteratorStatus list \<Rightarrow> Window \<Rightarrow> (segment_iter list \<times> IteratorStatus list \<times> Window) option" where
  "window_union_loop join gen instance_order iters status w =
     (let pos = (if iters = [] then - 1 else PickIteratorWithMininumKey status) in
      if pos \<ge> 0 then do {
        s \<leftarrow> vec_at status (nat pos);
        if is_key s < instance_order then do {
          seg \<leftarrow> vec_at iters (nat pos);
          ti \<leftarrow> seg;
          v \<leftarrow> op_GetValue (th_ops (fst ti)) (snd ti);
          row \<leftarrow> join v;
          k \<leftarrow> op_GetKey (th_ops (fst ti)) (snd ti);
          rw \<leftarrow> gen k row w;
          it' \<leftarrow> op_Next (th_ops (fst ti)) (snd ti);
          s' \<leftarrow> step_status (fst ti) it' s;
          window_union_loop join gen instance_order (iters[nat pos := Some (fst ti, it')]) (status[nat pos := s']) (snd rw)
        } else Some (iters, status, w)
      } else Some (iters, status, w))"

partial_function (option) window_instance_loop :: "bool \<Rightarrow> WindowAggRunner \<Rightarrow> DataHandler option list \<Rightarrow> Row \<Rightarrow> TableHandler
    \<Rightarrow> mem_iter \<Rightarrow> segment_iter list \<Rightarrow> IteratorStatus list \<Rightarrow> int \<Rightarrow> Window \<Rightarrow> MemTableHandler \<Rightarrow> MemTableHandler option" where
  "window_instance_loop spark g joins parameter t it iters status cnt w out =
     (if op_Valid (th_ops t) it \<and> \<not> (sint (wa_limit_cnt g) > 0 \<and> cnt \<ge> sint (wa_limit_cnt g)) then do {
        instance_row \<leftarrow> op_GetValue (th_ops t) it;
        instance_order \<leftarrow> op_GetKey (th_ops t) it;
        st \<leftarrow> window_union_loop (window_row spark g joins parameter)
                (\<lambda>k row. WindowProjectGenerator_Gen (wa_window_project_gen g) k row parameter False (wa_append_slices g))
                instance_order iters status w;
        row \<leftarrow> window_row spark g joins parameter instance_row;
        rw \<leftarrow> WindowProjectGenerator_Gen (wa_window_project_gen g) instance_order row parameter True (wa_append_slices g)
                (snd (snd st));
        it' \<leftarrow> op_Next (th_ops t) it;
        window_instance_loop spark g joins parameter t it' (fst st) (fst (snd st)) (cnt + 1) (snd rw) (tb_AddRow (fst rw) out)
      } else Some out)"

text \<open>A null partition leaves the default status and a null iterator.\<close>

definition union_segment :: "SortGenerator \<Rightarrow> PartitionHandler option \<Rightarrow> byte list \<Rightarrow> (segment_iter \<times> IteratorStatus) option" where
  "union_segment g p key =
     (case p of
        None \<Rightarrow> Some (None, IteratorStatus_new)
      | Some p' \<Rightarrow> do {
          segment \<leftarrow> Sort_table g (Some (ph_segment p' key)) False;
          segment_status (\<lambda>t. op_SeekToFirst (th_ops t)) segment
        })"

definition RunWindowAggOnKey :: "bool \<Rightarrow> WindowAggRunner \<Rightarrow> Row \<Rightarrow> PartitionHandler \<Rightarrow> PartitionHandler option list
    \<Rightarrow> DataHandler option list \<Rightarrow> byte list \<Rightarrow> MemTableHandler \<Rightarrow> MemTableHandler option" where
  "RunWindowAggOnKey spark g parameter instance_partition union_partitions joins key out = do {
     instance_segment \<leftarrow> Sort_table (wg_sort_gen (wa_instance_window_gen g)) (Some (ph_segment instance_partition key)) False;
     case instance_segment of
       None \<Rightarrow> Some out
     | Some t \<Rightarrow> do {
         instance_iter \<leftarrow> th_first t;
         case instance_iter of
           None \<Rightarrow> Some out
         | Some it \<Rightarrow> do {
             segs \<leftarrow> those (map2 (\<lambda>u p. union_segment (wg_sort_gen u) p key) (wa_windows_union_gen g) union_partitions);
             let w = (Window_new (ra_window_range (wg_range_gen (wa_instance_window_gen g))))
                       \<lparr>w_exclude_current_time := wa_exclude_current_time g,
                        w_instance_not_in_window := wa_instance_not_in_window g\<rparr>;
             window_instance_loop spark g joins parameter t it (map fst segs) (map snd segs) (int (length (tb_table out))) w out
           }
       }
   }"

definition WindowAggRunner_Run :: "bool \<Rightarrow> WindowAggRunner \<Rightarrow> Row \<Rightarrow> DataHandler option list \<Rightarrow> DataHandler option list
    \<Rightarrow> DataHandler option list \<Rightarrow> DataHandler option option" where
  "WindowAggRunner_Run spark g parameter union_inputs joins inputs =
     (case inputs of
        Some input # _ \<Rightarrow> do {
          instance_partition \<leftarrow> Partition_data spark (wg_partition_gen (wa_instance_window_gen g)) input parameter;
          case instance_partition of
            None \<Rightarrow> Some None
          | Some p \<Rightarrow> do {
              union_partitions \<leftarrow> PartitionEach spark (wa_windows_union_gen g) union_inputs parameter;
              out \<leftarrow> fold_opt (\<lambda>(key, seg) out. RunWindowAggOnKey spark g parameter p union_partitions joins key out)
                       (ph_windows p) MemTableHandler_new;
              Some (Some (TableH (row_table out)))
            }
        }
      | _ \<Rightarrow> Some None)"

subsection \<open>The newest of the heads\<close>

definition picks_max :: "IteratorStatus list \<Rightarrow> u64 \<Rightarrow> nat \<Rightarrow> bool" where
  "picks_max ss order j \<longleftrightarrow> j < length ss \<and> is_valid (ss ! j) \<and> order \<le> is_key (ss ! j) \<and>
     (\<forall>s \<in> set ss. is_valid s \<longrightarrow> is_key s \<le> is_key (ss ! j))"

lemma picks_max_Cons:
  "picks_max ss order j \<Longrightarrow> is_valid s \<longrightarrow> is_key s \<le> order \<Longrightarrow> order' \<le> order \<Longrightarrow> picks_max (s # ss) order' (Suc j)"
  by (auto simp: picks_max_def)

lemma pick_max_spec:
  "(\<forall>s \<in> set ss. is_valid s \<longrightarrow> is_key s < order) \<and> pick_max i ss pos order = pos \<or>
   (\<exists>j. pick_max i ss pos order = int (i + j) \<and> picks_max ss order j)"
proof (induction ss arbitrary: i pos order)
  case (Cons s ss)
  show ?case
  proof (cases "is_valid s \<and> is_key s \<ge> order")
    case True
    from Cons.IH [of "is_key s" "Suc i" "int i"] show ?thesis
    proof (elim disjE exE conjE)
      assume "\<forall>s' \<in> set ss. is_valid s' \<longrightarrow> is_key s' < is_key s" and "pick_max (Suc i) ss (int i) (is_key s) = int i"
      then have "pick_max i (s # ss) pos order = int (i + 0) \<and> picks_max (s # ss) order 0"
        using True by (auto simp: picks_max_def)
      then show ?thesis by blast
    next
      fix j assume "pick_max (Suc i) ss (int i) (is_key s) = int (Suc i + j)" and "picks_max ss (is_key s) j"
      then have "pick_max i (s # ss) pos order = int (i + Suc j) \<and> picks_max (s # ss) order (Suc j)"
        using True by (simp add: picks_max_Cons)
      then show ?thesis by blast
    qed
  next
    case False
    from Cons.IH [of order "Suc i" pos] show ?thesis
    proof (elim disjE exE conjE)
      assume "\<forall>s' \<in> set ss. is_valid s' \<longrightarrow> is_key s' < order" and "pick_max (Suc i) ss pos order = pos"
      then show ?thesis using False by auto
    next
      fix j assume "pick_max (Suc i) ss pos order = int (Suc i + j)" and "picks_max ss order j"
      then have "pick_max i (s # ss) pos order = int (i + Suc j) \<and> picks_max (s # ss) order (Suc j)"
        using False by (auto intro!: picks_max_Cons)
      then show ?thesis by blast
    qed
  qed
qed simp

definition status_of :: "MemTimeTable \<Rightarrow> IteratorStatus" where
  "status_of rs = (case rs of [] \<Rightarrow> IteratorStatus_new | p # _ \<Rightarrow> IteratorStatus_key (fst p))"

lemma status_of_valid [simp]: "is_valid (status_of rs) \<longleftrightarrow> rs \<noteq> []" "rs \<noteq> [] \<Longrightarrow> is_key (status_of rs) = fst (hd rs)"
  by (cases rs; simp add: status_of_def IteratorStatus_new_def IteratorStatus_key_def)+

definition newest_head :: "MemTimeTable list \<Rightarrow> nat option" where
  "newest_head rss = (let pos = PickIteratorWithMaximizeKey (map status_of rss) in if pos = - 1 then None else Some (nat pos))"

lemma newest_head_cases:
  "(\<forall>rs \<in> set rss. rs = []) \<and> newest_head rss = None \<and> PickIteratorWithMaximizeKey (map status_of rss) = - 1 \<or>
   (\<exists>i. newest_head rss = Some i \<and> PickIteratorWithMaximizeKey (map status_of rss) = int i \<and> picks_max (map status_of rss) 0 i)"
  using pick_max_spec [of "map status_of rss" 0 0 "- 1"]
  by (elim disjE exE conjE) (simp_all add: newest_head_def PickIteratorWithMaximizeKey_def Let_def)

lemma newest_head_None: "newest_head rss = None \<Longrightarrow> \<forall>rs \<in> set rss. rs = []"
  using newest_head_cases [of rss] by auto

lemma newest_head_Some:
  assumes "newest_head rss = Some i"
  shows "i < length rss" and "rss ! i \<noteq> []" and "\<forall>rs \<in> set rss. rs \<noteq> [] \<longrightarrow> fst (hd rs) \<le> fst (hd (rss ! i))"
proof -
  have p: "picks_max (map status_of rss) 0 i" using assms newest_head_cases [of rss] by auto
  then show i: "i < length rss" by (simp add: picks_max_def)
  then show "rss ! i \<noteq> []" using p by (simp add: picks_max_def)
  then show "\<forall>rs \<in> set rss. rs \<noteq> [] \<longrightarrow> fst (hd rs) \<le> fst (hd (rss ! i))"
    using p i by (auto simp: picks_max_def)
qed

lemma pick_status: "PickIteratorWithMaximizeKey (map status_of rss) = (case newest_head rss of None \<Rightarrow> - 1 | Some i \<Rightarrow> int i)"
  using newest_head_cases [of rss] by auto

text \<open>The segments merged, newest row first.\<close>

function merge_newest :: "MemTimeTable list \<Rightarrow> MemTimeTable" where
  "merge_newest rss =
     (case newest_head rss of None \<Rightarrow> [] | Some i \<Rightarrow> hd (rss ! i) # merge_newest (rss[i := tl (rss ! i)]))"
  by auto

lemma sum_length_tl:
  "i < length rss \<Longrightarrow> rss ! i \<noteq> [] \<Longrightarrow> sum_list (map length rss) = Suc (sum_list (map length (rss[i := tl (rss ! i)])))"
  by (induction rss arbitrary: i) (auto simp: nth_Cons split: nat.splits)

termination merge_newest
  by (relation "measure (\<lambda>rss. sum_list (map length rss))") (auto simp: sum_length_tl [OF newest_head_Some(1,2)])

declare merge_newest.simps [simp del]

lemma merge_newest_mset: "mset (merge_newest rss) = mset (concat rss)"
proof (induction rss rule: merge_newest.induct)
  case (1 rss)
  show ?case
  proof (cases "newest_head rss")
    case None
    then have "concat rss = []" using newest_head_None by simp
    then show ?thesis using None by (simp add: merge_newest.simps [of rss])
  next
    case (Some i)
    note h = newest_head_Some [OF Some]
    then have "rss = take i rss @ (rss ! i) # drop (Suc i) rss" "rss ! i = hd (rss ! i) # tl (rss ! i)"
      by (simp_all add: id_take_nth_drop)
    moreover have "rss[i := tl (rss ! i)] = take i rss @ tl (rss ! i) # drop (Suc i) rss" using h by (simp add: upd_conv_take_nth_drop)
    ultimately have "mset (concat rss) = add_mset (hd (rss ! i)) (mset (concat (rss[i := tl (rss ! i)])))"
      by (metis (no_types, lifting) append_Cons concat.simps(2) concat_append mset.simps(2) mset_append union_mset_add_mset_right)
    then show ?thesis using 1 [OF Some] Some by (simp add: merge_newest.simps [of rss])
  qed
qed

lemma merge_newest_set: "set (merge_newest rss) = \<Union> (set ` set rss)"
  using merge_newest_mset [of rss] by (metis set_concat set_mset_mset)

lemma newest_first_hd: "newest_first rs \<Longrightarrow> p \<in> set rs \<Longrightarrow> fst p \<le> fst (hd rs)"
  by (cases rs) auto

lemma merge_newest_sorted: "\<forall>rs \<in> set rss. newest_first rs \<Longrightarrow> newest_first (merge_newest rss)"
proof (induction rss rule: merge_newest.induct)
  case (1 rss)
  show ?case
  proof (cases "newest_head rss")
    case None
    then show ?thesis by (simp add: merge_newest.simps [of rss])
  next
    case (Some i)
    note h = newest_head_Some [OF Some]
    let ?rss = "rss[i := tl (rss ! i)]"
    have i: "rss ! i \<in> set rss" using h(1) by simp
    have sub: "set rs \<subseteq> \<Union> (set ` set rss)" if "rs \<in> set ?rss" for rs
      using set_update_subset_insert [of rss i "tl (rss ! i)"] that i list.set_sel(2) [OF h(2)] by fastforce
    have "newest_first (tl (rss ! i))" using 1(2) i by (cases "rss ! i") auto
    then have "newest_first (merge_newest ?rss)"
      using 1(1) [OF Some] 1(2) set_update_subset_insert [of rss i "tl (rss ! i)"] by blast
    moreover have "fst p \<le> fst (hd (rss ! i))" if "p \<in> set (merge_newest ?rss)" for p
    proof -
      obtain rs where "rs \<in> set rss" "p \<in> set rs" using \<open>p \<in> _\<close> sub by (auto simp: merge_newest_set)
      then show ?thesis using h(3) 1(2) newest_first_hd [of rs p] by fastforce
    qed
    ultimately show ?thesis using Some by (simp add: merge_newest.simps [of rss])
  qed
qed

subsection \<open>The loop over the merged rows\<close>

text \<open>What the loop keeps of the merged rows, with \<open>cnt\<close> rows counted so far.\<close>

fun frame_scan :: "WindowRange \<Rightarrow> u64 \<Rightarrow> u64 \<Rightarrow> u64 \<Rightarrow> u64 \<Rightarrow> u64 \<Rightarrow> MemTimeTable \<Rightarrow> MemTimeTable" where
  "frame_scan r start end' rows_start max_size cnt [] = []"
| "frame_scan r start end' rows_start max_size cnt (p # ps) =
     (if max_size > 0 \<and> cnt \<ge> max_size then []
      else case GetWindowPositionStatus r (cnt > rows_start) (fst p > end') (fst p < start) of
        kExceedWindow \<Rightarrow> []
      | kBeforeWindow \<Rightarrow> frame_scan r start end' rows_start max_size cnt ps
      | kInWindow \<Rightarrow> p # frame_scan r start end' rows_start max_size (cnt + 1) ps)"

text \<open>An iterator that still has to visit \<open>rs\<close>; a null one visits nothing.\<close>

definition iter_has :: "segment_iter \<Rightarrow> MemTimeTable \<Rightarrow> bool" where
  "iter_has si rs = (case si of None \<Rightarrow> rs = []
     | Some (t, it) \<Rightarrow> \<exists>ok rest whole. row_iterator (th_ops t) ok rest whole \<and> ok it \<and> rest it = rs)"

lemma iter_hasE:
  assumes "iter_has si (p # rs)"
  obtains t it it' where "si = Some (t, it)" and "op_GetValue (th_ops t) it = Some (snd p)"
    and "op_Next (th_ops t) it = Some it'" and "iter_has (Some (t, it')) rs"
    and "\<And>s. is_valid s \<Longrightarrow> step_status t it' s = Some (status_of rs)"
proof -
  obtain t it ok rest whole where si: "si = Some (t, it)" and r: "row_iterator (th_ops t) ok rest whole" "ok it" "rest it = p # rs"
    using assms by (auto simp: iter_has_def split: option.splits)
  obtain it' where it': "op_Next (th_ops t) it = Some it'" "ok it'" "rest it' = rs"
    using row_iterator.next_rest [OF r] by blast
  have s: "step_status t it' s = Some (status_of rs)" if "is_valid s" for s
    using row_iterator.valid_rest [OF r(1) it'(2)] row_iterator.at_rest [OF r(1) it'(2)] it'(3) that
    by (cases rs) (auto simp: step_status_def status_of_def MarkInValid_def set_key_def IteratorStatus_new_def IteratorStatus_key_def)
  have "iter_has (Some (t, it')) rs" using r(1) it' by (auto simp: iter_has_def)
  moreover have "op_GetValue (th_ops t) it = Some (snd p)"
    using row_iterator.at_rest [OF r(1,2), of "fst p" "snd p"] r(3) by simp
  ultimately show ?thesis using that si it'(1) s by blast
qed

lemma request_union_loop_merged:
  assumes "list_all2 iter_has iters rss"
  shows "request_union_loop r start end' rows_start max_size iters (map status_of rss) cnt out =
    Some (out\<lparr>mt_table := mt_table out @ frame_scan r start end' rows_start max_size cnt (merge_newest rss)\<rparr>)"
  using assms
proof (induction rss arbitrary: iters cnt out rule: merge_newest.induct)
  case (1 rss)
  show ?case
  proof (cases "newest_head rss")
    case None
    then show ?thesis by (subst request_union_loop.simps) (simp add: pick_status merge_newest.simps [of rss])
  next
    case (Some i)
    note h = newest_head_Some [OF Some]
    obtain p rs where p: "rss ! i = p # rs" using h(2) by (cases "rss ! i") auto
    let ?rss = "rss[i := rs]"
    have len: "length iters = length rss" using 1(2) by (simp add: list_all2_lengthD)
    have "iter_has (iters ! i) (p # rs)" using 1(2) h(1) len p by (metis list_all2_nthD2)
    then obtain t it it' where it: "iters ! i = Some (t, it)" "op_GetValue (th_ops t) it = Some (snd p)"
        "op_Next (th_ops t) it = Some it'" "iter_has (Some (t, it')) rs"
        and s: "\<And>s. is_valid s \<Longrightarrow> step_status t it' s = Some (status_of rs)"
      by (rule iter_hasE) blast
    have all: "list_all2 iter_has (iters[i := Some (t, it')]) ?rss"
      using 1(2) it(4) by (simp add: list_all2_update_cong)
    have IH: "request_union_loop r start end' rows_start max_size (iters[i := Some (t, it')]) ((map status_of rss)[i := status_of rs]) c o' =
        Some (o'\<lparr>mt_table := mt_table o' @ frame_scan r start end' rows_start max_size c (merge_newest ?rss)\<rparr>)" for c o'
      using 1(1) [OF Some] all p by (simp add: map_update)
    have m: "merge_newest rss = p # merge_newest ?rss" using Some p by (simp add: merge_newest.simps [of rss])
    have v: "vec_at (map status_of rss) i = Some (status_of (p # rs))" "vec_at iters i = Some (iters ! i)"
      using h(1) len p by (simp_all add: vec_at_def)
    have st: "is_valid (status_of (p # rs))" "is_key (status_of (p # rs)) = fst p" by simp_all
    show ?thesis
      using it(1-3) s [OF st(1)]
      by (subst request_union_loop.simps)
        (simp add: pick_status Some m v IH st Let_def mt_AddRow_def split: WindowPositionStatus.splits)
  qed
qed

subsection \<open>Segments that can be sought\<close>

text \<open>A segment of a union: null, without an iterator, or with one that visits \<open>xs\<close> and seeks in it.\<close>

definition segment_has :: "TableHandler option \<Rightarrow> MemTimeTable \<Rightarrow> bool" where
  "segment_has seg xs = (case seg of None \<Rightarrow> xs = []
     | Some t \<Rightarrow> (case th_iter t of None \<Rightarrow> xs = []
         | Some it \<Rightarrow> \<exists>ok rest whole. seekable_iterator (th_ops t) ok rest whole \<and> ok it \<and> whole it = xs))"

definition time_ok :: "mem_iter \<Rightarrow> bool" where
  "time_ok it = (case it of TimeIt i \<Rightarrow> ti_ok i | RowIt _ \<Rightarrow> False)"

interpretation tm: seekable_iterator mem_iter_ops time_ok mi_rest mi_whole
proof
  fix it assume i: "time_ok it"
  then obtain j where j: "it = TimeIt j" "ti_ok j" by (cases it) (auto simp: time_ok_def)
  then have ok: "mi_ok it" by (simp add: mi_ok_def)
  show "op_Valid mem_iter_ops it \<longleftrightarrow> mi_rest it \<noteq> []" by (rule mi.valid_rest [OF ok])
  show "\<exists>it'. op_SeekToFirst mem_iter_ops it = Some it' \<and> time_ok it' \<and> mi_rest it' = mi_whole it \<and> mi_whole it' = mi_whole it"
    using ti.first_rest [OF j(2)] j(1) by (fastforce simp: mem_iter_ops_def time_ok_def mi_rest_def mi_whole_def)
  show "\<exists>it'. op_Seek mem_iter_ops ts it = Some it' \<and> time_ok it' \<and> mi_rest it' = dropWhile (\<lambda>(k, v). ts < k) (mi_whole it) \<and>
      mi_whole it' = mi_whole it" for ts
    using ti.seek_rest [OF j(2), of ts] j(1) by (fastforce simp: mem_iter_ops_def time_ok_def mi_rest_def mi_whole_def)
  fix p ps assume "mi_rest it = p # ps"
  then show "\<exists>it'. op_Next mem_iter_ops it = Some it' \<and> time_ok it' \<and> mi_rest it' = ps \<and> mi_whole it' = mi_whole it"
    using ti.next_rest [OF j(2)] j(1) by (fastforce simp: mem_iter_ops_def time_ok_def mi_rest_def mi_whole_def)
next
  fix it k v ps assume "time_ok it" "mi_rest it = (k, v) # ps"
  then show "op_GetKey mem_iter_ops it = Some k \<and> op_GetValue mem_iter_ops it = Some v"
    by (intro mi.at_rest) (auto simp: time_ok_def mi_ok_def split: mem_iter.splits)
qed

lemma time_table_segment: "segment_has (Some (time_table h)) (mt_table h)"
proof -
  have "time_ok (TimeIt (MemTimeTableIterator_new (mt_table h)))"
    "mi_whole (TimeIt (MemTimeTableIterator_new (mt_table h))) = mt_table h"
    by (simp_all add: time_ok_def mi_whole_def ti_new)
  then show ?thesis using tm.seekable_iterator_axioms by (simp add: segment_has_def time_table_def) blast
qed

lemma segment_status_seek:
  assumes "segment_has seg xs"
  shows "\<exists>si. segment_status (\<lambda>t. op_Seek (th_ops t) ts) seg = Some (si, status_of (dropWhile (\<lambda>(k, v). ts < k) xs)) \<and>
    iter_has si (dropWhile (\<lambda>(k, v). ts < k) xs)"
proof (cases "seg = None \<or> (\<exists>t. seg = Some t \<and> th_iter t = None)")
  case True
  then show ?thesis using assms by (auto simp: segment_has_def segment_status_def status_of_def iter_has_def)
next
  case False
  then obtain t it ok rest whole where t: "seg = Some t" "th_iter t = Some it"
      and sk: "seekable_iterator (th_ops t) ok rest whole" "ok it" "whole it = xs"
    using assms by (auto simp: segment_has_def split: option.splits)
  let ?rs = "dropWhile (\<lambda>(k, v). ts < k) xs"
  obtain it' where it': "op_Seek (th_ops t) ts it = Some it'" "ok it'" "rest it' = ?rs"
    using seekable_iterator.seek_rest [OF sk(1,2)] sk(3) by blast
  have r: "row_iterator (th_ops t) ok rest whole" using sk(1) by (simp add: seekable_iterator_def)
  have "iter_status t it' = Some (status_of (rest it'))"
    using row_iterator.valid_rest [OF r it'(2)] row_iterator.at_rest [OF r it'(2)]
    by (cases "rest it'") (auto simp: iter_status_def status_of_def)
  then have "iter_status t it' = Some (status_of ?rs)" by (simp only: it'(3))
  moreover have "iter_has (Some (t, it')) ?rs" using r it' by (auto simp: iter_has_def)
  ultimately show ?thesis using t it'(1) by (auto simp: segment_status_def)
qed

lemma segment_statuses_seek:
  assumes "list_all2 segment_has segs xss"
  shows "\<exists>sis. those (map (segment_status (\<lambda>t. op_Seek (th_ops t) ts)) segs) = Some sis \<and>
    map snd sis = map (status_of \<circ> dropWhile (\<lambda>(k, v). ts < k)) xss \<and>
    list_all2 iter_has (map fst sis) (map (dropWhile (\<lambda>(k, v). ts < k)) xss)"
  using assms
proof (induction rule: list_all2_induct)
  case (Cons seg segs xs xss)
  from segment_status_seek [OF Cons.hyps(1), of ts] Cons.IH show ?case by fastforce
qed simp

text \<open>The request window as a scan of the merged rows; it always returns.\<close>

definition window_end :: "i64 \<Rightarrow> WindowRange \<Rightarrow> bool \<Rightarrow> u64" where
  "window_end ts r exclude =
     (if sint ts \<ge> 0 then offset_ts ts (if exclude \<and> 0 = wr_end_offset r then - 1 else wr_end_offset r) else - 1)"

definition request_scan :: "i64 \<Rightarrow> WindowRange \<Rightarrow> bool \<Rightarrow> MemTimeTable \<Rightarrow> MemTimeTable" where
  "request_scan ts r exclude =
     (let start = (if sint ts \<ge> 0 then offset_ts ts (wr_start_offset r) else 0);
          request_key = (if sint ts > 0 then ts else 0)
      in frame_scan r start (window_end ts r exclude) (if sint ts \<ge> 0 then wr_start_row r else 0)
           (if sint ts \<ge> 0 then wr_max_size r else 0)
           (if GetWindowPositionStatus r False (sint (wr_end_offset r) < 0) (request_key < start) = kInWindow then 1 else 0))"

lemma RequestUnionWindow_scan:
  assumes "list_all2 segment_has segs xss"
  shows "RequestUnionWindow request segs ts r output exclude = Some (time_table (MemTimeTableHandler_new\<lparr>mt_table :=
    (if output then [(if sint ts > 0 then ts else 0, request)] else []) @
    request_scan ts r exclude (merge_newest (map (dropWhile (\<lambda>(k, v). window_end ts r exclude < k)) xss))\<rparr>))"
proof -
  let ?d = "dropWhile (\<lambda>(k, v). window_end ts r exclude < k)"
  obtain sis where sis: "those (map (segment_status (\<lambda>t. op_Seek (th_ops t) (window_end ts r exclude))) segs) = Some sis"
      "map snd sis = map status_of (map ?d xss)" "list_all2 iter_has (map fst sis) (map ?d xss)"
    using segment_statuses_seek [OF assms, of "window_end ts r exclude"] by auto
  show ?thesis
    unfolding RequestUnionWindow_def window_end_def [symmetric] Let_def sis(1) bind.bind_lunit sis(2)
    by (simp add: request_union_loop_merged [OF sis(3)] request_scan_def Let_def mt_AddRow_def MemTimeTableHandler_new_def del: map_map)
qed

subsection \<open>The frame of the merged rows\<close>

definition frame_left :: "WindowRange \<Rightarrow> u64 \<Rightarrow> nat \<Rightarrow> MemTimeTable \<Rightarrow> nat" where
  "frame_left r s c xs =
     (let n = (case wr_frame_type r of
                 kFrameRows \<Rightarrow> unat (wr_start_row r + 1) - c
               | kFrameRowsRange \<Rightarrow> in_range_len s xs
               | kFrameRowsMergeRowsRange \<Rightarrow> max (unat (wr_start_row r + 1) - c) (in_range_len s xs))
      in if wr_max_size r > 0 then min (unat (wr_max_size r) - c) n else n)"

lemma in_range_len_old: "newest_first (p # ps) \<Longrightarrow> fst p < s \<Longrightarrow> in_range_len s ps = 0"
  by (cases ps) (auto simp: in_range_len_Cons)

lemma frame_scan_take:
  assumes "newest_first xs" and "\<forall>p \<in> set xs. fst p \<le> e" and "wr_start_row r + 1 \<noteq> 0" and "unat cnt + length xs < 2 ^ 64"
  shows "frame_scan r s e (wr_start_row r) (wr_max_size r) cnt xs = take (frame_left r s (unat cnt) xs) xs"
  using assms
proof (induction xs arbitrary: cnt)
  case (Cons p ps)
  have c: "unat (cnt + 1) = Suc (unat cnt)" using Cons.prems(4) by (simp add: unat_plus_less)
  have st: "unat (wr_start_row r + 1) = Suc (unat (wr_start_row r))" using Cons.prems(3) by (metis Suc_eq_plus1 add.commute unatSuc)
  have e: "\<not> e < fst p" using Cons.prems(2) by (simp add: not_less)
  have IH: "frame_scan r s e (wr_start_row r) (wr_max_size r) (cnt + 1) ps = take (frame_left r s (Suc (unat cnt)) ps) ps"
    using Cons.IH [of "cnt + 1"] Cons.prems c by simp
  have old: "fst p < s \<Longrightarrow> in_range_len s ps = 0" using in_range_len_old Cons.prems(1) by blast
  show ?case
    using IH e old
    by (cases "wr_frame_type r"; cases "fst p < s")
      (auto simp: frame_left_def Let_def GetWindowPositionStatus_def in_range_len_Cons st word_less_nat_alt word_le_nat_alt
        take_Cons' min_def max_def not_less)
qed simp

lemma window_spec_scan:
  assumes "newest_first (x # xs)" and "s \<le> fst x" and "wr_start_row r + 1 \<noteq> 0" and "length xs < 2 ^ 64 - 1" and "fst x \<le> e"
  shows "x # frame_scan r s e (wr_start_row r) (wr_max_size r) 1 xs = window_spec r s (x # xs)"
proof -
  have "\<forall>p \<in> set xs. fst p \<le> e" using assms(1,5) by auto
  then have "frame_scan r s e (wr_start_row r) (wr_max_size r) 1 xs = take (frame_left r s 1 xs) xs"
    using frame_scan_take [of xs e r 1 s] assms(1,3,4) by simp
  moreover have "frame_len r s (x # xs) = Suc (frame_left r s 1 xs)"
  proof -
    have st: "unat (wr_start_row r + 1) = Suc (unat (wr_start_row r))" using assms(3) by (metis Suc_eq_plus1 add.commute unatSuc)
    have mx: "0 < wr_max_size r \<Longrightarrow> 0 < unat (wr_max_size r)" by (simp add: unat_gt_0)
    show ?thesis
      using assms(2) mx by (cases "wr_frame_type r")
        (auto simp: frame_len_def frame_left_def Let_def in_range_len_Cons st min_def max_def)
  qed
  ultimately show ?thesis by (simp add: window_spec_def)
qed

lemma newest_first_seek: "newest_first xs \<Longrightarrow> dropWhile (\<lambda>(k, v). e < k) xs = filter (\<lambda>p. fst p \<le> e) xs"
proof (induction xs)
  case (Cons p ps)
  then show ?case by (cases "e < fst p") (auto simp: filter_id_conv case_prod_beta not_less intro!: sym [OF filter_True] elim: order_trans)
qed simp

lemma mset_le_Cons: "mset ys \<subseteq># mset xs \<Longrightarrow> mset ys \<subseteq># add_mset x (mset xs)"
  by (simp add: subset_mset.le_supI2 subset_mset.order_trans [OF _ subset_mset.less_imp_le])

lemma frame_scan_mset: "mset (frame_scan r s e k m c xs) \<subseteq># mset xs"
  by (induction r s e k m c xs rule: frame_scan.induct) (auto split: WindowPositionStatus.splits intro: mset_le_Cons)

lemma dropWhile_mset: "mset (dropWhile P xs) \<subseteq># mset xs"
  by (induction xs) (auto intro: mset_le_Cons)

subsection \<open>The buffered window\<close>

lemma BufferEffectiveWindow_range: "BufferEffectiveWindow key row s w = Some w' \<Longrightarrow> w_range w' = w_range w"
  by (auto simp: BufferEffectiveWindow_def Let_def split: bind_splits)

lemma history_loop_range: "history_loop e s n w = Some w' \<Longrightarrow> w_range w' = w_range w"
  by (induction e s n w rule: history_loop.induct)
    (auto simp: Let_def dest!: BufferEffectiveWindow_range split: if_splits bind_splits)

lemma CurrentHistoryWindow_range: "CurrentHistoryWindow_BufferData key row w = Some (ok, w') \<Longrightarrow> w_range w' = w_range w"
  by (auto simp: CurrentHistoryWindow_BufferData_def BufferCurrentTimeBuffer_def BufferCurrentHistoryBuffer_def PopEffectiveData_def Let_def
      dest!: BufferEffectiveWindow_range history_loop_range split: if_splits bind_splits option.splits)

lemma HistoryWindow_eq: "wr_end_offset (w_range w) = 0 \<Longrightarrow> HistoryWindow_BufferData key row w = CurrentHistoryWindow_BufferData key row w"
  by (simp add: HistoryWindow_BufferData_def CurrentHistoryWindow_BufferData_def BufferCurrentTimeBuffer_def Let_def)

lemma buffer_all_history:
  "wr_end_offset (w_range w) = 0 \<Longrightarrow>
    buffer_all HistoryWindow_BufferData rows w = buffer_all CurrentHistoryWindow_BufferData rows w"
proof (induction rows arbitrary: w)
  case (Cons p rows)
  show ?case
  proof (cases "CurrentHistoryWindow_BufferData (fst p) (snd p) w")
    case None
    then show ?thesis using HistoryWindow_eq [OF Cons.prems] by (simp add: buffer_all_def case_prod_beta)
  next
    case (Some q)
    then have "w_range (snd q) = w_range w" using CurrentHistoryWindow_range [of _ _ _ "fst q" "snd q"] by simp
    then show ?thesis
      using Some HistoryWindow_eq [OF Cons.prems] Cons.IH [of "snd q"] Cons.prems by (simp add: buffer_all_def case_prod_beta)
  qed
qed (simp add: buffer_all_def)

lemma offset_ts_0: "0 \<le> sint ts \<Longrightarrow> offset_ts ts 0 = ts"
  by (simp add: offset_ts_def Let_def)

lemma request_key_eq: "0 \<le> sint (ts :: i64) \<Longrightarrow> (if sint ts > 0 then ts else 0) = ts"
  by (metis antisym_conv2 sint_0 signed_word_eqI)

subsection \<open>The window of every row of a segment\<close>

text \<open>The rows a frame of row \<open>i\<close> selects from, newest first: the rows up to it, with \<open>EXCLUDE CURRENT_TIME\<close> the row
  itself and the rows of strictly earlier times.\<close>

definition history_of :: "bool \<Rightarrow> MemTimeTable \<Rightarrow> nat \<Rightarrow> MemTimeTable" where
  "history_of exclude ys i =
     (if exclude then ys ! i # filter (\<lambda>p. fst p < fst (ys ! i)) (rev (take i ys)) else rev (take (Suc i) ys))"

text \<open>The rows of a segment in order of time, each with its frame.\<close>

definition windows_of :: "WindowRange \<Rightarrow> bool \<Rightarrow> MemTimeTable \<Rightarrow> ((u64 \<times> Row) \<times> MemTimeTable) list" where
  "windows_of r exclude ys =
     map (\<lambda>i. (ys ! i, window_spec r (offset_ts (fst (ys ! i)) (wr_start_offset r)) (history_of exclude ys i))) [0..<length ys]"

abbreviation wa_range :: "WindowAggRunner \<Rightarrow> WindowRange" where
  "wa_range g \<equiv> ra_window_range (wg_range_gen (wa_instance_window_gen g))"

abbreviation wa_sort :: "WindowAggRunner \<Rightarrow> SortGenerator" where
  "wa_sort g \<equiv> wg_sort_gen (wa_instance_window_gen g)"

text \<open>A window over the rows of its own table, each row in its own window: no window unions and no
  \<open>INSTANCE_NOT_IN_WINDOW\<close>. The frame starts at or before the row and ends at it; with \<open>EXCLUDE CURRENT_TIME\<close>
  a rows frame does not count \<open>2^64\<close> rows.\<close>

definition plain_window :: "WindowAggRunner \<Rightarrow> bool" where
  "plain_window g \<longleftrightarrow> wa_windows_union_gen g = [] \<and> \<not> wa_instance_not_in_window g \<and>
     sint (wr_start_offset (wa_range g)) \<le> 0 \<and> wr_end_offset (wa_range g) = 0 \<and>
     (wa_exclude_current_time g \<and> wr_frame_type (wa_range g) = kFrameRows \<longrightarrow> wr_start_row (wa_range g) + 1 \<noteq> 0)"

text \<open>The compiled function returns an encoded row on every window.\<close>

definition window_fn_total :: "window_fn \<Rightarrow> Row \<Rightarrow> bool" where
  "window_fn_total fn parameter \<longleftrightarrow> (\<forall>k v w. fst (fn k v w parameter) = 0 \<and> managed_row (snd (fn k v w parameter)) \<noteq> None)"

text \<open>The row of the compiled function, with the appended slices of the input row where they are asked for.\<close>

definition window_result :: "window_fn \<Rightarrow> nat \<Rightarrow> Row \<Rightarrow> (u64 \<times> Row) \<times> MemTimeTable \<Rightarrow> Row" where
  "window_result fn append_slices parameter = (\<lambda>((k, v), w).
     let out = the (managed_row (snd (fn k v w parameter)))
     in if append_slices > 0 then the (Row_cons (row_slice out) append_slices v) else out)"

text \<open>The rows that still fit under a limit when there are \<open>c\<close> already; a limit that is not positive is none.\<close>

definition limited :: "i32 \<Rightarrow> nat \<Rightarrow> 'a list \<Rightarrow> 'a list" where
  "limited limit c xs = (if sint limit > 0 then take (nat (sint limit) - c) xs else xs)"

lemma limited_append: "limited n c (xs @ ys) = limited n c xs @ limited n (c + length (limited n c xs)) ys"
  by (auto simp: limited_def min_def not_le)

lemma limited_Cons:
  "limited n c (x # xs) = (if sint n > 0 \<and> int c \<ge> sint n then [] else x # limited n (Suc c) xs)"
  by (auto simp: limited_def take_Cons' nat_le_iff)

abbreviation window_start :: "WindowRange \<Rightarrow> bool \<Rightarrow> Window" where
  "window_start r exclude \<equiv> (Window_new r)\<lparr>w_exclude_current_time := exclude\<rparr>"

lemma buffer_prefix:
  assumes "sorted (map fst ys)" and "\<forall>p \<in> set ys. 0 \<le> sint (fst p) \<and> (exclude \<longrightarrow> 0 < fst p)" and "i < length ys"
    and "sint (wr_start_offset r) \<le> 0" and "wr_end_offset r = 0"
    and "exclude \<and> wr_frame_type r = kFrameRows \<longrightarrow> wr_start_row r + 1 \<noteq> 0"
  shows "\<exists>w. buffer_all HistoryWindow_BufferData (take (Suc i) ys) (window_start r exclude) = Some w \<and>
    w_table w = snd (windows_of r exclude ys ! i) \<and> \<not> w_instance_not_in_window w"
proof -
  let ?t = "take (Suc i) ys" and ?k = "fst (ys ! i)"
  have t: "?t \<noteq> []" "last ?t = ys ! i" "rev ?t = ys ! i # rev (take i ys)"
    using assms(3) by (auto simp: take_Suc_conv_app_nth)
  have s: "sorted (map fst ?t)" using assms(1) by (simp add: sorted_wrt_take flip: take_map)
  have k: "0 \<le> sint ?k" using assms(2,3) by simp
  have e: "wr_end_offset (w_range (window_start r exclude)) = 0" using assms(5) by (simp add: Window_new_def)
  show ?thesis
  proof (cases exclude)
    case True
    have "0 < ?k" "\<forall>p \<in> set ?t. 0 < fst p" using True assms(2,3) by (auto dest: in_set_takeD)
    then show ?thesis
      using exclude_window_all [of ?t r "window_start r exclude"] True t s k assms(3,4,6)
      unfolding buffer_all_history [OF e] by (simp add: Window_new_def windows_of_def history_of_def le_minus_one)
  next
    case False
    then show ?thesis
      using current_window_all [of ?t r "window_start r exclude"] t s k assms(3,4)
      unfolding buffer_all_history [OF e] by (simp add: Window_new_def windows_of_def history_of_def)
  qed
qed

lemma WindowProject_step:
  assumes "HistoryWindow_BufferData key row w = Some (True, w1)" and "\<not> w_instance_not_in_window w1" and "\<not> Row_empty row"
    and "window_fn_total fn parameter"
  shows "WindowProject fn key row parameter True append_slices w =
    Some (window_result fn append_slices parameter ((key, row), w_table w1), w1)"
  using assms(1-3) spec [OF spec [OF spec [OF assms(4) [unfolded window_fn_total_def], of key], of row], of "w_table w1"]
  by (auto simp: WindowProject_def window_result_def Row_cons_def split: prod.splits)

text \<open>Every row is joined, and none of the joined rows is empty: an empty row is passed on unbuffered.\<close>

abbreviation joined_row :: "bool \<Rightarrow> WindowAggRunner \<Rightarrow> DataHandler option list \<Rightarrow> Row \<Rightarrow> Row \<Rightarrow> Row" where
  "joined_row spark g joins parameter v \<equiv> the (window_row spark g joins parameter v)"

definition window_rows_ready :: "bool \<Rightarrow> WindowAggRunner \<Rightarrow> DataHandler option list \<Rightarrow> Row \<Rightarrow> MemTimeTable \<Rightarrow> bool" where
  "window_rows_ready spark g joins parameter xs \<longleftrightarrow>
     (\<forall>v \<in> snd ` set xs. \<exists>u. window_row spark g joins parameter v = Some u \<and> \<not> Row_empty u)"

abbreviation join_rows :: "bool \<Rightarrow> WindowAggRunner \<Rightarrow> DataHandler option list \<Rightarrow> Row \<Rightarrow> MemTimeTable \<Rightarrow> MemTimeTable" where
  "join_rows spark g joins parameter \<equiv> map (\<lambda>(k, v). (k, joined_row spark g joins parameter v))"

lemma window_instance_loop_rows:
  assumes g: "wa_windows_union_gen g = []" "fg_fn (wa_window_project_gen g) = Some fn" "window_fn_total fn parameter"
    and it: "row_iterator (th_ops t) ok rest whole" and ready: "window_rows_ready spark g joins parameter zs"
    and ys: "ys = join_rows spark g joins parameter zs"
    and pre: "\<And>i. i < length ys \<Longrightarrow> \<exists>w. buffer_all HistoryWindow_BufferData (take (Suc i) ys) w0 = Some w \<and>
      w_table w = snd (windows_of r ex ys ! i) \<and> \<not> w_instance_not_in_window w"
  shows "ok it \<Longrightarrow> rest it = drop n zs \<Longrightarrow> n \<le> length zs \<Longrightarrow> buffer_all HistoryWindow_BufferData (take n ys) w0 = Some w \<Longrightarrow>
    window_instance_loop spark g joins parameter t it [] [] (int (length (tb_table out))) w out =
      Some (out\<lparr>tb_table := tb_table out @ limited (wa_limit_cnt g) (length (tb_table out))
        (map (window_result fn (wa_append_slices g) parameter) (drop n (windows_of r ex ys)))\<rparr>)"
proof (induction "length zs - n" arbitrary: n it w out)
  case 0
  then have "rest it = []" "drop n (windows_of r ex ys) = []" by (simp_all add: windows_of_def ys)
  then show ?case using row_iterator.valid_rest [OF it 0(2)] by (subst window_instance_loop.simps) (simp add: limited_def)
next
  case (Suc m)
  then have n: "n < length zs" by simp
  obtain k v where kv: "zs ! n = (k, v)" by force
  obtain u where u: "window_row spark g joins parameter v = Some u" "\<not> Row_empty u"
    using ready nth_mem [OF n] kv by (force simp: window_rows_ready_def)
  have y: "n < length ys" "ys ! n = (k, u)" using n kv u(1) by (simp_all add: ys)
  have rs: "rest it = (k, v) # drop (Suc n) zs" using Suc.prems(2) n kv by (simp add: Cons_nth_drop_Suc [symmetric])
  obtain it' where it': "op_Next (th_ops t) it = Some it'" "ok it'" "rest it' = drop (Suc n) zs"
    using row_iterator.next_rest [OF it Suc.prems(1) rs] by blast
  have at: "op_GetKey (th_ops t) it = Some k" "op_GetValue (th_ops t) it = Some v" "op_Valid (th_ops t) it"
    using row_iterator.at_rest [OF it Suc.prems(1) rs] row_iterator.valid_rest [OF it Suc.prems(1)] rs by simp_all
  let ?win = "snd (windows_of r ex ys ! n)" and ?res = "window_result fn (wa_append_slices g) parameter"
  obtain w1 where w1: "buffer_all HistoryWindow_BufferData (take (Suc n) ys) w0 = Some w1" "w_table w1 = ?win"
    "\<not> w_instance_not_in_window w1" using pre [OF y(1)] by blast
  have tk: "take (Suc n) ys = take n ys @ [(k, u)]" using y by (simp add: take_Suc_conv_app_nth)
  have "HistoryWindow_BufferData k u w = Some (True, w1)"
    using w1(1) Suc.prems(4) unfolding tk buffer_all_snoc by (auto split: bind_splits if_splits)
  note wp = WindowProject_step [OF this w1(3) u(2) g(3), of "wa_append_slices g", unfolded w1(2)]
  have d: "drop n (windows_of r ex ys) = ((k, u), ?win) # drop (Suc n) (windows_of r ex ys)"
    using y by (subst Cons_nth_drop_Suc [symmetric]) (simp_all add: windows_of_def)
  have IH: "window_instance_loop spark g joins parameter t it' [] [] (int (length (tb_table o'))) w1 o' =
      Some (o'\<lparr>tb_table := tb_table o' @ limited (wa_limit_cnt g) (length (tb_table o')) (map ?res (drop (Suc n) (windows_of r ex ys)))\<rparr>)" for o'
    using Suc.hyps(2) it' w1(1) n by (intro Suc.hyps(1)) simp_all
  have U: "window_union_loop j f q [] [] x = Some ([], [], x)" for j f q x by (subst window_union_loop.simps) simp
  show ?case
    using g(2) at it'(1) wp u(1) U IH [of "tb_AddRow (?res ((k, u), ?win)) out"] d
    by (subst window_instance_loop.simps)
      (simp add: limited_Cons WindowProjectGenerator_Gen_def tb_AddRow_def add.commute)
qed

text \<open>The window's order is ascending, and its order column is defined and not negative, positive with
  \<open>EXCLUDE CURRENT_TIME\<close>.\<close>

definition orders_up :: "bool \<Rightarrow> SortGenerator \<Rightarrow> MemTimeTable \<Rightarrow> bool" where
  "orders_up exclude so zs \<longleftrightarrow> so_is_valid so \<and> so_is_asc so \<and> fg_Valid (so_order_gen so) \<and>
     defined_on (OrderGenerator_Gen (so_order_gen so)) zs \<and>
     (\<forall>p \<in> set (order_keys so zs). 0 \<le> sint (fst p) \<and> (exclude \<longrightarrow> 0 < fst p))"

lemma orders_up_filter: "orders_up ex so zs \<Longrightarrow> orders_up ex so (filter P zs)"
  by (auto simp: orders_up_def defined_on_def order_keys_def)

lemma RunWindowAggOnKey_rows:
  assumes g: "plain_window g" and fn: "fg_fn (wa_window_project_gen g) = Some fn" "window_fn_total fn parameter"
    and "table_rows (ph_segment p key) xs" and up: "orders_up (wa_exclude_current_time g) (wa_sort g) xs"
    and ready: "window_rows_ready spark g joins parameter xs"
  shows "RunWindowAggOnKey spark g parameter p [] joins key out =
    Some (out\<lparr>tb_table := tb_table out @ limited (wa_limit_cnt g) (length (tb_table out))
      (map (window_result fn (wa_append_slices g) parameter) (windows_of (wa_range g) (wa_exclude_current_time g)
        (join_rows spark g joins parameter (std_sort AscComparor (order_keys (wa_sort g) xs)))))\<rparr>)"
proof -
  let ?zs = "std_sort AscComparor (order_keys (wa_sort g) xs)" and ?t = "ph_segment p key" and ?ex = "wa_exclude_current_time g"
  let ?ys = "join_rows spark g joins parameter ?zs"
  have o: "so_is_valid (wa_sort g)" "fg_Valid (so_order_gen (wa_sort g))" "defined_on (OrderGenerator_Gen (so_order_gen (wa_sort g))) xs"
      "so_asc (wa_sort g) False"
    using up by (simp_all add: orders_up_def so_asc_def)
  note sorted = Sort_table_order [OF assms(4) o(1-3), of False]
  show ?thesis
  proof (cases "th_iter ?t = None")
    case True
    then have "xs = []" using assms(4) by (auto simp: table_rows_def table_has_def)
    then show ?thesis using sorted True by (simp add: RunWindowAggOnKey_def order_keys_def std_sort_def windows_of_def limited_def)
  next
    case False
    let ?u = "time_table \<lparr>mt_table = ?zs, mt_order_type = kAscOrder\<rparr>" and ?w0 = "window_start (wa_range g) ?ex"
    have u: "Sort_table (wa_sort g) (Some ?t) False = Some (Some ?u)" using sorted False o(4) by (simp add: sort_key_cmp_def)
    have "table_has ?u ?zs" using time_table_has [of "\<lparr>mt_table = ?zs, mt_order_type = kAscOrder\<rparr>"] by simp
    then obtain ok rest whole it where it: "rows_iterator (th_ops ?u) ok rest whole" "th_first ?u = Some (Some it)" "ok it" "rest it = ?zs"
      by (rule table_hasE) blast
    have "map fst ?ys = map fst ?zs" by (simp add: case_prod_unfold)
    then have y: "sorted (map fst ?ys)" by (simp only: std_sort_asc)
    have pos: "\<forall>p \<in> set ?ys. 0 \<le> sint (fst p) \<and> (?ex \<longrightarrow> 0 < fst p)" using up by (auto simp: orders_up_def st.srt_set)
    have rd: "window_rows_ready spark g joins parameter ?zs"
      using ready by (auto simp: window_rows_ready_def st.srt_set order_keys_def)
    have w: "(Window_new (wa_range g))\<lparr>w_exclude_current_time := ?ex, w_instance_not_in_window := wa_instance_not_in_window g\<rparr> = ?w0"
      and g': "wa_windows_union_gen g = []" using g by (simp_all add: Window_new_def plain_window_def)
    have pre: "\<exists>w. buffer_all HistoryWindow_BufferData (take (Suc i) ?ys) ?w0 = Some w \<and>
        w_table w = snd (windows_of (wa_range g) ?ex ?ys ! i) \<and> \<not> w_instance_not_in_window w" if "i < length ?ys" for i
      using buffer_prefix [OF y pos that] g by (simp add: plain_window_def)
    note window_instance_loop_rows [OF g' fn rows_iterator.axioms [OF it(1)] rd refl pre it(3), of 0 ?w0]
    then show ?thesis using u it(2,4) w g' by (simp add: RunWindowAggOnKey_def buffer_all_def)
  qed
qed

lemma fold_opt_rows:
  assumes "\<And>w out. w \<in> set ws \<Longrightarrow> f w out = Some (out\<lparr>tb_table := tb_table out @ limited n (length (tb_table out)) (h (fst w))\<rparr>)"
  shows "fold_opt f ws out =
    Some (out\<lparr>tb_table := tb_table out @ limited n (length (tb_table out)) (concat (map h (map fst ws)))\<rparr>)"
  using assms by (induction ws arbitrary: out) (simp_all add: limited_append, simp add: limited_def)

subsection \<open>Properties\<close>

text \<open>C39. The request window returns for every frame, every timestamp and every list of segments that are null, without an iterator
  or in-memory: the merge of the segments ends. Its rows are the request, if it is asked for, and rows of the segments, no
  row more often than the segments have it.\<close>

theorem RequestUnionWindow_returns:
  assumes "list_all2 segment_has segs xss"
  shows "\<exists>rows. RequestUnionWindow request segs ts r output exclude =
      Some (time_table (MemTimeTableHandler_new\<lparr>mt_table :=
        (if output then [(if sint ts > 0 then ts else 0, request)] else []) @ rows\<rparr>)) \<and>
    mset rows \<subseteq># mset (concat xss)"
proof -
  let ?d = "dropWhile (\<lambda>(k, v). window_end ts r exclude < k)"
  have "mset (request_scan ts r exclude (merge_newest (map ?d xss))) \<subseteq># mset (merge_newest (map ?d xss))"
    by (simp add: request_scan_def Let_def frame_scan_mset)
  moreover have "mset (concat (map ?d xss)) \<subseteq># mset (concat xss)"
    by (induction xss) (simp_all add: subset_mset.add_mono dropWhile_mset)
  ultimately have "mset (request_scan ts r exclude (merge_newest (map ?d xss))) \<subseteq># mset (concat xss)"
    unfolding merge_newest_mset by (rule subset_mset.order_trans)
  then show ?thesis using RequestUnionWindow_scan [OF assms, of request ts r "output" exclude] by blast
qed

theorem RequestUnionWindow_returns_witness:
  "\<exists>t. RequestUnionWindow mem_row [None, Some (time_table \<lparr>mt_table = sample_table, mt_order_type = kDescOrder\<rparr>)] 7
      (CreateRowsWindow 3) True False = Some t"
  using RequestUnionWindow_returns [of "[None, Some (time_table \<lparr>mt_table = sample_table, mt_order_type = kDescOrder\<rparr>)]"
      "[[], sample_table]" mem_row 7 "CreateRowsWindow 3" True False]
    time_table_segment [of "\<lparr>mt_table = sample_table, mt_order_type = kDescOrder\<rparr>"]
  by (auto simp: segment_has_def)

text \<open>C37. The request mode and the batch mode see the same window: for a frame that ends at the request, the window merged
  from the segments of the request's key, newest row first, is the window the batch mode holds after it buffered, in order
  of time, the rows of all segments not later than the request and then the request itself. This is so for every kind of
  frame and with a limit on its size. The segments are newest first, as the storage keeps them.\<close>

theorem request_window_eq_batch_window:
  assumes "list_all2 segment_has segs xss" and "\<forall>xs \<in> set xss. newest_first xs" and "0 \<le> sint ts"
    and "sint (wr_start_offset r) \<le> 0" and "wr_end_offset r = 0" and "wr_start_row r + 1 \<noteq> 0"
    and "length (concat xss) < 2 ^ 64 - 1"
  shows "\<exists>rows w. mset rows = mset (filter (\<lambda>p. fst p \<le> ts) (concat xss)) \<and> sorted (map fst rows) \<and>
    buffer_all HistoryWindow_BufferData (rows @ [(ts, request)]) (Window_new r) = Some w \<and>
    RequestUnionWindow request segs ts r True False = Some (time_table (MemTimeTableHandler_new\<lparr>mt_table := w_table w\<rparr>))"
proof -
  let ?xss = "map (filter (\<lambda>p. fst p \<le> ts)) xss"
  let ?m = "merge_newest ?xss" and ?s = "offset_ts ts (wr_start_offset r)"
  have e: "window_end ts r False = ts" using assms(3,5) by (simp add: window_end_def offset_ts_0)
  have d: "map (dropWhile (\<lambda>(k, v). ts < k)) xss = ?xss" using assms(2) by (simp add: newest_first_seek)
  have ms: "mset ?m = mset (filter (\<lambda>p. fst p \<le> ts) (concat xss))" by (simp add: merge_newest_mset filter_concat)
  have le: "fst p \<le> ts" if "p \<in> set ?m" for p using that by (auto simp: merge_newest_set)
  have nf: "newest_first ((ts, request) # ?m)"
    using merge_newest_sorted [of ?xss] assms(2) le by (auto simp: sorted_wrt_filter)
  have s: "?s \<le> ts" by (rule offset_ts_le [OF assms(3,4)])
  have len: "length ?m < 2 ^ 64 - 1" using mset_eq_length [OF ms] assms(7) length_filter_le [of "\<lambda>p. fst p \<le> ts" "concat xss"] by linarith
  have "request_scan ts r False ?m = frame_scan r ?s ts (wr_start_row r) (wr_max_size r) 1 ?m"
    using assms(3,5) leD [OF s] request_key_eq [OF assms(3)]
    by (simp add: request_scan_def e Let_def GetWindowPositionStatus_def split: WindowFrameType.splits)
  then have scan: "(ts, request) # request_scan ts r False ?m = window_spec r ?s ((ts, request) # ?m)"
    using window_spec_scan [OF nf _ assms(6) len, of ?s ts] s by simp
  have "RequestUnionWindow request segs ts r True False =
      Some (time_table (MemTimeTableHandler_new\<lparr>mt_table := window_spec r ?s ((ts, request) # ?m)\<rparr>))"
    using RequestUnionWindow_scan [OF assms(1), of request ts r True False] request_key_eq [OF assms(3)] scan by (simp add: e d)
  moreover have "buffer_all HistoryWindow_BufferData (rev ?m @ [(ts, request)]) (Window_new r) =
      Some ((Window_new r)\<lparr>w_table := window_spec r ?s ((ts, request) # ?m)\<rparr>)"
    using current_window_all [of "rev ?m @ [(ts, request)]" r "Window_new r"] newest_first_rev [of "rev ?m @ [(ts, request)]"]
      nf assms(3-5) by (simp add: buffer_all_history Window_new_def)
  moreover have "sorted (map fst (rev ?m))" using nf newest_first_rev [of "rev ?m"] by simp
  ultimately show ?thesis using ms by (intro exI [of _ "rev ?m"] exI [of _ "(Window_new r)\<lparr>w_table := window_spec r ?s ((ts, request) # ?m)\<rparr>"]) simp
qed

theorem request_window_eq_batch_window_witness:
  "\<exists>rows w. mset rows = mset (filter (\<lambda>p. fst p \<le> 2) sample_table) \<and>
    buffer_all HistoryWindow_BufferData (rows @ [(2, mem_row)]) (Window_new (CreateRowsRangeWindow (- 1) 0 0)) = Some w \<and>
    RequestUnionWindow mem_row [Some (time_table \<lparr>mt_table = sample_table, mt_order_type = kDescOrder\<rparr>)] 2
      (CreateRowsRangeWindow (- 1) 0 0) True False = Some (time_table (MemTimeTableHandler_new\<lparr>mt_table := w_table w\<rparr>))"
  using request_window_eq_batch_window [of "[Some (time_table \<lparr>mt_table = sample_table, mt_order_type = kDescOrder\<rparr>)]"
      "[sample_table]" 2 "CreateRowsRangeWindow (- 1) 0 0" mem_row]
    time_table_segment [of "\<lparr>mt_table = sample_table, mt_order_type = kDescOrder\<rparr>"]
  by (auto simp: sample_table_def CreateRowsRangeWindow_def WindowRange_new_def)

text \<open>C38. A window over a table: the output has, for each key of the table and each row of that key in order of time, one
  row, which is the compiled function on that row, joined with the tables of the window's joins, and its frame over the rows
  of the key up to it, followed by the input's slices where they are asked for. With \<open>EXCLUDE CURRENT_TIME\<close> the frame is over
  the row and the rows of earlier times. The keys come in descending order, the rows of a key are those the table has, and
  a positive limit keeps the first rows of this output.

  The statement is for a partitioned table of an ascending order whose order keys are not negative (positive with
  \<open>EXCLUDE CURRENT_TIME\<close>), for a frame that starts at or before the row and ends at it, without window unions and without
  \<open>INSTANCE_NOT_IN_WINDOW\<close>, and for keys, joins and a compiled function that succeed on the rows, with no empty row.\<close>

theorem window_agg_rows:
  assumes "table_has t xs" and "plain_window g" and "fg_fn (wa_window_project_gen g) = Some fn" and "window_fn_total fn parameter"
    and "fg_Valid (wg_partition_gen (wa_instance_window_gen g))"
    and "keys_defined spark (wg_partition_gen (wa_instance_window_gen g)) parameter xs"
    and "orders_up (wa_exclude_current_time g) (wa_sort g) xs" and "window_rows_ready spark g joins parameter xs"
  shows "\<exists>keys seg out. WindowAggRunner_Run spark g parameter [] joins [Some (TableH t)] = Some (Some (TableH (row_table out))) \<and>
    sorted_wrt (\<lambda>k k'. k' < k) keys \<and> set keys = key_of spark (wg_partition_gen (wa_instance_window_gen g)) parameter ` snd ` set xs \<and>
    (\<forall>key. sorted (map fst (seg key)) \<and>
      mset (seg key) = mset (order_keys (wa_sort g) (group_rows spark (wg_partition_gen (wa_instance_window_gen g)) parameter xs key))) \<and>
    tb_table out = (let rows = concat (map (\<lambda>key. map (window_result fn (wa_append_slices g) parameter)
          (windows_of (wa_range g) (wa_exclude_current_time g) (join_rows spark g joins parameter (seg key)))) keys)
      in if sint (wa_limit_cnt g) > 0 then take (nat (sint (wa_limit_cnt g))) rows else rows)"
proof -
  let ?pg = "wg_partition_gen (wa_instance_window_gen g)"
  obtain h where h: "Partition_table spark ?pg (Some t) parameter = Some (Some (mem_partition h))" "seg_sorted (mp_partitions h)"
    "\<And>key. seg_rows key h = group_rows spark ?pg parameter xs key" "fst ` set (mp_partitions h) = key_of spark ?pg parameter ` snd ` set xs"
    by (rule Partition_table_groups [OF assms(1,5,6)]) blast
  let ?p = "mem_partition h" and ?keys = "map fst (mp_partitions h)"
  let ?seg = "\<lambda>key. std_sort AscComparor (order_keys (wa_sort g) (group_rows spark ?pg parameter xs key))"
  let ?rows = "\<lambda>key. map (window_result fn (wa_append_slices g) parameter)
    (windows_of (wa_range g) (wa_exclude_current_time g) (join_rows spark g joins parameter (?seg key)))"
  let ?out = "MemTableHandler_new\<lparr>tb_table := limited (wa_limit_cnt g) 0 (concat (map ?rows ?keys))\<rparr>"
  have s: "table_rows (ph_segment ?p key) (group_rows spark ?pg parameter xs key)" for key
    using segment_table_rows [of h key] h(3) by (simp add: mem_partition_def)
  have "RunWindowAggOnKey spark g parameter ?p [] joins key out =
      Some (out\<lparr>tb_table := tb_table out @ limited (wa_limit_cnt g) (length (tb_table out)) (?rows key)\<rparr>)" for key out
    using assms(8) by (intro RunWindowAggOnKey_rows [OF assms(2-4) s])
      (auto simp: group_rows_def orders_up_filter assms(7) window_rows_ready_def)
  then have "fold_opt (\<lambda>(key, seg) out. RunWindowAggOnKey spark g parameter ?p [] joins key out) (ph_windows ?p) MemTableHandler_new =
      Some (MemTableHandler_new\<lparr>tb_table := tb_table MemTableHandler_new @
        limited (wa_limit_cnt g) (length (tb_table MemTableHandler_new)) (concat (map ?rows (map fst (ph_windows ?p))))\<rparr>)"
    by (intro fold_opt_rows) (simp add: case_prod_beta)
  moreover have "map fst (ph_windows ?p) = ?keys" by (auto simp: mem_partition_def)
  ultimately have "WindowAggRunner_Run spark g parameter [] joins [Some (TableH t)] = Some (Some (TableH (row_table ?out)))"
    using h(1) assms(2) by (simp add: WindowAggRunner_Run_def Partition_data_def PartitionEach_def plain_window_def MemTableHandler_new_def)
  moreover have "sorted_wrt (\<lambda>k k'. k' < k) ?keys" using h(2) by (simp add: seg_sorted_def sorted_wrt_map)
  ultimately show ?thesis using h(4)
    by (intro exI [of _ ?keys] exI [of _ ?seg] exI [of _ ?out]) (simp add: std_sort_asc st.srt_mset limited_def Let_def)
qed

theorem window_agg_rows_witness:
  "\<exists>g keys seg out fn. WindowAggRunner_Run False g Row_default [] []
      [Some (TableH (time_table \<lparr>mt_table = [(1, mem_row_2), (2, mem_row_2)], mt_order_type = kDescOrder\<rparr>))] =
      Some (Some (TableH (row_table out))) \<and>
    set keys = {bytes_of ''12|!N@U#L$L%''} \<and> sorted_wrt (\<lambda>k k'. k' < k) keys \<and>
    mset (seg (bytes_of ''12|!N@U#L$L%'')) = {#(12, mem_row_2), (12, mem_row_2)#} \<and>
    tb_table out = take 1 (concat (map (\<lambda>key. map (window_result fn 1 Row_default)
      (windows_of (wa_range g) True (join_rows False g [] Row_default (seg key)))) keys))"
proof -
  obtain pg where pg: "fg_Valid pg" "\<And>p. KeyGenerator_Gen False pg mem_row_2 p = Some (bytes_of ''12|!N@U#L$L%'')"
    by (rule key_generator_exists) blast
  obtain og where og: "fg_Valid og" "OrderGenerator_Gen og mem_row_2 = Some 12" by (rule order_generator_exists) blast
  obtain m m' T T' where m: "enc_ok False key_schema key_row_1 T"
      "enc_mem False key_schema key_row_1 T (length key_schema) (length key_schema) m"
    and "enc_ok False key_schema key_row_2 T'"
      "enc_mem False key_schema key_row_2 T' (length key_schema) (length key_schema) m'"
    by (rule key_rows_encoded)
  define fn :: window_fn where "fn = (\<lambda>k v w parameter. (0, m))"
  define g where "g = \<lparr>wa_limit_cnt = 1, wa_instance_not_in_window = False, wa_exclude_current_time = True, wa_append_slices = 1,
    wa_instance_window_gen = \<lparr>wg_partition_gen = pg, wg_sort_gen = \<lparr>so_is_valid = True, so_is_asc = True, so_order_gen = og\<rparr>,
      wg_range_gen = \<lparr>ra_ts_gen = og, ra_window_range = CreateRowsWindow 1\<rparr>\<rparr>,
    wa_windows_union_gen = [], wa_windows_join_gen = [], wa_window_project_gen = FnGenerator_new False (Some fn) key_schema\<rparr>"
  let ?xs = "[(1, mem_row_2), (2, mem_row_2)] :: MemTimeTable"
  have t: "table_has (time_table \<lparr>mt_table = ?xs, mt_order_type = kDescOrder\<rparr>) ?xs"
    using time_table_has [of "\<lparr>mt_table = ?xs, mt_order_type = kDescOrder\<rparr>"] by simp
  have total: "window_fn_total fn Row_default" using managed_row_enc [OF m] by (simp add: window_fn_total_def fn_def)
  have k: "group_rows False pg Row_default ?xs (bytes_of ''12|!N@U#L$L%'') = ?xs"
    "key_of False pg Row_default ` snd ` set ?xs = {bytes_of ''12|!N@U#L$L%''}" "keys_defined False pg Row_default ?xs"
    using pg(2) by (simp_all add: group_rows_def key_of_def keys_defined_def defined_on_def)
  have o: "orders_up True \<lparr>so_is_valid = True, so_is_asc = True, so_order_gen = og\<rparr> ?xs"
    "order_keys \<lparr>so_is_valid = True, so_is_asc = True, so_order_gen = og\<rparr> ?xs = [(12, mem_row_2), (12, mem_row_2)]"
    using og by (simp_all add: orders_up_def order_keys_def defined_on_def)
  have g: "plain_window g" "fg_fn (wa_window_project_gen g) = Some fn" "wg_partition_gen (wa_instance_window_gen g) = pg"
    "wa_sort g = \<lparr>so_is_valid = True, so_is_asc = True, so_order_gen = og\<rparr>" "wa_limit_cnt g = 1"
    "wa_exclude_current_time g = True" "wa_append_slices g = 1"
    by (simp_all add: g_def plain_window_def FnGenerator_new_def CreateRowsWindow_def WindowRange_new_def)
  have r: "window_rows_ready False g [] Row_default ?xs"
    by (simp add: window_rows_ready_def window_row_def g_def)
  obtain keys seg out where "WindowAggRunner_Run False g Row_default [] []
      [Some (TableH (time_table \<lparr>mt_table = ?xs, mt_order_type = kDescOrder\<rparr>))] = Some (Some (TableH (row_table out)))"
    "sorted_wrt (\<lambda>k k'. k' < k) keys" "set keys = key_of False pg Row_default ` snd ` set ?xs"
    "\<forall>key. sorted (map fst (seg key)) \<and> mset (seg key) = mset (order_keys \<lparr>so_is_valid = True, so_is_asc = True, so_order_gen = og\<rparr>
      (group_rows False pg Row_default ?xs key))"
    "tb_table out = take 1 (concat (map (\<lambda>key. map (window_result fn 1 Row_default)
      (windows_of (wa_range g) True (join_rows False g [] Row_default (seg key)))) keys))"
    using window_agg_rows [OF t g(1,2) total, of False "[]", unfolded g(3-7), OF pg(1) k(3) o(1) r]
    by (elim exE conjE) (rule that; simp add: Let_def)
  then show ?thesis using k(1,2) o(2)
    by (intro exI [of _ g] exI [of _ keys] exI [of _ seg] exI [of _ out] exI [of _ fn]) simp
qed

end
