(* ===== verification/Spec2Isabelle.thy ===== *)
theory Spec2Isabelle
  imports Slice_Refs Runner_Window
begin

text \<open>
  \<^bold>\<open>A verification library for HybridSE.\<close>

  HybridSE compiles SQL to functions on encoded rows and runs them over tables, partitions and windows. The development
  follows a row from its bytes to the result of a query: how a row is encoded and read, how rows are combined and
  compared, how tables, partitions and windows hold them, and how the runners of a plan compute keys, sort, partition,
  filter, join, project and aggregate. Paths are relative to \<open>src/\<close>.

  \<^bold>\<open>Conventions.\<close> Machine integers are words of their width, so wrap-around is the source's; the few counters of rows and slices
  that are natural numbers or integers instead are listed under Bounds. A raw buffer is the list
  of its bytes; a load or store outside it has no result, so a definition of type \<open>'a option\<close> gives \<open>None\<close> where the
  code has undefined behaviour (or does not return), and a theorem with a \<open>Some\<close> result also shows that this
  does not happen. A null pointer is an inner \<open>None\<close>; an error code or a false return is a value. Loops over iterators
  are recursions on what is left, or \<open>partial_function (option)\<close> where the virtual functions of the iterator are
  unknown; the theorems then prove that the loop returns. No definition uses fuel. The flag
  \<open>enable_spark_unsaferow_format\<close> is the argument \<open>spark\<close>. Functions compiled by LLVM are arguments
  (\<open>row_fn\<close>, \<open>const_fn\<close>, \<open>agg_fn\<close>, \<open>window_fn\<close>): what a theorem asks of them is that they return the address of an encoded row, and
  each such theorem has a witness with a concrete function. \<open>std::sort\<close> enters through its contract (locale
  \<open>sorter\<close>) and is instantiated by an insertion sort.

  \<^bold>\<open>Theories and the code they model.\<close>
  \<^item> \<open>HSE_Prelude\<close>: machine types, buffers, little-endian words, shared facts.
  \<^item> \<open>Type_Codec\<close>, \<open>Type_Facts\<close> (\<open>include/codec/type_codec.h\<close>, \<open>src/codec/type_codec.cc\<close>): \<open>StringRef\<close>, \<open>Timestamp\<close>,
    \<open>Date\<close> and the field readers and writers of \<open>codec::v1\<close>. Shown: \<open>StringRef\<close>'s operators are the lexicographic
    order of bytes; a packed date decodes to its year, month and day and is ordered like them.
  \<^item> \<open>Row_Codec\<close>, \<open>Row_Layout\<close>, \<open>Row_Roundtrip\<close> (\<open>fe_row_codec.h\<close>, \<open>fe_row_codec.cc\<close>): \<open>RowBuilder\<close>, \<open>RowView\<close> and
    \<open>RowFormat\<close>. The locale \<open>layout_provider\<close> is the layout the three classes must agree on, interpreted for each of
    them. Shown: encoding a row in a buffer of \<open>CalTotalLength\<close> bytes never leaves the buffer, and reading it gives
    back every column, NULLs included. In the UnsafeRow format this is so of columns that are not strings and of NULLs;
    \<open>unsafe_row_string_unreadable\<close> has a string that does not come back.
  \<^item> \<open>Slice_Row\<close>, \<open>Slice_Refs\<close> (\<open>fe_slice.h\<close>, \<open>fe_slice.cc\<close>, \<open>row.h\<close>, \<open>row.cc\<close>): slices, rows of several slices and
    their order (locale \<open>byte_compare\<close>); the reference counts over an explicit heap, as a step relation. Shown:
    no buffer is freed while a handle uses it nor twice, and the last handle frees it.
  \<^item> \<open>Row_Selector\<close> (\<open>fe_row_selector.cc\<close>): selecting columns of several slices into a new row refines the
    selection of values (in the UnsafeRow format for rows without strings that are not NULL), and the two overloads
    of \<open>Select\<close>, for a row and for one slice, agree.
  \<^item> \<open>Row_Iterators\<close> (\<open>iterator.h\<close>, \<open>row_list.h\<close>, \<open>list_iterator_codec.h\<close>): an iterator class is the record of its
    virtual functions; the locales \<open>row_iterator\<close>, \<open>seekable_iterator\<close> and \<open>rows_iterator\<close> are the contract
    every loop of the engine relies on (rows left, all rows, where \<open>Seek\<close> goes), and each iterator of the
    code is an interpretation.
  \<^item> \<open>Mem_Catalog\<close> (\<open>mem_catalog.h\<close>, \<open>mem_catalog.cc\<close>): time tables, row tables, partitions and their segments
    (locale \<open>segment_map\<close>), concatenated and request union tables.
  \<^item> \<open>Window_Buffer\<close> (\<open>mem_catalog.h\<close>): \<open>WindowRange\<close>, \<open>HistoryWindow\<close>, \<open>CurrentHistoryWindow\<close>. Shown: buffering rows in
    time order keeps exactly the rows of the frame (\<open>window_spec\<close>); an invariant of any sequence of calls, for windows
    without EXCLUDE CURRENT_TIME and, of \<open>HistoryWindow\<close>, without an end offset; the variants with an end offset and
    with EXCLUDE CURRENT_TIME; in every state a row is accepted or refused, and nothing is taken from an empty deque.
  \<^item> \<open>Data_Handlers\<close> (\<open>catalog.h\<close>, \<open>catalog_wrapper.h\<close>): tables, partitions and rows as the runners see them, and the
    projecting and filtering wrappers as iterators over iterators.
  \<^item> \<open>Runner_Keys\<close> (\<open>runner.cc\<close>, \<open>core_api.cc\<close>): keys, orders, conditions and projections of a row. Shown: the key of
    an encoded row is the joined text of its columns, and when it separates rows.
  \<^item> \<open>Runner_Sort\<close> (\<open>runner.cc\<close>): sorting, partitioning, seeking and filtering. Shown: partitioning groups rows
    by key and keeps their order; an index lookup finds the rows a scan finds.
  \<^item> \<open>Runner_Join\<close> (\<open>runner.cc\<close>): LAST JOIN on tables, partitions and rows. Shown: a left row gets the matching
    right row that comes last in the order, ascending or descending, and the batch and request modes agree where that
    order tells the right rows apart, or none is asked for.
  \<^item> \<open>Runner_Rel\<close> (\<open>runner.cc\<close>): the \<open>Run\<close> functions that group, sort, project, filter, limit, aggregate and
    concatenate. Shown: GROUP BY gives one aggregated row per key; a pushed-down limit equals a limit on top.
  \<^item> \<open>Runner_Window\<close> (\<open>runner.h\<close>, \<open>runner.cc\<close>): the request window, merged from the segments of the request's key, and the batch
    window, buffered row by row. Shown: both are the same window; the merge ends; a window over a table gives the
    compiled function of every row's frame, with joins, limit, appended slices and EXCLUDE CURRENT_TIME, but without window
    unions and \<open>INSTANCE_NOT_IN_WINDOW\<close>, for frames that end at the row and an ascending order of non-negative keys.

  \<^bold>\<open>Bounds.\<close> The theorems on encoded rows ask that a schema has fewer than \<open>2 ^ 31\<close> columns and the row fewer than
  \<open>2 ^ 32\<close> bytes, the range of the code's offsets; lists of rows are shorter than \<open>2 ^ 64\<close> where a 64 bit counter counts
  them. Some counters do not wrap in the model: the position and bounds of \<open>InnerRowsIterator\<close> and the slice count
  \<open>GetRowPtrCnt\<close> are natural numbers, the row counts of \<open>project_loop\<close>, \<open>limit_loop\<close> and the window loop are integers. They
  differ from the code's only beyond \<open>2 ^ 64\<close> positions, \<open>2 ^ 31\<close> slices or \<open>2 ^ 31\<close> rows.

  \<^bold>\<open>Not modelled.\<close> The front end (\<open>planv2\<close>, \<open>plan\<close>, \<open>node\<close>) converts trees of the zetasql parser, which is not in the
  repository. The physical operators, the transformer and the passes rewrite plans whose meaning is given by the code
  generator (\<open>codegen\<close>, \<open>udf\<close>, \<open>vm/jit\<close>), which emits LLVM instructions through LLVM's interface. The engine and its sessions,
  the cluster tasks and their remote tablets call those parts, locks and RPC. The SDKs, the toydb example, the test cases and the
  benchmarks are clients. Logging, printing, names and schemas of handlers that no operation changes are left out of the
  components that are modelled.
\<close>

end
